(* ===== verification/Prelude.thy ===== *)
theory Prelude
  imports Main "HOL-Library.Word" "HOL-Library.Sublist" "HOL-Library.List_Lexorder"
    "HOL-Library.Product_Lexorder" "HOL-Library.AList" "HOL-Library.Char_ord"
begin

unbundle bit_operations_syntax

text \<open>
  Shared vocabulary of the development: bytes and byte strings, the big- and little-endian
  conversions of Rust's \<open>to_be_bytes\<close>, \<open>to_le_bytes\<close>, \<open>from_be_bytes\<close>, \<open>from_le_bytes\<close>,
  slices, the \<open>Result\<close> monad (\<open>Inl\<close> is the error) with the loops the code writes with \<open>?\<close>,
  hash maps as association lists, and UTF-8 validity.
\<close>

named_theorems bytes_simps "lengths and round trips of byte conversions"
named_theorems res_simps "unfolding of the result monad"


section \<open>Integers and bytes\<close>

type_synonym byte = "8 word"
type_synonym bytes = "8 word list"
type_synonym u16 = "16 word"
type_synonym u32 = "32 word"
type_synonym u64 = "64 word"
type_synonym u128 = "128 word"

text \<open>The \<open>n\<close> low bytes of a number, least significant first, and back.\<close>

primrec nat_bytes :: "nat \<Rightarrow> nat \<Rightarrow> bytes" where
  "nat_bytes 0 x = []"
| "nat_bytes (Suc n) x = word_of_nat (x mod 256) # nat_bytes n (x div 256)"

primrec bytes_nat :: "bytes \<Rightarrow> nat" where
  "bytes_nat [] = 0"
| "bytes_nat (b # bs) = unat b + 256 * bytes_nat bs"

definition le_bytes :: "nat \<Rightarrow> 'a::len word \<Rightarrow> bytes" where
  "le_bytes n w = nat_bytes n (unat w)"

definition be_bytes :: "nat \<Rightarrow> 'a::len word \<Rightarrow> bytes" where
  "be_bytes n w = rev (nat_bytes n (unat w))"

definition from_le :: "bytes \<Rightarrow> 'a::len word" where
  "from_le bs = word_of_nat (bytes_nat bs)"

definition from_be :: "bytes \<Rightarrow> 'a::len word" where
  "from_be bs = word_of_nat (bytes_nat (rev bs))"

lemma length_nat_bytes [simp]: "length (nat_bytes n x) = n"
  by (induction n arbitrary: x) auto

lemma length_le_bytes [simp, bytes_simps]: "length (le_bytes n w) = n"
  by (simp add: le_bytes_def)

lemma length_be_bytes [simp, bytes_simps]: "length (be_bytes n w) = n"
  by (simp add: be_bytes_def)

lemma bytes_nat_nat_bytes: "bytes_nat (nat_bytes n x) = x mod 256 ^ n"
proof (induction n arbitrary: x)
  case 0
  show ?case by simp
next
  case (Suc n)
  have "bytes_nat (nat_bytes (Suc n) x) = x mod 256 + 256 * (x div 256 mod 256 ^ n)"
    by (simp add: Suc.IH unat_of_nat)
  also have "\<dots> = x mod (256 * 256 ^ n)"
    by (simp add: mod_mult2_eq)
  finally show ?case by simp
qed

lemma bytes_nat_less: "bytes_nat bs < 256 ^ length bs"
proof (induction bs)
  case Nil
  show ?case by simp
next
  case (Cons b bs)
  have "unat b < 256" using unsigned_less [of b, where ?'a = nat] by simp
  with Cons show ?case by simp
qed

lemma nat_bytes_bytes_nat: "nat_bytes (length bs) (bytes_nat bs) = bs"
proof (induction bs)
  case Nil
  show ?case by simp
next
  case (Cons b bs)
  have "unat b < 256" using unsigned_less [of b, where ?'a = nat] by simp
  then show ?case by (simp add: Cons.IH)
qed

lemma nat_bytes_zero: "nat_bytes n 0 = replicate n 0"
  by (induction n) auto

lemma be_bytes_zero: "be_bytes n 0 = replicate n 0"
  by (simp add: be_bytes_def nat_bytes_zero)

lemma from_le_le_bytes [simp, bytes_simps]:
  assumes "LENGTH('a::len) \<le> 8 * n"
  shows "from_le (le_bytes n (w :: 'a word)) = w"
proof -
  have "unat w < 2 ^ LENGTH('a)" by (rule unsigned_less)
  also have "\<dots> \<le> 2 ^ (8 * n)" using assms by (intro power_increasing) auto
  also have "\<dots> = 256 ^ n" by (simp add: power_mult)
  finally show ?thesis
    by (simp add: from_le_def le_bytes_def bytes_nat_nat_bytes)
qed

lemma from_be_rev: "from_be bs = from_le (rev bs)"
  by (simp add: from_be_def from_le_def)

lemma be_bytes_rev: "be_bytes n w = rev (le_bytes n w)"
  by (simp add: be_bytes_def le_bytes_def)

lemma from_be_be_bytes [simp, bytes_simps]:
  assumes "LENGTH('a::len) \<le> 8 * n"
  shows "from_be (be_bytes n (w :: 'a word)) = w"
  using assms by (simp add: from_be_rev be_bytes_rev)

lemma le_bytes_from_le:
  assumes "length bs = n" and "LENGTH('a::len) = 8 * n"
  shows "le_bytes n (from_le bs :: 'a word) = bs"
proof -
  have "bytes_nat bs < 2 ^ LENGTH('a)"
    using bytes_nat_less [of bs] assms by (simp add: power_mult)
  then have "unat (from_le bs :: 'a word) = bytes_nat bs"
    by (simp add: from_le_def unat_of_nat)
  then show ?thesis
    using nat_bytes_bytes_nat [of bs] assms by (simp add: le_bytes_def)
qed

lemma be_bytes_from_be:
  assumes "length bs = n" and "LENGTH('a::len) = 8 * n"
  shows "be_bytes n (from_be bs :: 'a word) = bs"
  using le_bytes_from_le [of "rev bs" n, where ?'a = 'a] assms by (simp add: from_be_rev be_bytes_rev)

lemma be_bytes_inject:
  assumes "LENGTH('a::len) \<le> 8 * n"
  shows "be_bytes n (v :: 'a word) = be_bytes n w \<longleftrightarrow> v = w"
  using assms from_be_be_bytes by metis

text \<open>Byte strings of one length compare like the numbers they spell, most significant first.\<close>

lemma bytes_nat_append:
  "bytes_nat (xs @ ys) = bytes_nat xs + 256 ^ length xs * bytes_nat ys"
  by (induction xs) (auto simp: algebra_simps)

lemma lexord_less_iff:
  "length xs = length ys \<Longrightarrow> (xs < ys) = (bytes_nat (rev xs) < bytes_nat (rev ys))"
proof (induction xs ys rule: list_induct2)
  case Nil
  show ?case by simp
next
  case (Cons x xs y ys)
  have bounds: "bytes_nat (rev xs) < 256 ^ length xs" "bytes_nat (rev ys) < 256 ^ length xs"
    using bytes_nat_less [of "rev xs"] bytes_nat_less [of "rev ys"] Cons.hyps by auto
  consider "x < y" | "x = y" | "y < x" by force
  then show ?case
  proof cases
    case 1
    then have "unat x + 1 \<le> unat y" by (simp add: word_less_nat_alt)
    then have "256 ^ length xs * (unat x + 1) \<le> 256 ^ length xs * unat y"
      by (rule mult_le_mono2)
    with 1 bounds Cons.hyps show ?thesis
      by (simp add: bytes_nat_append algebra_simps)
  next
    case 2
    with Cons show ?thesis by (simp add: bytes_nat_append)
  next
    case 3
    then have "unat y + 1 \<le> unat x" by (simp add: word_less_nat_alt)
    then have "256 ^ length xs * (unat y + 1) \<le> 256 ^ length xs * unat x"
      by (rule mult_le_mono2)
    with 3 bounds Cons.hyps show ?thesis
      by (auto simp: bytes_nat_append algebra_simps)
  qed
qed

lemma be_bytes_less_iff:
  assumes "LENGTH('a::len) \<le> 8 * n"
  shows "be_bytes n (v :: 'a word) < be_bytes n w \<longleftrightarrow> v < w"
proof -
  have small: "unat (u :: 'a word) mod 256 ^ n = unat u" for u
  proof -
    have "unat u < 2 ^ LENGTH('a)" by (rule unsigned_less)
    also have "\<dots> \<le> 2 ^ (8 * n)" using assms by (intro power_increasing) auto
    also have "\<dots> = 256 ^ n" by (simp add: power_mult)
    finally show ?thesis by simp
  qed
  have "be_bytes n v < be_bytes n w \<longleftrightarrow>
      bytes_nat (rev (be_bytes n v)) < bytes_nat (rev (be_bytes n w))"
    by (rule lexord_less_iff) simp
  also have "\<dots> \<longleftrightarrow> unat v < unat w"
    by (simp add: be_bytes_def bytes_nat_nat_bytes small)
  finally show ?thesis by (simp add: word_less_nat_alt)
qed

lemma append_less_iff:
  "length (xs :: 'a::linorder list) = length ys \<Longrightarrow>
   xs @ us < ys @ vs \<longleftrightarrow> xs < ys \<or> xs = ys \<and> us < vs"
  by (induction xs ys rule: list_induct2) auto


section \<open>Slices\<close>

text \<open>\<open>xs[a..b]\<close>; the code only takes slices it has checked to be in range.\<close>

definition bslice :: "nat \<Rightarrow> nat \<Rightarrow> 'a list \<Rightarrow> 'a list" where
  "bslice a b xs = take (b - a) (drop a xs)"

lemma bslice_cat [simp]:
  "length xs = n \<Longrightarrow> bslice n (n + m) (xs @ ys) = take m ys"
  by (simp add: bslice_def)

lemma bslice_skip:
  "length xs \<le> a \<Longrightarrow> bslice a b (xs @ ys) = bslice (a - length xs) (b - length xs) ys"
  by (simp add: bslice_def)

lemma bslice_head: "length xs = n \<Longrightarrow> bslice 0 n (xs @ ys) = xs"
  by (simp add: bslice_def)

lemma bslice_all: "length b \<le> n \<Longrightarrow> bslice 0 n b = b"
  by (simp add: bslice_def)

lemma length_bslice: "length (bslice a b xs) = min (b - a) (length xs - a)"
  by (simp add: bslice_def)


section \<open>Results\<close>

text \<open>\<open>Result<T, E>\<close> is \<open>'e + 'a\<close>; \<open>rbind\<close> is the \<open>?\<close> operator.\<close>

primrec rbind :: "'e + 'a \<Rightarrow> ('a \<Rightarrow> 'e + 'b) \<Rightarrow> 'e + 'b" where
  "rbind (Inl e) f = Inl e"
| "rbind (Inr x) f = f x"

primrec rtraverse :: "('x \<Rightarrow> 'e + 'a) \<Rightarrow> 'x list \<Rightarrow> 'e + 'a list" where
  "rtraverse f [] = Inr []"
| "rtraverse f (x # xs) = rbind (f x) (\<lambda>y. rbind (rtraverse f xs) (\<lambda>ys. Inr (y # ys)))"

primrec rfold :: "('x \<Rightarrow> 's \<Rightarrow> 'e + 's) \<Rightarrow> 'x list \<Rightarrow> 's \<Rightarrow> 'e + 's" where
  "rfold f [] s = Inr s"
| "rfold f (x # xs) s = rbind (f x s) (rfold f xs)"

definition ok_or :: "'a option \<Rightarrow> 'e \<Rightarrow> 'e + 'a" where
  "ok_or x e = (case x of None \<Rightarrow> Inl e | Some y \<Rightarrow> Inr y)"

lemma ok_or_simps [simp]: "ok_or None e = Inl e" "ok_or (Some y) e = Inr y"
  by (simp_all add: ok_or_def)

lemma rbind_cong [fundef_cong]:
  "m = m' \<Longrightarrow> (\<And>x. m' = Inr x \<Longrightarrow> f x = f' x) \<Longrightarrow> rbind m f = rbind m' f'"
  by (cases m') auto

lemma rbind_Inr_iff [simp]: "rbind m f = Inr y \<longleftrightarrow> (\<exists>x. m = Inr x \<and> f x = Inr y)"
  by (cases m) auto

lemma Inr_rbind_iff [simp]: "Inr y = rbind m f \<longleftrightarrow> (\<exists>x. m = Inr x \<and> f x = Inr y)"
  by (cases m) auto

lemma rbind_Inl_iff: "rbind m f = Inl e \<longleftrightarrow> m = Inl e \<or> (\<exists>x. m = Inr x \<and> f x = Inl e)"
  by (cases m) auto

lemma rbind_assoc: "rbind (rbind m f) g = rbind m (\<lambda>x. rbind (f x) g)"
  by (cases m) auto

lemma rtraverse_Inr_iff:
  "rtraverse f xs = Inr ys \<longleftrightarrow> list_all2 (\<lambda>x y. f x = Inr y) xs ys"
  by (induction xs arbitrary: ys) (auto simp: list_all2_Cons1)

lemma rtraverse_map: "rtraverse (\<lambda>x. Inr (f x)) xs = Inr (map f xs)"
  by (induction xs) auto

lemma rtraverse_Inl_iff:
  "(\<exists>e. rtraverse f xs = Inl e) \<longleftrightarrow> (\<exists>x \<in> set xs. \<exists>e. f x = Inl e)"
proof (induction xs)
  case Nil
  show ?case by simp
next
  case (Cons x xs)
  then show ?case by (cases "f x"; cases "rtraverse f xs") auto
qed

lemma rfold_append: "rfold f (xs @ ys) s = rbind (rfold f xs s) (rfold f ys)"
proof (induction xs arbitrary: s)
  case Nil
  show ?case by simp
next
  case (Cons x xs)
  then show ?case by (cases "f x s") auto
qed

lemma rfold_invariant:
  assumes "rfold f xs s = Inr t" and "I s"
    and "\<And>x s t. x \<in> set xs \<Longrightarrow> I s \<Longrightarrow> f x s = Inr t \<Longrightarrow> I t"
  shows "I t"
  using assms
proof (induction xs arbitrary: s)
  case Nil
  then show ?case by simp
next
  case (Cons x xs)
  from Cons.prems(1) obtain u where u: "f x s = Inr u" "rfold f xs u = Inr t" by auto
  show ?case
  proof (rule Cons.IH [OF u(2)])
    show "I u" using Cons.prems(2,3) u(1) by auto
  qed (use Cons.prems(3) in auto)
qed


section \<open>Hash maps as association lists\<close>

text \<open>
  A \<open>HashMap\<close> is an association list in order of first insertion: \<open>map_of\<close> is \<open>get\<close>,
  \<open>AList.update\<close> is \<open>insert\<close>. The iteration order of a real \<open>HashMap\<close> is unspecified, so
  theorems about results built by iterating over one speak about their set.
\<close>

definition hm_get :: "('k \<times> 'v) list \<Rightarrow> 'k \<Rightarrow> 'v option" where
  "hm_get m k = map_of m k"

definition hm_insert :: "'k \<Rightarrow> 'v \<Rightarrow> ('k \<times> 'v) list \<Rightarrow> ('k \<times> 'v) list" where
  "hm_insert k v m = AList.update k v m"

definition hm_remove :: "'k \<Rightarrow> ('k \<times> 'v) list \<Rightarrow> ('k \<times> 'v) list" where
  "hm_remove k m = AList.delete k m"

lemma hm_get_Nil [simp]: "hm_get [] k = None"
  by (simp add: hm_get_def)

lemma hm_get_insert: "hm_get (hm_insert k v m) k' = (if k' = k then Some v else hm_get m k')"
  by (simp add: hm_get_def hm_insert_def update_conv')

lemma hm_get_remove: "hm_get (hm_remove k m) k' = (if k' = k then None else hm_get m k')"
  by (simp add: hm_get_def hm_remove_def delete_conv')

lemma hm_distinct_insert: "distinct (map fst m) \<Longrightarrow> distinct (map fst (hm_insert k v m))"
  by (simp add: hm_insert_def distinct_update)

lemma hm_distinct_remove: "distinct (map fst m) \<Longrightarrow> distinct (map fst (hm_remove k m))"
  by (simp add: hm_remove_def distinct_delete)

lemma hm_get_in_set: "hm_get m k = Some v \<Longrightarrow> (k, v) \<in> set m"
  by (simp add: hm_get_def map_of_SomeD)

lemma hm_get_iff_set: "distinct (map fst m) \<Longrightarrow> hm_get m k = Some v \<longleftrightarrow> (k, v) \<in> set m"
  by (simp add: hm_get_def)


section \<open>Strings\<close>

text \<open>A Rust \<open>str\<close> is the list of its UTF-8 bytes, each one a \<open>char\<close>.\<close>

definition char_byte :: "char \<Rightarrow> byte" where
  "char_byte c = word_of_nat (of_char c)"

definition byte_char :: "byte \<Rightarrow> char" where
  "byte_char b = char_of (unat b)"

definition as_bytes :: "string \<Rightarrow> bytes" where
  "as_bytes s = map char_byte s"

definition bytes_str :: "bytes \<Rightarrow> string" where
  "bytes_str bs = map byte_char bs"

lemma byte_char_char_byte [simp]: "byte_char (char_byte c) = c"
proof -
  have "of_char c mod 256 = (of_char c :: nat)"
    using of_char_of [of "of_char c :: nat"] by simp
  then show ?thesis by (simp add: byte_char_def char_byte_def unat_of_nat)
qed

lemma char_byte_byte_char [simp]: "char_byte (byte_char b) = b"
proof -
  have "unat b < 256" using unsigned_less [of b, where ?'a = nat] by simp
  then show ?thesis by (simp add: byte_char_def char_byte_def)
qed

lemma bytes_str_as_bytes [simp, bytes_simps]: "bytes_str (as_bytes s) = s"
  by (simp add: bytes_str_def as_bytes_def o_def)

lemma as_bytes_bytes_str [simp, bytes_simps]: "as_bytes (bytes_str bs) = bs"
  by (simp add: bytes_str_def as_bytes_def o_def)

lemma as_bytes_inject [simp]: "as_bytes s = as_bytes t \<longleftrightarrow> s = t"
  by (metis bytes_str_as_bytes)

lemma length_as_bytes [simp, bytes_simps]: "length (as_bytes s) = length s"
  by (simp add: as_bytes_def)

lemma as_bytes_append [simp]: "as_bytes (s @ t) = as_bytes s @ as_bytes t"
  by (simp add: as_bytes_def)

text \<open>\<open>str::from_utf8\<close>: the well-formed byte sequences of the Unicode standard, table 3-7.\<close>

definition utf8_cont :: "byte \<Rightarrow> bool" where
  "utf8_cont b \<longleftrightarrow> 0x80 \<le> b \<and> b \<le> 0xBF"

fun utf8_valid :: "bytes \<Rightarrow> bool" where
  "utf8_valid [] = True"
| "utf8_valid (a # bs) =
    (if a < 0x80 then utf8_valid bs
     else if 0xC2 \<le> a \<and> a \<le> 0xDF then
       (case bs of b # bs' \<Rightarrow> utf8_cont b \<and> utf8_valid bs' | _ \<Rightarrow> False)
     else if 0xE0 \<le> a \<and> a \<le> 0xEF then
       (case bs of b # c # bs' \<Rightarrow>
          utf8_cont b \<and> (a = 0xE0 \<longrightarrow> 0xA0 \<le> b) \<and> (a = 0xED \<longrightarrow> b \<le> 0x9F)
          \<and> utf8_cont c \<and> utf8_valid bs'
        | _ \<Rightarrow> False)
     else if 0xF0 \<le> a \<and> a \<le> 0xF4 then
       (case bs of b # c # d # bs' \<Rightarrow>
          utf8_cont b \<and> (a = 0xF0 \<longrightarrow> 0x90 \<le> b) \<and> (a = 0xF4 \<longrightarrow> b \<le> 0x8F)
          \<and> utf8_cont c \<and> utf8_cont d \<and> utf8_valid bs'
        | _ \<Rightarrow> False)
     else False)"

definition from_utf8 :: "bytes \<Rightarrow> string option" where
  "from_utf8 bs = (if utf8_valid bs then Some (bytes_str bs) else None)"

definition is_utf8 :: "string \<Rightarrow> bool" where
  "is_utf8 s \<longleftrightarrow> utf8_valid (as_bytes s)"

lemma from_utf8_as_bytes [simp]: "is_utf8 s \<Longrightarrow> from_utf8 (as_bytes s) = Some s"
  by (simp add: from_utf8_def is_utf8_def)

text \<open>\<open>str::strip_prefix\<close>, \<open>str::split_once\<close> and ASCII case folding.\<close>

definition strip_prefix :: "'a list \<Rightarrow> 'a list \<Rightarrow> 'a list option" where
  "strip_prefix p s = (if prefix p s then Some (drop (length p) s) else None)"

fun split_once :: "'a list \<Rightarrow> 'a list \<Rightarrow> ('a list \<times> 'a list) option" where
  "split_once pat s =
    (if prefix pat s then Some ([], drop (length pat) s)
     else case s of [] \<Rightarrow> None
          | c # cs \<Rightarrow> map_option (\<lambda>(a, b). (c # a, b)) (split_once pat cs))"

declare split_once.simps [simp del]

definition ascii_lower :: "char \<Rightarrow> char" where
  "ascii_lower c = (if CHR ''A'' \<le> c \<and> c \<le> CHR ''Z'' then char_of (of_char c + 32 :: nat) else c)"

definition to_ascii_lowercase :: "string \<Rightarrow> string" where
  "to_ascii_lowercase s = map ascii_lower s"

definition eq_ignore_ascii_case :: "string \<Rightarrow> string \<Rightarrow> bool" where
  "eq_ignore_ascii_case s t \<longleftrightarrow> to_ascii_lowercase s = to_ascii_lowercase t"

lemma strip_prefix_append [simp]: "strip_prefix p (p @ s) = Some s"
  by (simp add: strip_prefix_def)

lemma strip_prefix_Some: "strip_prefix p s = Some t \<longleftrightarrow> s = p @ t"
  by (auto simp: strip_prefix_def prefix_def)

lemma split_once_Some:
  "split_once pat s = Some (a, b) \<Longrightarrow> s = a @ pat @ b"
proof (induction s arbitrary: a)
  case Nil
  then show ?case
    by (subst (asm) split_once.simps) (auto simp: prefix_def split: if_splits)
next
  case (Cons c s)
  then show ?case
    by (subst (asm) split_once.simps) (auto simp: prefix_def split: if_splits)
qed

end
