(* ===== verification/Core_Types.thy ===== *)
theory Core_Types
  imports Prelude
begin

text \<open>
  The data model of \<open>polargraph-core\<close>: identifiers (\<open>id.rs\<close>), bitemporal timestamps
  (\<open>temporal.rs\<close>), property values with their canonical bytes and content hash
  (\<open>value.rs\<close>), triples and quads (\<open>triple.rs\<close>, \<open>quad.rs\<close>), and the storage error type
  (\<open>polargraph-storage/src/error.rs\<close>).

  A UUID is its 16 bytes read most significant first, as a 128-bit word. An \<open>i64\<close> is a
  64-bit word ordered by \<open>sint\<close>. An \<open>f64\<close> and an \<open>f32\<close> are their bit patterns. The xxHash3
  function of the third-party crate is the parameter \<open>xxh\<close>; the clock is the parameter \<open>now\<close>.
\<close>


section \<open>Identifiers\<close>

datatype node_id = NodeId (node_uuid: u128)

datatype edge_id = EdgeId (edge_uuid: u128)

datatype graph_id = GraphId (graph_num: u32)

definition uuid_bytes :: "u128 \<Rightarrow> bytes" where
  "uuid_bytes u = be_bytes 16 u"

definition uuid_from_bytes :: "bytes \<Rightarrow> u128" where
  "uuid_from_bytes bs = from_be bs"

definition node_bytes :: "node_id \<Rightarrow> bytes" where
  "node_bytes n = uuid_bytes (node_uuid n)"

definition edge_bytes :: "edge_id \<Rightarrow> bytes" where
  "edge_bytes e = uuid_bytes (edge_uuid e)"

definition graph_bytes :: "graph_id \<Rightarrow> bytes" where
  "graph_bytes g = be_bytes 4 (graph_num g)"

definition DEFAULT_GRAPH :: graph_id where
  "DEFAULT_GRAPH = GraphId 0"

text \<open>\<open>NodeId::from_iri\<close>: the xxHash3-128 of the IRI's bytes, little-endian.\<close>

definition node_from_iri :: "(bytes \<Rightarrow> u128) \<Rightarrow> string \<Rightarrow> node_id" where
  "node_from_iri xxh iri = NodeId (uuid_from_bytes (le_bytes 16 (xxh (as_bytes iri))))"

lemma length_uuid_bytes [simp, bytes_simps]: "length (uuid_bytes u) = 16"
  by (simp add: uuid_bytes_def)

lemma length_node_bytes [simp, bytes_simps]: "length (node_bytes n) = 16"
  by (simp add: node_bytes_def)

lemma length_edge_bytes [simp, bytes_simps]: "length (edge_bytes n) = 16"
  by (simp add: edge_bytes_def)

lemma length_graph_bytes [simp, bytes_simps]: "length (graph_bytes n) = 4"
  by (simp add: graph_bytes_def)

lemma uuid_from_uuid_bytes [simp, bytes_simps]: "uuid_from_bytes (uuid_bytes u) = u"
  by (simp add: uuid_from_bytes_def uuid_bytes_def)

lemma uuid_bytes_from [simp]: "length bs = 16 \<Longrightarrow> uuid_bytes (uuid_from_bytes bs) = bs"
  by (simp add: uuid_from_bytes_def uuid_bytes_def be_bytes_from_be)

lemma uuid_from_node_bytes [simp, bytes_simps]: "uuid_from_bytes (node_bytes n) = node_uuid n"
  by (simp add: node_bytes_def)

lemma uuid_from_edge_bytes [simp, bytes_simps]: "uuid_from_bytes (edge_bytes n) = edge_uuid n"
  by (simp add: edge_bytes_def)

lemma from_be_graph_bytes [simp, bytes_simps]: "from_be (graph_bytes g) = graph_num g"
  by (simp add: graph_bytes_def)

lemma node_bytes_inject [simp]: "node_bytes m = node_bytes n \<longleftrightarrow> m = n"
  by (metis node_id.exhaust_sel uuid_from_node_bytes)

lemma graph_bytes_inject [simp]: "graph_bytes g = graph_bytes h \<longleftrightarrow> g = h"
  by (metis graph_id.exhaust_sel from_be_graph_bytes)

text \<open>The derived orders of \<open>NodeId\<close>, \<open>EdgeId\<close> and \<open>GraphId\<close>.\<close>

instantiation node_id :: linorder
begin

definition less_eq_node_id :: "node_id \<Rightarrow> node_id \<Rightarrow> bool" where
  "less_eq_node_id m n \<longleftrightarrow> node_uuid m \<le> node_uuid n"

definition less_node_id :: "node_id \<Rightarrow> node_id \<Rightarrow> bool" where
  "less_node_id m n \<longleftrightarrow> node_uuid m < node_uuid n"

instance
  by standard (auto simp: less_eq_node_id_def less_node_id_def node_id.expand)

end

instantiation edge_id :: linorder
begin

definition less_eq_edge_id :: "edge_id \<Rightarrow> edge_id \<Rightarrow> bool" where
  "less_eq_edge_id m n \<longleftrightarrow> edge_uuid m \<le> edge_uuid n"

definition less_edge_id :: "edge_id \<Rightarrow> edge_id \<Rightarrow> bool" where
  "less_edge_id m n \<longleftrightarrow> edge_uuid m < edge_uuid n"

instance
  by standard (auto simp: less_eq_edge_id_def less_edge_id_def edge_id.expand)

end

instantiation graph_id :: linorder
begin

definition less_eq_graph_id :: "graph_id \<Rightarrow> graph_id \<Rightarrow> bool" where
  "less_eq_graph_id m n \<longleftrightarrow> graph_num m \<le> graph_num n"

definition less_graph_id :: "graph_id \<Rightarrow> graph_id \<Rightarrow> bool" where
  "less_graph_id m n \<longleftrightarrow> graph_num m < graph_num n"

instance
  by standard (auto simp: less_eq_graph_id_def less_graph_id_def graph_id.expand)

end


section \<open>Timestamps\<close>

text \<open>Microseconds since the epoch as an \<open>i64\<close>; the derived order is the signed one.\<close>

datatype timestamp = Timestamp (ts_us: u64)

lemma sint_ts_inject: "sint (ts_us a) = sint (ts_us b) \<Longrightarrow> a = b"
  by (cases a; cases b) (auto intro: signed_word_eqI)

instantiation timestamp :: linorder
begin

definition less_eq_timestamp :: "timestamp \<Rightarrow> timestamp \<Rightarrow> bool" where
  "less_eq_timestamp a b \<longleftrightarrow> sint (ts_us a) \<le> sint (ts_us b)"

definition less_timestamp :: "timestamp \<Rightarrow> timestamp \<Rightarrow> bool" where
  "less_timestamp a b \<longleftrightarrow> sint (ts_us a) < sint (ts_us b)"

instance
  by standard (auto simp: less_eq_timestamp_def less_timestamp_def dest: sint_ts_inject)

end

definition END_OF_TIME :: timestamp where
  "END_OF_TIME = Timestamp 0x7FFFFFFFFFFFFFFF"

definition ts_MIN :: timestamp where
  "ts_MIN = Timestamp 0x8000000000000000"

definition ts_bytes :: "timestamp \<Rightarrow> bytes" where
  "ts_bytes t = be_bytes 8 (ts_us t)"

definition ts_from_bytes :: "bytes \<Rightarrow> timestamp" where
  "ts_from_bytes bs = Timestamp (from_be bs)"

record bitemporal_range =
  vt_start :: timestamp
  vt_end :: timestamp
  tt :: timestamp

definition assert_now :: "timestamp \<Rightarrow> timestamp \<Rightarrow> bitemporal_range" where
  "assert_now now valid_from = \<lparr>vt_start = valid_from, vt_end = END_OF_TIME, tt = now\<rparr>"

lemma length_ts_bytes [simp, bytes_simps]: "length (ts_bytes t) = 8"
  by (simp add: ts_bytes_def)

lemma ts_from_ts_bytes [simp, bytes_simps]: "ts_from_bytes (ts_bytes t) = t"
  by (simp add: ts_from_bytes_def ts_bytes_def)

lemma ts_bytes_from [simp]: "length bs = 8 \<Longrightarrow> ts_bytes (ts_from_bytes bs) = bs"
  by (simp add: ts_from_bytes_def ts_bytes_def be_bytes_from_be)

lemma ts_bytes_inject [simp]: "ts_bytes s = ts_bytes t \<longleftrightarrow> s = t"
  by (metis ts_from_ts_bytes)

lemma ts_le_END [simp]: "t \<le> END_OF_TIME"
proof -
  have "sint (ts_us t) < 2 ^ 63" using sint_less [of "ts_us t"] by simp
  then show ?thesis by (simp add: less_eq_timestamp_def END_OF_TIME_def)
qed

lemma ts_MIN_le [simp]: "ts_MIN \<le> t"
proof -
  have "- (2 ^ 63) \<le> sint (ts_us t)" using sint_ge [of "ts_us t"] by simp
  then show ?thesis by (simp add: less_eq_timestamp_def ts_MIN_def)
qed

text \<open>Big-endian timestamps sort like the numbers from the epoch on.\<close>

lemma ts_bytes_less_iff:
  assumes "Timestamp 0 \<le> s" and "Timestamp 0 \<le> t"
  shows "ts_bytes s < ts_bytes t \<longleftrightarrow> s < t"
proof -
  have pos: "sint (ts_us u) = uint (ts_us u)" if "Timestamp 0 \<le> u" for u
  proof -
    from that have "0 \<le> sint (ts_us u)" by (simp add: less_eq_timestamp_def)
    moreover have "sint (ts_us u) < 2 ^ 63" using sint_less [of "ts_us u"] by simp
    ultimately show ?thesis
      using uint_sint [of "ts_us u"] by (simp add: take_bit_int_eq_self)
  qed
  show ?thesis
    using be_bytes_less_iff [of 8 "ts_us s" "ts_us t"] pos [OF assms(1)] pos [OF assms(2)]
    by (simp add: ts_bytes_def less_timestamp_def word_less_def)
qed


section \<open>Values\<close>

datatype "value" =
    VNull
  | VBool bool
  | VInt u64
  | VFloat u64
  | VText string
  | VBlob bytes
  | VVector "u32 list"
  | VLangText string string
  | VTyped string string

text \<open>\<open>f64\<close> as bits: the tests and constants \<open>canonical_bytes\<close> and \<open>PartialEq\<close> use.\<close>

definition f64_is_nan :: "u64 \<Rightarrow> bool" where
  "f64_is_nan b \<longleftrightarrow> 0x7FF0000000000000 < b AND 0x7FFFFFFFFFFFFFFF"

definition f64_is_zero :: "u64 \<Rightarrow> bool" where
  "f64_is_zero b \<longleftrightarrow> b AND 0x7FFFFFFFFFFFFFFF = 0"

definition f64_NAN :: u64 where
  "f64_NAN = 0x7FF8000000000000"

definition f64_eq :: "u64 \<Rightarrow> u64 \<Rightarrow> bool" where
  "f64_eq a b \<longleftrightarrow> \<not> f64_is_nan a \<and> \<not> f64_is_nan b \<and> (a = b \<or> f64_is_zero a \<and> f64_is_zero b)"

definition f64_canonical :: "u64 \<Rightarrow> u64" where
  "f64_canonical f = (if f64_is_nan f then f64_NAN else if f64_is_zero f then 0 else f)"

definition f32_is_nan :: "u32 \<Rightarrow> bool" where
  "f32_is_nan b \<longleftrightarrow> 0x7F800000 < b AND 0x7FFFFFFF"

definition f32_is_zero :: "u32 \<Rightarrow> bool" where
  "f32_is_zero b \<longleftrightarrow> b AND 0x7FFFFFFF = 0"

definition f32_eq :: "u32 \<Rightarrow> u32 \<Rightarrow> bool" where
  "f32_eq a b \<longleftrightarrow> \<not> f32_is_nan a \<and> \<not> f32_is_nan b \<and> (a = b \<or> f32_is_zero a \<and> f32_is_zero b)"

text \<open>The derived \<open>PartialEq\<close> of \<open>Value\<close>.\<close>

fun value_eq :: "value \<Rightarrow> value \<Rightarrow> bool" where
  "value_eq (VFloat a) (VFloat b) = f64_eq a b"
| "value_eq (VVector xs) (VVector ys) = list_all2 f32_eq xs ys"
| "value_eq v w = (v = w)"

fun canonical_bytes :: "value \<Rightarrow> bytes" where
  "canonical_bytes VNull = [0x00]"
| "canonical_bytes (VBool b) = [0x01, if b then 1 else 0]"
| "canonical_bytes (VInt i) = 0x02 # be_bytes 8 i"
| "canonical_bytes (VFloat f) = 0x03 # be_bytes 8 (f64_canonical f)"
| "canonical_bytes (VText s) = 0x04 # as_bytes s"
| "canonical_bytes (VBlob b) = 0x05 # b"
| "canonical_bytes (VVector v) = 0x06 # concat (map (le_bytes 4) v)"
| "canonical_bytes (VLangText text lang) =
    0x07 # as_bytes (to_ascii_lowercase lang) @ [0x00] @ as_bytes text"
| "canonical_bytes (VTyped lexical datatype) =
    0x08 # as_bytes datatype @ [0x00] @ as_bytes lexical"

definition content_hash :: "(bytes \<Rightarrow> u128) \<Rightarrow> value \<Rightarrow> bytes" where
  "content_hash xxh v = le_bytes 16 (xxh (canonical_bytes v))"

fun value_as_text :: "value \<Rightarrow> string option" where
  "value_as_text (VText s) = Some s"
| "value_as_text (VLangText s lang) = Some s"
| "value_as_text _ = None"

lemma length_content_hash [simp, bytes_simps]: "length (content_hash xxh v) = 16"
  by (simp add: content_hash_def)

text \<open>
  What \<open>canonical_bytes\<close> identifies: all NaNs, both zeros, and language tags up to ASCII case.
\<close>

fun value_canon :: "value \<Rightarrow> value" where
  "value_canon (VFloat f) = VFloat (f64_canonical f)"
| "value_canon (VLangText text lang) = VLangText text (to_ascii_lowercase lang)"
| "value_canon v = v"

text \<open>No NUL byte in the part before the separator, so that the separator is the first NUL.\<close>

fun nul_free :: "value \<Rightarrow> bool" where
  "nul_free (VLangText text lang) = (CHR 0x00 \<notin> set lang)"
| "nul_free (VTyped lexical datatype) = (CHR 0x00 \<notin> set datatype)"
| "nul_free _ = True"

lemma sep_unique:
  assumes "x \<notin> set a" and "x \<notin> set b" and "a @ x # s = b @ x # t"
  shows "a = b \<and> s = t"
  using assms
proof (induction a arbitrary: b)
  case Nil
  then show ?case by (cases b) auto
next
  case (Cons y a)
  then show ?case by (cases b) auto
qed

lemma char_byte_zero_iff: "char_byte c = 0 \<longleftrightarrow> c = CHR 0x00"
proof
  assume "char_byte c = 0"
  then have "byte_char (char_byte c) = byte_char 0" by (rule arg_cong)
  also have "byte_char 0 = CHR 0x00" by (simp add: byte_char_def char_of_def)
  finally show "c = CHR 0x00" by simp
qed (simp add: char_byte_def)

lemma zero_in_as_bytes_iff: "0 \<in> set (as_bytes s) \<longleftrightarrow> CHR 0x00 \<in> set s"
proof -
  have "0 \<in> set (as_bytes s) \<longleftrightarrow> (\<exists>c \<in> set s. char_byte c = 0)"
    by (auto simp: as_bytes_def image_iff)
  then show ?thesis by (auto simp: char_byte_zero_iff)
qed

lemma ascii_lower_nul: "ascii_lower c = CHR 0x00 \<Longrightarrow> c = CHR 0x00"
proof (rule ccontr)
  assume low: "ascii_lower c = CHR 0x00" and c: "c \<noteq> CHR 0x00"
  then have upper: "CHR ''A'' \<le> c \<and> c \<le> CHR ''Z''"
    by (auto simp: ascii_lower_def split: if_splits)
  then have rng: "(65::nat) \<le> of_char c" "of_char c \<le> (90::nat)"
    by (auto simp: less_eq_char_def)
  from low upper have "char_of (of_char c + 32 :: nat) = CHR 0x00"
    by (simp add: ascii_lower_def)
  then have "of_char (char_of (of_char c + 32 :: nat)) = (of_char (CHR 0x00) :: nat)" by simp
  with rng show False by simp
qed

lemma nul_in_lowercase: "CHR 0x00 \<in> set (to_ascii_lowercase s) \<Longrightarrow> CHR 0x00 \<in> set s"
  using ascii_lower_nul by (auto simp: to_ascii_lowercase_def image_iff) (metis)

lemma concat_le_bytes_inject:
  "concat (map (le_bytes 4) xs) = concat (map (le_bytes 4) ys) \<Longrightarrow> xs = (ys :: u32 list)"
proof (induction xs arbitrary: ys)
  case Nil
  then show ?case by (cases ys) (auto simp: le_bytes_def dest: arg_cong [where f = length])
next
  case (Cons x xs)
  from Cons.prems obtain y ys' where ys: "ys = y # ys'"
    by (cases ys) (auto dest: arg_cong [where f = length])
  with Cons.prems have "le_bytes 4 x = le_bytes 4 y"
      and "concat (map (le_bytes 4) xs) = concat (map (le_bytes 4) ys')"
    by auto
  then have "(from_le (le_bytes 4 x) :: u32) = from_le (le_bytes 4 y)" by simp
  then have "x = y" by simp
  with Cons.IH [of ys'] ys \<open>concat (map (le_bytes 4) xs) = _\<close> show ?case by simp
qed

lemma canonical_bytes_canon: "canonical_bytes (value_canon v) = canonical_bytes v"
proof -
  have nan: "f64_canonical (f64_canonical f) = f64_canonical f" for f
    by (simp add: f64_canonical_def f64_is_nan_def f64_is_zero_def f64_NAN_def)
  have low: "ascii_lower (ascii_lower c) = ascii_lower c" for c
  proof (cases "CHR ''A'' \<le> c \<and> c \<le> CHR ''Z''")
    case True
    then have rng: "(65::nat) \<le> of_char c" "of_char c \<le> (90::nat)"
      by (auto simp: less_eq_char_def)
    then have "of_char (char_of (of_char c + 32 :: nat)) = (of_char c + 32 :: nat)" by simp
    with rng True show ?thesis
      by (simp add: ascii_lower_def less_eq_char_def)
  qed (auto simp: ascii_lower_def)
  show ?thesis
    by (cases v) (auto simp: nan low to_ascii_lowercase_def)
qed


section \<open>Triples and quads\<close>

datatype predicate = Predicate (pred_str: string)

datatype triple =
    Relation node_id predicate node_id edge_id bitemporal_range
  | Property node_id predicate "value" bitemporal_range
  | EdgeProperty edge_id predicate "value" bitemporal_range
  | EdgeRelation edge_id predicate node_id bitemporal_range

fun triple_subject :: "triple \<Rightarrow> node_id" where
  "triple_subject (Relation s p ob e t) = s"
| "triple_subject (Property s p v t) = s"
| "triple_subject (EdgeProperty e p v t) = NodeId (edge_uuid e)"
| "triple_subject (EdgeRelation e p ob t) = NodeId (edge_uuid e)"

fun triple_predicate :: "triple \<Rightarrow> predicate" where
  "triple_predicate (Relation s p ob e t) = p"
| "triple_predicate (Property s p v t) = p"
| "triple_predicate (EdgeProperty e p v t) = p"
| "triple_predicate (EdgeRelation e p ob t) = p"

fun triple_temporal :: "triple \<Rightarrow> bitemporal_range" where
  "triple_temporal (Relation s p ob e t) = t"
| "triple_temporal (Property s p v t) = t"
| "triple_temporal (EdgeProperty e p v t) = t"
| "triple_temporal (EdgeRelation e p ob t) = t"

record quad =
  quad_triple :: triple
  quad_graph :: graph_id

definition quad_default_graph :: "triple \<Rightarrow> quad" where
  "quad_default_graph t = \<lparr>quad_triple = t, quad_graph = DEFAULT_GRAPH\<rparr>"


section \<open>Storage errors\<close>

datatype storage_error =
    Rocks string
  | Serde string
  | IoError string
  | MissingCf string
  | KeyDecode string
  | WriteConflict node_id string
  | ReadOnly string
  | ValidationError string
  | NeedsMigration
  | UnsupportedFormat u32
  | IriCollision node_id string string

type_synonym 'a res = "storage_error + 'a"

text \<open>\<open>format!\<close> of an unsigned number.\<close>

fun nat_str :: "nat \<Rightarrow> string" where
  "nat_str n = (if n < 10 then [char_of (48 + n)] else nat_str (n div 10) @ [char_of (48 + n mod 10)])"

declare nat_str.simps [simp del]

definition int_str :: "int \<Rightarrow> string" where
  "int_str i = (if i < 0 then ''-'' @ nat_str (nat (- i)) else nat_str (nat i))"

end
