(* ===== verification/Env.thy ===== *)
theory Env
  imports Core_Types
begin

text \<open>
  The code outside the repository that the storage layer calls, as parameters: the xxHash3
  function, \<open>serde_json\<close> on \<open>Value\<close>, the \<open>uuid\<close> crate's text form, Rust's float parser, and
  RocksDB. The record \<open>env\<close> holds the functions; the locale \<open>kv_engine\<close> states what RocksDB
  documents about its column families when the disk does not fail: point reads and ordered
  iterators see one map from keys to values per family, and a write batch is applied atomically
  and in order. \<open>ref_env\<close> is a log-structured engine with these laws.

  Source: the calls of \<open>polargraph-storage/src/store.rs\<close>, \<open>codec.rs\<close> and
  \<open>polargraph-core/src/value.rs\<close>, \<open>term.rs\<close>; family names from \<open>cf.rs\<close>.
\<close>


section \<open>Column families\<close>

definition cf_META :: string where "cf_META = ''meta''"
definition cf_HNSW :: string where "cf_HNSW = ''hnsw''"
definition cf_TRI :: string where "cf_TRI = ''trig''"
definition cf_EPA :: string where "cf_EPA = ''epag''"
definition cf_EPO :: string where "cf_EPO = ''epog''"
definition cf_PEA :: string where "cf_PEA = ''peag''"
definition cf_DRV :: string where "cf_DRV = ''drvg''"
definition cf_IRI :: string where "cf_IRI = ''iri''"
definition cf_BLOB :: string where "cf_BLOB = ''blob''"
definition cf_CHG :: string where "cf_CHG = ''chg''"
definition cf_STS :: string where "cf_STS = ''sts''"

definition cf_ALL :: "string list" where
  "cf_ALL = [''spog'', ''sopg'', ''psog'', ''posg'', ''ospg'', ''opsg'', ''gspo'', ''gpos'',
    cf_META, cf_HNSW, cf_TRI, cf_EPA, cf_EPO, cf_PEA, cf_DRV, cf_IRI, cf_BLOB, cf_CHG, cf_STS]"

lemmas cf_defs = cf_META_def cf_HNSW_def cf_TRI_def cf_EPA_def cf_EPO_def cf_PEA_def cf_DRV_def
  cf_IRI_def cf_BLOB_def cf_CHG_def cf_STS_def


section \<open>Parameters\<close>

text \<open>A \<open>WriteBatch\<close> is the list of its operations.\<close>

datatype batch_op =
    Put string bytes bytes
  | Delete string bytes
  | DeleteRange string bytes bytes

record ext =
  xxh3_128 :: "bytes \<Rightarrow> u128"
  json_to_vec :: "value \<Rightarrow> string + bytes"
  json_from_slice :: "bytes \<Rightarrow> string + value"
  uuid_parse :: "string \<Rightarrow> u128 option"
  uuid_fmt :: "u128 \<Rightarrow> string"
  parse_f64 :: "string \<Rightarrow> u64 option"

record 'd env = ext +
  rk_cf :: "'d \<Rightarrow> string \<Rightarrow> bool"
  rk_get :: "'d \<Rightarrow> string \<Rightarrow> bytes \<Rightarrow> string + bytes option"
  rk_from :: "'d \<Rightarrow> string \<Rightarrow> bytes \<Rightarrow> string + (bytes \<times> bytes) list"
  rk_write :: "'d \<Rightarrow> batch_op list \<Rightarrow> string + 'd"

text \<open>The \<open>?\<close> operator's \<open>From\<close> conversions into \<open>StorageError\<close>.\<close>

definition from_rocks :: "string + 'a \<Rightarrow> 'a res" where
  "from_rocks r = (case r of Inl m \<Rightarrow> Inl (Rocks m) | Inr x \<Rightarrow> Inr x)"

definition from_serde :: "string + 'a \<Rightarrow> 'a res" where
  "from_serde r = (case r of Inl m \<Rightarrow> Inl (Serde m) | Inr x \<Rightarrow> Inr x)"

lemma from_rocks_simps [simp]: "from_rocks (Inr x) = Inr x" "from_rocks (Inl m) = Inl (Rocks m)"
  by (simp_all add: from_rocks_def)

lemma from_serde_simps [simp]: "from_serde (Inr x) = Inr x" "from_serde (Inl m) = Inl (Serde m)"
  by (simp_all add: from_serde_def)

text \<open>\<open>serde_json\<close> gives a value back: its documented behaviour but for non-finite floats.\<close>

definition json_faithful :: "'m ext_scheme \<Rightarrow> value \<Rightarrow> bool" where
  "json_faithful X v \<longleftrightarrow> (\<exists>bs. json_to_vec X v = Inr bs \<and> json_from_slice X bs = Inr v)"


section \<open>The contract of the key-value engine\<close>

type_synonym contents = "string \<Rightarrow> bytes \<Rightarrow> bytes option"

fun apply_op :: "batch_op \<Rightarrow> contents \<Rightarrow> contents" where
  "apply_op (Put cf k v) m = m(cf := (m cf)(k := Some v))"
| "apply_op (Delete cf k) m = m(cf := (m cf)(k := None))"
| "apply_op (DeleteRange cf a b) m = m(cf := (\<lambda>k. if a \<le> k \<and> k < b then None else m cf k))"

definition apply_batch :: "batch_op list \<Rightarrow> contents \<Rightarrow> contents" where
  "apply_batch ops m = fold apply_op ops m"

lemma apply_batch_simps [simp]:
  "apply_batch [] m = m"
  "apply_batch (op # ops) m = apply_batch ops (apply_op op m)"
  "apply_batch (ops @ ops') m = apply_batch ops' (apply_batch ops m)"
  by (simp_all add: apply_batch_def)

lemma apply_op_local: "m1 cf = m2 cf \<Longrightarrow> apply_op op m1 cf = apply_op op m2 cf"
  by (cases op) auto

lemma apply_batch_local: "m1 cf = m2 cf \<Longrightarrow> apply_batch ops m1 cf = apply_batch ops m2 cf"
proof (induction ops arbitrary: m1 m2)
  case (Cons op ops)
  show ?case unfolding apply_batch_simps(2)
    by (rule Cons.IH) (rule apply_op_local [of m1 cf m2 op], rule Cons.prems)
qed simp

text \<open>
  The loop \<open>for item in iterator_cf(From(p)) { if !key.starts_with(p) { break } ... }\<close>: the items it
  reaches. An error of the iterator ends the caller with that error.
\<close>

definition iter_prefix ::
  "('d, 'm) env_scheme \<Rightarrow> 'd \<Rightarrow> string \<Rightarrow> bytes \<Rightarrow> (bytes \<times> bytes) list res" where
  "iter_prefix E d cf p =
    (case from_rocks (rk_from E d cf p) of Inl e \<Rightarrow> Inl e
     | Inr xs \<Rightarrow> Inr (takeWhile (\<lambda>(k, _). prefix p k) xs))"

lemma prefix_le: "prefix p k \<Longrightarrow> p \<le> (k :: bytes)"
proof (induction p arbitrary: k)
  case (Cons b p)
  then show ?case by (cases k) auto
qed simp

lemma prefix_interval:
  assumes "p \<le> j" and "j \<le> (p @ x :: bytes)"
  shows "prefix p j"
  using assms
proof (induction p arbitrary: j)
  case (Cons b p)
  then show ?case by (cases j) (auto split: if_splits)
qed simp

lemma takeWhile_prefix_filter:
  assumes "sorted_wrt (<) (map fst xs)" and "\<And>k v. (k, v) \<in> set xs \<Longrightarrow> p \<le> (k :: bytes)"
  shows "takeWhile (\<lambda>(k, _). prefix p k) xs = filter (\<lambda>(k, _). prefix p k) xs"
  using assms
proof (induction xs)
  case (Cons y ys)
  obtain j w where y: "y = (j, w)" by (cases y)
  show ?case
  proof (cases "prefix p j")
    case True
    have "takeWhile (\<lambda>(k, _). prefix p k) ys = filter (\<lambda>(k, _). prefix p k) ys"
      by (rule Cons.IH) (use Cons.prems in auto)
    with True y show ?thesis by simp
  next
    case False
    have "\<not> prefix p k" if "(k, v) \<in> set ys" for k v
    proof
      assume "prefix p k"
      then obtain x where "k = p @ x" by (auto simp: prefix_def)
      moreover have "j < k" using Cons.prems(1) that y by force
      moreover have "p \<le> j" using Cons.prems(2) [of j w] y by simp
      ultimately show False using False prefix_interval [of p j x] by simp
    qed
    then have "filter (\<lambda>(k, _). prefix p k) ys = []" by (auto simp: filter_empty_conv)
    with False y show ?thesis by simp
  qed
qed simp

text \<open>What a family holds, as point reads report it.\<close>

definition view :: "('d, 'm) env_scheme \<Rightarrow> 'd \<Rightarrow> contents" where
  "view E d cf k = (case rk_get E d cf k of Inr (Some v) \<Rightarrow> Some v | _ \<Rightarrow> None)"

locale kv_engine =
  fixes E :: "('d, 'm) env_scheme"
  assumes has_cf: "cf \<in> set cf_ALL \<Longrightarrow> rk_cf E d cf"
    and get_ok: "\<exists>r. rk_get E d cf k = Inr r"
    and from_ok: "\<exists>xs. rk_from E d cf start = Inr xs \<and> sorted_wrt (<) (map fst xs) \<and>
      set xs = {(k, v). view E d cf k = Some v \<and> start \<le> k}"
    and write_ok: "\<exists>d'. rk_write E d ops = Inr d' \<and> view E d' = apply_batch ops (view E d)"
begin

lemma get_view: "rk_get E d cf k = Inr (view E d cf k)"
  using get_ok [of d cf k] by (auto simp: view_def split: option.splits)

lemma from_viewE:
  obtains xs where "rk_from E d cf start = Inr xs" and "sorted_wrt (<) (map fst xs)"
    and "\<And>k v. (k, v) \<in> set xs \<longleftrightarrow> view E d cf k = Some v \<and> start \<le> k"
  using from_ok [of d cf start] by auto

lemma iter_prefixE:
  obtains xs where "iter_prefix E d cf p = Inr xs" and "sorted_wrt (<) (map fst xs)"
    and "\<And>k v. (k, v) \<in> set xs \<longleftrightarrow> view E d cf k = Some v \<and> prefix p k"
proof -
  obtain xs where xs: "rk_from E d cf p = Inr xs" "sorted_wrt (<) (map fst xs)"
    "\<And>k v. (k, v) \<in> set xs \<longleftrightarrow> view E d cf k = Some v \<and> p \<le> k"
    using from_viewE [of d cf p] by metis
  let ?ys = "filter (\<lambda>(k, _). prefix p k) xs"
  have "iter_prefix E d cf p = Inr ?ys"
    using xs takeWhile_prefix_filter [of xs p] by (simp add: iter_prefix_def)
  moreover have "sorted_wrt (<) (map fst ?ys)"
    using xs(2) by (simp add: sorted_wrt_map sorted_wrt_filter)
  moreover have "(k, v) \<in> set ?ys \<longleftrightarrow> view E d cf k = Some v \<and> prefix p k" for k v
    using xs(3) prefix_le by auto
  ultimately show thesis by (rule that)
qed

lemma writeE:
  obtains d' where "rk_write E d ops = Inr d'" and "view E d' = apply_batch ops (view E d)"
  using write_ok [of d ops] by auto

end


section \<open>A log-structured engine\<close>

text \<open>
  The reference engine keeps the operations written so far; a read replays them. It shows that
  the laws of \<open>kv_engine\<close> can hold and lets concrete runs be evaluated.
\<close>

type_synonym ref_db = "batch_op list"

definition log_view :: "ref_db \<Rightarrow> contents" where
  "log_view d = apply_batch d (\<lambda>_ _. None)"

definition put_keys :: "string \<Rightarrow> ref_db \<Rightarrow> bytes list" where
  "put_keys cf d = [k. Put cf' k v \<leftarrow> d, cf' = cf]"

definition log_from :: "ref_db \<Rightarrow> string \<Rightarrow> bytes \<Rightarrow> (bytes \<times> bytes) list" where
  "log_from d cf start =
    List.map_filter (\<lambda>k. map_option (Pair k) (log_view d cf k))
      (sort (remdups (filter (\<lambda>k. start \<le> k) (put_keys cf d))))"

definition ref_env :: "ext \<Rightarrow> ref_db env" where
  "ref_env X = ext.extend X
    (env.fields (\<lambda>_ cf. cf \<in> set cf_ALL) (\<lambda>d cf k. Inr (log_view d cf k))
      (\<lambda>d cf start. Inr (log_from d cf start)) (\<lambda>d ops. Inr (d @ ops)))"

lemma ref_env_simps [simp]:
  "rk_cf (ref_env X) d cf = (cf \<in> set cf_ALL)"
  "rk_get (ref_env X) d cf k = Inr (log_view d cf k)"
  "rk_from (ref_env X) d cf start = Inr (log_from d cf start)"
  "rk_write (ref_env X) d ops = Inr (d @ ops)"
  "xxh3_128 (ref_env X) = xxh3_128 X"
  "json_to_vec (ref_env X) = json_to_vec X"
  "json_from_slice (ref_env X) = json_from_slice X"
  "uuid_parse (ref_env X) = uuid_parse X"
  "uuid_fmt (ref_env X) = uuid_fmt X"
  "parse_f64 (ref_env X) = parse_f64 X"
  by (simp_all add: ref_env_def ext.defs env.defs)

lemma put_keys_Cons [simp]:
  "put_keys cf (Put cf' k v # d) = (if cf' = cf then k # put_keys cf d else put_keys cf d)"
  "put_keys cf (Delete cf' k # d) = put_keys cf d"
  "put_keys cf (DeleteRange cf' a b # d) = put_keys cf d"
  "put_keys cf [] = []"
  by (simp_all add: put_keys_def)

lemma apply_batch_key:
  "apply_batch d m cf k = Some v \<Longrightarrow> k \<in> set (put_keys cf d) \<or> m cf k = Some v"
proof (induction d arbitrary: m)
  case Nil
  then show ?case by simp
next
  case (Cons op d)
  then show ?case by (cases op) (fastforce split: if_splits)+
qed

lemma log_view_key: "log_view d cf k = Some v \<Longrightarrow> k \<in> set (put_keys cf d)"
  using apply_batch_key by (fastforce simp: log_view_def)

lemma view_ref [simp]: "view (ref_env X) d = log_view d"
  by (intro ext) (simp add: view_def split: option.splits)

lemma map_fst_map_filter:
  "map fst (List.map_filter (\<lambda>k. map_option (Pair k) (f k)) ks) = filter (\<lambda>k. f k \<noteq> None) ks"
  by (induction ks) (auto simp: List.map_filter_simps split: option.splits)

lemma set_map_filter_pair:
  "set (List.map_filter (\<lambda>k. map_option (Pair k) (f k)) ks) = {(k, v). k \<in> set ks \<and> f k = Some v}"
  by (induction ks) (auto simp: List.map_filter_simps split: option.splits)

interpretation ref: kv_engine "ref_env X" for X
proof
  fix d :: ref_db and cf start
  let ?xs = "log_from d cf start"
  have "sorted_wrt (<) (sort (remdups (filter ((\<le>) start) (put_keys cf d))))"
    by (simp add: strict_sorted_iff)
  then have "sorted_wrt (<) (map fst ?xs)"
    by (simp add: log_from_def map_fst_map_filter sorted_wrt_filter)
  moreover have "set ?xs = {(k, v). log_view d cf k = Some v \<and> start \<le> k}"
    by (auto simp: log_from_def set_map_filter_pair dest: log_view_key)
  ultimately show "\<exists>xs. rk_from (ref_env X) d cf start = Inr xs \<and> sorted_wrt (<) (map fst xs) \<and>
      set xs = {(k, v). view (ref_env X) d cf k = Some v \<and> start \<le> k}"
    by simp
next
  fix d :: ref_db and ops
  show "\<exists>d'. rk_write (ref_env X) d ops = Inr d' \<and>
      view (ref_env X) d' = apply_batch ops (view (ref_env X) d)"
    by (simp add: log_view_def)
qed auto

end
