(* ===== verification/Core_Terms.thy ===== *)
theory Core_Terms
  imports Env
begin

text \<open>
  Term identity (\<open>polargraph-core/src/term.rs\<close>) and blank-node skolemization
  (\<open>polargraph-core/src/skolem.rs\<close>). The \<open>uuid\<close> crate's parser and formatter, xxHash3 and
  Rust's \<open>f64\<close> parser are fields of the environment.
\<close>


section \<open>IRIs and node identifiers\<close>

definition XSD :: string where
  "XSD = ''http://www.w3.org/2001/XMLSchema#''"

definition UUID_IRI_PREFIX :: string where
  "UUID_IRI_PREFIX = ''urn:uuid:''"

definition uuid_iri :: "'m ext_scheme \<Rightarrow> string \<Rightarrow> node_id option" where
  "uuid_iri X iri =
    (case strip_prefix UUID_IRI_PREFIX iri of None \<Rightarrow> None
     | Some rest \<Rightarrow> map_option NodeId (uuid_parse X rest))"

definition iri_to_node_id :: "'m ext_scheme \<Rightarrow> string \<Rightarrow> node_id" where
  "iri_to_node_id X iri =
    (case uuid_iri X iri of Some n \<Rightarrow> n | None \<Rightarrow> node_from_iri (xxh3_128 X) iri)"

definition needs_dictionary :: "'m ext_scheme \<Rightarrow> string \<Rightarrow> bool" where
  "needs_dictionary X iri \<longleftrightarrow> uuid_iri X iri = None"

definition fallback_iri :: "'m ext_scheme \<Rightarrow> node_id \<Rightarrow> string" where
  "fallback_iri X n = UUID_IRI_PREFIX @ uuid_fmt X (node_uuid n)"

definition edge_id_for :: "'m ext_scheme \<Rightarrow> string \<Rightarrow> string \<Rightarrow> string \<Rightarrow> edge_id" where
  "edge_id_for X subject predicate object =
    EdgeId (uuid_from_bytes (le_bytes 16 (xxh3_128 X
      (as_bytes subject @ [0] @ as_bytes predicate @ [0] @ as_bytes object))))"

text \<open>The documented law of the \<open>uuid\<close> crate: the hyphenated form parses back.\<close>

definition uuid_text_ok :: "'m ext_scheme \<Rightarrow> bool" where
  "uuid_text_ok X \<longleftrightarrow> (\<forall>u. uuid_parse X (uuid_fmt X u) = Some u)"

lemma fallback_iri_round_trip:
  assumes "uuid_text_ok X"
  shows "iri_to_node_id X (fallback_iri X n) = n \<and> \<not> needs_dictionary X (fallback_iri X n)"
  using assms
  by (cases n) (simp add: iri_to_node_id_def fallback_iri_def needs_dictionary_def uuid_iri_def
      uuid_text_ok_def)


section \<open>Literals\<close>

text \<open>
  \<open>str::parse::<i64>\<close>: an optional sign and at least one digit, \<open>None\<close> outside the range.
\<close>

definition digit_val :: "char \<Rightarrow> nat option" where
  "digit_val c = (if CHR ''0'' \<le> c \<and> c \<le> CHR ''9'' then Some (of_char c - 48) else None)"

fun digits_val :: "string \<Rightarrow> nat \<Rightarrow> nat option" where
  "digits_val [] acc = Some acc"
| "digits_val (c # cs) acc =
    (case digit_val c of None \<Rightarrow> None | Some d \<Rightarrow> digits_val cs (10 * acc + d))"

definition parse_i64 :: "string \<Rightarrow> u64 option" where
  "parse_i64 s =
    (let (neg, ds) = (case s of CHR ''-'' # ds \<Rightarrow> (True, ds) | CHR ''+'' # ds \<Rightarrow> (False, ds)
                      | _ \<Rightarrow> (False, s))
     in if ds = [] then None
        else case digits_val ds 0 of None \<Rightarrow> None
        | Some n \<Rightarrow>
            let i = (if neg then - int n else int n)
            in if - (2 ^ 63) \<le> i \<and> i < 2 ^ 63 then Some (word_of_int i) else None)"

definition xsd_integers :: "string list" where
  "xsd_integers = [''integer'', ''long'', ''int'', ''short'', ''byte'', ''nonNegativeInteger'',
    ''positiveInteger'']"

definition xsd_floats :: "string list" where
  "xsd_floats = [''double'', ''float'', ''decimal'']"

definition literal_to_value ::
  "'m ext_scheme \<Rightarrow> string \<Rightarrow> string option \<Rightarrow> string option \<Rightarrow> value" where
  "literal_to_value X lexical datatype lang =
    (case (case lang of Some l \<Rightarrow> if l = [] then None else Some l | None \<Rightarrow> None) of
       Some l \<Rightarrow> VLangText lexical l
     | None \<Rightarrow>
       (case datatype of
          None \<Rightarrow> VText lexical
        | Some dt \<Rightarrow>
            (let typed = VTyped lexical dt in
             case strip_prefix XSD dt of
               None \<Rightarrow> typed
             | Some t \<Rightarrow>
                 if t = ''string'' then VText lexical
                 else if t \<in> set xsd_integers then
                   (case parse_i64 lexical of Some i \<Rightarrow> VInt i | None \<Rightarrow> typed)
                 else if t \<in> set xsd_floats then
                   (case parse_f64 X lexical of Some f \<Rightarrow> VFloat f | None \<Rightarrow> typed)
                 else if t = ''boolean'' then
                   (if lexical = ''true'' \<or> lexical = ''1'' then VBool True
                    else if lexical = ''false'' \<or> lexical = ''0'' then VBool False
                    else typed)
                 else typed)))"


section \<open>Skolem IRIs\<close>

definition DEFAULT_SKOLEM_BASE :: string where
  "DEFAULT_SKOLEM_BASE = ''https://polargraph.invalid''"

definition GENID_SEGMENT :: string where
  "GENID_SEGMENT = ''/.well-known/genid/''"

record import_scope =
  is_base :: string
  is_import_id :: string

definition trim_end_slash :: "string \<Rightarrow> string" where
  "trim_end_slash s = rev (dropWhile (\<lambda>c. c = CHR ''/'') (rev s))"

definition import_scope_new :: "string \<Rightarrow> string \<Rightarrow> import_scope" where
  "import_scope_new b i = \<lparr>is_base = trim_end_slash b, is_import_id = i\<rparr>"

definition skolem_iri :: "import_scope \<Rightarrow> string \<Rightarrow> string" where
  "skolem_iri sc label = is_base sc @ GENID_SEGMENT @ is_import_id sc @ ''/'' @ label"

definition bnode_node_id :: "'m ext_scheme \<Rightarrow> import_scope \<Rightarrow> string \<Rightarrow> node_id" where
  "bnode_node_id X sc label = node_from_iri (xxh3_128 X) (skolem_iri sc label)"

definition is_skolem_iri :: "string \<Rightarrow> bool" where
  "is_skolem_iri iri \<longleftrightarrow> sublist GENID_SEGMENT iri"

definition parse_skolem_iri :: "string \<Rightarrow> (string \<times> string) option" where
  "parse_skolem_iri iri =
    (case split_once GENID_SEGMENT iri of None \<Rightarrow> None
     | Some (_, rest) \<Rightarrow>
       (case split_once ''/'' rest of None \<Rightarrow> None
        | Some (i, label) \<Rightarrow> if i \<noteq> [] \<and> label \<noteq> [] then Some (i, label) else None))"

definition is_ascii_alphanumeric :: "char \<Rightarrow> bool" where
  "is_ascii_alphanumeric c \<longleftrightarrow>
    CHR ''0'' \<le> c \<and> c \<le> CHR ''9'' \<or> CHR ''A'' \<le> c \<and> c \<le> CHR ''Z'' \<or>
    CHR ''a'' \<le> c \<and> c \<le> CHR ''z''"

text \<open>One \<open>_\<close> per replaced character: the continuation bytes of UTF-8 are not characters.\<close>

definition is_char_start :: "char \<Rightarrow> bool" where
  "is_char_start c \<longleftrightarrow> char_byte c AND 0xC0 \<noteq> 0x80"

definition deskolemized_label :: "string \<Rightarrow> string option" where
  "deskolemized_label iri =
    (case parse_skolem_iri iri of None \<Rightarrow> None
     | Some (i, label) \<Rightarrow>
         Some (map (\<lambda>c. if is_ascii_alphanumeric c \<or> c = CHR ''-'' then c else CHR ''_'')
                (filter is_char_start (i @ ''_'' @ label))))"

text \<open>\<open>split_once\<close> cuts at the first occurrence.\<close>

lemma split_once_first:
  assumes "\<And>i. i < length a \<Longrightarrow> \<not> prefix pat (drop i (a @ pat @ b))"
  shows "split_once pat (a @ pat @ b) = Some (a, b)"
  using assms
proof (induction a)
  case Nil
  show ?case by (subst split_once.simps) simp
next
  case (Cons c a)
  have "\<not> prefix pat ((c # a) @ pat @ b)" using Cons.prems [of 0] by simp
  moreover have "split_once pat (a @ pat @ b) = Some (a, b)"
  proof (rule Cons.IH)
    fix i assume "i < length a"
    then show "\<not> prefix pat (drop i (a @ pat @ b))" using Cons.prems [of "Suc i"] by simp
  qed
  ultimately show ?case by (subst split_once.simps) simp
qed

lemma split_once_char:
  "x \<notin> set a \<Longrightarrow> split_once [x] (a @ x # b) = Some (a, b)"
proof (induction a)
  case Nil
  show ?case by (subst split_once.simps) simp
next
  case (Cons c a)
  then show ?case by (subst split_once.simps) simp
qed

text \<open>
  No occurrence of the segment starts inside a base that does not contain the segment without its
  final slash: the segment overlaps itself only in that slash.
\<close>

lemma genid_border:
  assumes "prefix GENID_SEGMENT (d @ GENID_SEGMENT @ r)" and "d \<noteq> []"
  shows "prefix ''/.well-known/genid'' d"
proof (cases "length d \<ge> 18")
  case True
  have "prefix ''/.well-known/genid'' GENID_SEGMENT" by (simp add: GENID_SEGMENT_def)
  with assms(1) have "prefix ''/.well-known/genid'' (d @ GENID_SEGMENT @ r)"
    using prefix_order.trans by blast
  with True show ?thesis by (auto intro: prefix_length_prefix)
next
  case False
  define n where "n = length d"
  have cut: "drop n GENID_SEGMENT = take (19 - n) (GENID_SEGMENT @ r)"
  proof -
    from assms(1) obtain z where "d @ GENID_SEGMENT @ r = GENID_SEGMENT @ z"
      by (auto simp: prefix_def)
    then have "drop n (take 19 (d @ GENID_SEGMENT @ r)) = drop n (take 19 (GENID_SEGMENT @ z))"
      by simp
    then show ?thesis using False by (simp add: n_def drop_take GENID_SEGMENT_def)
  qed
  have len: "length GENID_SEGMENT = 19" by (simp add: GENID_SEGMENT_def)
  have "take (19 - n) (GENID_SEGMENT @ r) = take (19 - n) GENID_SEGMENT" by (simp add: len)
  with cut have border: "drop n GENID_SEGMENT = take (19 - n) GENID_SEGMENT" by simp
  have "1 \<le> n" "n < 18" using False assms(2) by (cases d; simp add: n_def)+
  have no_border: "\<forall>k\<in>set [1..<18]. drop k GENID_SEGMENT \<noteq> take (19 - k) GENID_SEGMENT"
    by code_simp
  have "n \<in> set [1..<18]" using \<open>1 \<le> n\<close> \<open>n < 18\<close> by simp
  with bspec [OF no_border this] border show ?thesis by simp
qed

lemma parse_skolem_iri_round_trip:
  assumes "\<not> sublist ''/.well-known/genid'' (is_base sc)"
    and "is_import_id sc \<noteq> []" and "CHR ''/'' \<notin> set (is_import_id sc)" and "label \<noteq> []"
  shows "parse_skolem_iri (skolem_iri sc label) = Some (is_import_id sc, label)"
proof -
  let ?rest = "is_import_id sc @ ''/'' @ label"
  have "split_once GENID_SEGMENT (is_base sc @ GENID_SEGMENT @ ?rest) = Some (is_base sc, ?rest)"
  proof (rule split_once_first, rule notI)
    fix i assume i: "i < length (is_base sc)"
      and "prefix GENID_SEGMENT (drop i (is_base sc @ GENID_SEGMENT @ ?rest))"
    then have "prefix GENID_SEGMENT (drop i (is_base sc) @ GENID_SEGMENT @ ?rest)" by simp
    then have "prefix ''/.well-known/genid'' (drop i (is_base sc))"
      by (rule genid_border) (use i in simp)
    then have "sublist ''/.well-known/genid'' (is_base sc)"
      by (meson prefix_imp_sublist sublist_drop sublist_order.order_trans)
    with assms(1) show False by simp
  qed
  then show ?thesis
    using assms(2-4) split_once_char [of "CHR ''/''" "is_import_id sc" label]
    by (simp add: parse_skolem_iri_def skolem_iri_def)
qed

lemma trim_end_slash_idem: "trim_end_slash (b @ replicate n (CHR ''/'')) = trim_end_slash b"
proof -
  have "dropWhile (\<lambda>c. c = CHR ''/'') (replicate n (CHR ''/'') @ cs)
      = dropWhile (\<lambda>c. c = CHR ''/'') cs" for cs
    by (induction n) auto
  then show ?thesis by (simp add: trim_end_slash_def)
qed

end
