(* ===== verification/Vocab.thy ===== *)
theory Vocab
  imports Core_Terms
begin

text \<open>
  The vocabulary (\<open>polargraph-storage/src/vocab.rs\<close>, the pure part): a base IRI for bare names and
  a prefix map, how a name is stored, expanded and compacted, and what may be declared. Strings
  are the bytes of their UTF-8 form; a \<open>BTreeMap\<close> is its list of entries in key order.
\<close>


section \<open>Sorted maps\<close>

fun bt_insert :: "'k::linorder \<Rightarrow> 'v \<Rightarrow> ('k \<times> 'v) list \<Rightarrow> ('k \<times> 'v) list" where
  "bt_insert k v [] = [(k, v)]"
| "bt_insert k v ((k', v') # m) =
    (if k < k' then (k, v) # (k', v') # m
     else if k = k' then (k, v) # m
     else (k', v') # bt_insert k v m)"

lemma bt_insert_keys: "set (map fst (bt_insert k v m)) = insert k (set (map fst m))"
  by (induction k v m rule: bt_insert.induct) auto

lemma bt_insert_sorted: "sorted_wrt (<) (map fst m) \<Longrightarrow> sorted_wrt (<) (map fst (bt_insert k v m))"
proof (induction k v m rule: bt_insert.induct)
  case (2 k v k' v' m)
  have "\<forall>x\<in>set (bt_insert k v m). fst x = k \<or> x \<in> set m"
    by (induction k v m rule: bt_insert.induct) auto
  with 2 show ?case by fastforce
qed simp

lemma bt_insert_get: "map_of (bt_insert k v m) k' = (if k' = k then Some v else map_of m k')"
  by (induction k v m rule: bt_insert.induct) auto


section \<open>The vocabulary\<close>

definition DEFAULT_VOCAB_BASE :: string where
  "DEFAULT_VOCAB_BASE = ''urn:pg:vocab:''"

definition VOCAB_NODE :: string where
  "VOCAB_NODE = ''urn:pg:vocab''"

definition VOCAB_BASE_PRED :: string where
  "VOCAB_BASE_PRED = ''urn:pg:vocabBase''"

definition VOCAB_PREFIX_PRED :: string where
  "VOCAB_PREFIX_PRED = ''urn:pg:prefix:''"

definition BUILTIN_PREDICATES :: "string list" where
  "BUILTIN_PREDICATES = [''MEMBER_OF'', ''HAS_ACCESS'', ''HAS_ACCESS_TYPE'', ''HAS_GRAPH_ACCESS'',
    ''GRAPH_ACCESS_LEVEL'']"

record vocabulary =
  voc_base :: string
  voc_prefixes :: "(string \<times> string) list"

definition vocabulary_default :: vocabulary where
  "vocabulary_default = \<lparr>voc_base = DEFAULT_VOCAB_BASE, voc_prefixes = []\<rparr>"

definition is_internal :: "string \<Rightarrow> bool" where
  "is_internal name \<longleftrightarrow> prefix ''__'' name \<or> name \<in> set BUILTIN_PREDICATES"

definition is_bare :: "string \<Rightarrow> bool" where
  "is_bare name \<longleftrightarrow> name \<noteq> [] \<and> CHR '':'' \<notin> set name \<and> \<not> is_internal name"

definition canonical_predicate :: "vocabulary \<Rightarrow> string \<Rightarrow> string" where
  "canonical_predicate V name = (if is_bare name then voc_base V @ name else name)"

definition expand :: "vocabulary \<Rightarrow> string \<Rightarrow> string" where
  "expand V name =
    (if is_bare name then voc_base V @ name
     else case split_once '':'' name of None \<Rightarrow> name
     | Some (pfx, local) \<Rightarrow>
         (case map_of (voc_prefixes V) pfx of None \<Rightarrow> name
          | Some ns \<Rightarrow> if \<not> prefix ''//'' local then ns @ local else name))"

text \<open>\<open>Iterator::max_by_key\<close> keeps the last of several maximal elements.\<close>

definition max_by_key :: "('a \<Rightarrow> nat) \<Rightarrow> 'a list \<Rightarrow> 'a option" where
  "max_by_key f xs =
    fold (\<lambda>x best. case best of None \<Rightarrow> Some x | Some b \<Rightarrow> if f b \<le> f x then Some x else Some b)
      xs None"

definition compact_prefixed :: "vocabulary \<Rightarrow> string \<Rightarrow> string" where
  "compact_prefixed V iri =
    (case max_by_key (\<lambda>(_, ns). length ns)
       (filter (\<lambda>(_, ns). prefix ns iri \<and> length iri > length ns) (voc_prefixes V)) of
       Some (pfx, ns) \<Rightarrow> pfx @ '':'' @ drop (length ns) iri
     | None \<Rightarrow> iri)"

definition compact :: "vocabulary \<Rightarrow> string \<Rightarrow> string" where
  "compact V iri =
    (case strip_prefix (voc_base V) iri of
       Some local \<Rightarrow>
         if local \<noteq> [] \<and> CHR '':'' \<notin> set local \<and> CHR ''/'' \<notin> set local then local
         else compact_prefixed V iri
     | None \<Rightarrow> compact_prefixed V iri)"


section \<open>What may be declared\<close>

text \<open>The UTF-8 forms of the characters \<open>char::is_whitespace\<close> holds of.\<close>

definition whitespace_forms :: "bytes list" where
  "whitespace_forms =
    [[0x09], [0x0A], [0x0B], [0x0C], [0x0D], [0x20], [0xC2, 0x85], [0xC2, 0xA0], [0xE1, 0x9A, 0x80]]
    @ map (\<lambda>b. [0xE2, 0x80, b]) [0x80, 0x81, 0x82, 0x83, 0x84, 0x85, 0x86, 0x87, 0x88, 0x89, 0x8A,
        0xA8, 0xA9, 0xAF]
    @ [[0xE2, 0x81, 0x9F], [0xE3, 0x80, 0x80]]"

definition contains_whitespace :: "string \<Rightarrow> bool" where
  "contains_whitespace s \<longleftrightarrow> (\<exists>w\<in>set whitespace_forms. sublist w (as_bytes s))"

definition validate_iri :: "string \<Rightarrow> string \<Rightarrow> unit res" where
  "validate_iri what iri =
    (if iri = [] \<or> CHR '':'' \<notin> set iri \<or> contains_whitespace iri
     then Inl (ValidationError (what @ '' must be an absolute IRI, got '' @ iri))
     else Inr ())"

definition ascii_alphabetic :: "char \<Rightarrow> bool" where
  "ascii_alphabetic c \<longleftrightarrow>
    CHR ''A'' \<le> c \<and> c \<le> CHR ''Z'' \<or> CHR ''a'' \<le> c \<and> c \<le> CHR ''z''"

definition prefix_name_ok :: "string \<Rightarrow> bool" where
  "prefix_name_ok name \<longleftrightarrow>
    (case name of [] \<Rightarrow> False
     | c # cs \<Rightarrow> ascii_alphabetic c \<and>
         list_all (\<lambda>c. is_ascii_alphanumeric c \<or> c = CHR ''_'' \<or> c = CHR ''-'') cs)"

definition uri_schemes :: "string list" where
  "uri_schemes = [''http'', ''https'', ''urn'', ''file'', ''mailto'', ''tag'']"

definition validate_prefix :: "string \<Rightarrow> unit res" where
  "validate_prefix name =
    (if \<not> prefix_name_ok name
     then Inl (ValidationError
       (''prefix names start with a letter and use letters, digits, _ or -: '' @ name))
     else if name \<in> set uri_schemes
     then Inl (ValidationError (name @ '' is a URI scheme, not a usable prefix name''))
     else Inr ())"

text \<open>What the validations keep true of a vocabulary.\<close>

definition vocabulary_ok :: "vocabulary \<Rightarrow> bool" where
  "vocabulary_ok V \<longleftrightarrow>
    validate_iri ''vocabulary base'' (voc_base V) = Inr () \<and>
    sorted_wrt (<) (map fst (voc_prefixes V)) \<and>
    (\<forall>(p, ns)\<in>set (voc_prefixes V).
       validate_prefix p = Inr () \<and> validate_iri ''prefix namespace'' ns = Inr ())"


section \<open>Round trips\<close>

lemma prefix_name_no_colon: "validate_prefix p = Inr () \<Longrightarrow> CHR '':'' \<notin> set p"
  by (cases p) (auto simp: validate_prefix_def prefix_name_ok_def is_ascii_alphanumeric_def
      ascii_alphabetic_def list_all_iff split: if_splits)

lemma base_has_colon: "vocabulary_ok V \<Longrightarrow> CHR '':'' \<in> set (voc_base V)"
  by (auto simp: vocabulary_ok_def validate_iri_def split: if_splits)

lemma max_by_key_in: "max_by_key f xs = Some x \<Longrightarrow> x \<in> set xs"
proof (induction xs arbitrary: x rule: rev_induct)
  case (snoc y xs)
  then show ?case by (auto simp: max_by_key_def split: option.splits if_splits)
qed (simp add: max_by_key_def)

lemma vocabulary_prefix:
  assumes "vocabulary_ok V" and "(p, ns) \<in> set (voc_prefixes V)"
  shows "map_of (voc_prefixes V) p = Some ns" and "CHR '':'' \<notin> set p"
proof -
  have "distinct (map fst (voc_prefixes V))"
    using assms(1) strict_sorted_iff by (auto simp: vocabulary_ok_def)
  then show "map_of (voc_prefixes V) p = Some ns" using assms(2) by simp
  show "CHR '':'' \<notin> set p"
    using assms by (intro prefix_name_no_colon) (auto simp: vocabulary_ok_def)
qed

text \<open>A prefixed compaction expands back to the IRI it came from.\<close>

lemma expand_compact_prefixed:
  assumes "vocabulary_ok V" and "compact_prefixed V iri \<noteq> iri"
    and "\<And>p ns. (p, ns) \<in> set (voc_prefixes V) \<Longrightarrow> \<not> prefix (ns @ ''//'') iri"
  shows "expand V (compact_prefixed V iri) = iri"
proof -
  from assms(2) obtain p ns where
    m: "max_by_key (\<lambda>(_, ns). length ns)
      (filter (\<lambda>(_, ns). prefix ns iri \<and> length iri > length ns) (voc_prefixes V)) = Some (p, ns)"
    by (auto simp: compact_prefixed_def split: option.splits)
  have inv: "(p, ns) \<in> set (voc_prefixes V)" "prefix ns iri"
    using max_by_key_in [OF m] by auto
  note pv = vocabulary_prefix [OF assms(1) inv(1)]
  from inv(2) obtain l where l: "iri = ns @ l" by (auto simp: prefix_def)
  have c: "compact_prefixed V iri = p @ CHR '':'' # l"
    using m by (simp add: compact_prefixed_def l)
  have "\<not> prefix ''//'' l" using assms(3) [OF inv(1)] by (simp add: l)
  moreover have "\<not> is_bare (p @ CHR '':'' # l)" by (simp add: is_bare_def)
  ultimately show ?thesis 
    unfolding c by (simp add: l expand_def split_once_char [OF pv(2)] pv(1))
qed

text \<open>
  Compacting loses nothing: expanding the short form gives the IRI back, unless the local name
  under the base is an internal one, the IRI's scheme is a declared prefix, or what follows the
  namespace starts with two slashes.
\<close>

lemma expand_compact:
  assumes "vocabulary_ok V" and "iri = scheme @ '':'' @ rest" and "CHR '':'' \<notin> set scheme"
    and "map_of (voc_prefixes V) scheme = None"
    and "\<And>p ns. (p, ns) \<in> set (voc_prefixes V) \<Longrightarrow> \<not> prefix (ns @ ''//'') iri"
    and "\<And>local. iri = voc_base V @ local \<Longrightarrow> \<not> is_internal local"
  shows "expand V (compact V iri) = iri"
proof (cases "compact V iri = compact_prefixed V iri")
  case True
  have id: "expand V iri = iri"
    using assms(2-4) by (simp add: expand_def is_bare_def split_once_char)
  show ?thesis
  proof (cases "compact_prefixed V iri = iri")
    case same: True
    with id True show ?thesis by simp
  next
    case False
    show ?thesis unfolding True by (rule expand_compact_prefixed [OF assms(1) False assms(5)])
  qed
next
  case False
  then obtain local where "iri = voc_base V @ local" "local \<noteq> []" "CHR '':'' \<notin> set local"
    "compact V iri = local"
    by (auto simp: compact_def strip_prefix_Some split: option.splits if_splits)
  with assms(6) show ?thesis by (simp add: expand_def is_bare_def)
qed

lemma canonical_idem:
  "vocabulary_ok V \<Longrightarrow> canonical_predicate V (canonical_predicate V n) = canonical_predicate V n"
  using base_has_colon [of V] by (auto simp: canonical_predicate_def is_bare_def)

end
