(* ===== verification/Codec.thy ===== *)
theory Codec
  imports Env
begin

text \<open>
  The binary codec of index values (\<open>polargraph-storage/src/codec.rs\<close>): relation, inline property,
  vector and out-of-line property encodings, the valid-time header read without a full decode,
  the closing copy of a value, and the payloads of the \<open>blob\<close> family. JSON is the parameter
  \<open>json_to_vec\<close> / \<open>json_from_slice\<close> of the environment.
\<close>

definition DISC_RELATION :: byte where "DISC_RELATION = 0x01"
definition DISC_PROPERTY :: byte where "DISC_PROPERTY = 0x02"
definition DISC_VECTOR :: byte where "DISC_VECTOR = 0x03"
definition DISC_PROPERTY_REF :: byte where "DISC_PROPERTY_REF = 0x04"

lemmas disc_defs = DISC_RELATION_def DISC_PROPERTY_def DISC_VECTOR_def DISC_PROPERTY_REF_def

definition vt_offsets :: "byte \<Rightarrow> (nat \<times> nat \<times> nat) option" where
  "vt_offsets disc =
    (if disc = DISC_RELATION then Some (17, 25, 33)
     else if disc = DISC_PROPERTY \<or> disc = DISC_VECTOR \<or> disc = DISC_PROPERTY_REF
     then Some (1, 9, 17) else None)"

definition valid_time :: "bytes \<Rightarrow> (timestamp \<times> timestamp) option" where
  "valid_time bs = (case bs of [] \<Rightarrow> None | d # _ \<Rightarrow>
    (case vt_offsets d of None \<Rightarrow> None | Some (s, e, mn) \<Rightarrow>
       if length bs < mn then None
       else Some (ts_from_bytes (bslice s (s + 8) bs), ts_from_bytes (bslice e (e + 8) bs))))"

definition with_vt_end :: "bytes \<Rightarrow> timestamp \<Rightarrow> bytes res" where
  "with_vt_end bs new_end =
    (case (case bs of [] \<Rightarrow> None | d # _ \<Rightarrow> vt_offsets d) of
       None \<Rightarrow> Inl (KeyDecode ''unknown value discriminant'')
     | Some (_, e, mn) \<Rightarrow>
         if length bs < mn then Inl (KeyDecode ''value too short'')
         else Inr (take e bs @ ts_bytes new_end @ drop (e + 8) bs))"

definition encode_property_ref :: "bitemporal_range \<Rightarrow> bytes" where
  "encode_property_ref t = DISC_PROPERTY_REF # ts_bytes (vt_start t) @ ts_bytes (vt_end t)"

definition encode_relation :: "edge_id \<Rightarrow> bitemporal_range \<Rightarrow> bytes" where
  "encode_relation e t =
    DISC_RELATION # edge_bytes e @ ts_bytes (vt_start t) @ ts_bytes (vt_end t)"

definition encode_property :: "'m ext_scheme \<Rightarrow> value \<Rightarrow> bitemporal_range \<Rightarrow> bytes res" where
  "encode_property X v t =
    (case v of
       VVector floats \<Rightarrow>
         Inr (DISC_VECTOR # ts_bytes (vt_start t) @ ts_bytes (vt_end t)
              @ le_bytes 4 (word_of_nat (length floats) :: u32) @ concat (map (le_bytes 4) floats))
     | _ \<Rightarrow> rbind (from_serde (json_to_vec X v)) (\<lambda>json.
         Inr (DISC_PROPERTY # ts_bytes (vt_start t) @ ts_bytes (vt_end t) @ json)))"

definition zero_range :: bitemporal_range where
  "zero_range = \<lparr>vt_start = Timestamp 0, vt_end = Timestamp 0, tt = Timestamp 0\<rparr>"

definition encode_blob :: "'m ext_scheme \<Rightarrow> value \<Rightarrow> bytes res" where
  "encode_blob X v = rbind (encode_property X v zero_range) (\<lambda>full.
     Inr (hd full # drop 17 full))"

datatype decoded_value =
    DecodedRelation edge_id bitemporal_range
  | DecodedProperty "value" bitemporal_range
  | DecodedPropertyRef bitemporal_range

fun read_f32s :: "nat \<Rightarrow> nat \<Rightarrow> bytes \<Rightarrow> u32 list" where
  "read_f32s 0 off bs = []"
| "read_f32s (Suc n) off bs = from_le (bslice off (off + 4) bs) # read_f32s n (off + 4) bs"

definition hex_digit :: "nat \<Rightarrow> char" where
  "hex_digit n = (if n < 10 then char_of (48 + n) else char_of (87 + n))"

definition hex_byte :: "byte \<Rightarrow> string" where
  "hex_byte b = [hex_digit (unat b div 16), hex_digit (unat b mod 16)]"

definition vt_range :: "timestamp \<Rightarrow> timestamp \<Rightarrow> bitemporal_range" where
  "vt_range s e = \<lparr>vt_start = s, vt_end = e, tt = Timestamp 0\<rparr>"

definition decode_value :: "'m ext_scheme \<Rightarrow> bytes \<Rightarrow> decoded_value res" where
  "decode_value X bs = (case bs of [] \<Rightarrow> Inl (KeyDecode ''empty value bytes'') | d # _ \<Rightarrow>
    if d = DISC_RELATION then
      (if length bs < 33 then Inl (KeyDecode ''relation value too short'')
       else Inr (DecodedRelation (EdgeId (uuid_from_bytes (bslice 1 17 bs)))
              (vt_range (ts_from_bytes (bslice 17 25 bs)) (ts_from_bytes (bslice 25 33 bs)))))
    else if d = DISC_PROPERTY then
      (if length bs < 17 then Inl (KeyDecode ''property value too short'')
       else rbind (from_serde (json_from_slice X (drop 17 bs))) (\<lambda>v.
         Inr (DecodedProperty v
              (vt_range (ts_from_bytes (bslice 1 9 bs)) (ts_from_bytes (bslice 9 17 bs))))))
    else if d = DISC_VECTOR then
      (if length bs < 21 then Inl (KeyDecode ''vector value too short'')
       else let len = unat (from_le (bslice 17 21 bs) :: u32) in
         if length bs < 21 + len * 4 then Inl (KeyDecode ''vector value truncated'')
         else Inr (DecodedProperty (VVector (read_f32s len 21 bs))
              (vt_range (ts_from_bytes (bslice 1 9 bs)) (ts_from_bytes (bslice 9 17 bs)))))
    else if d = DISC_PROPERTY_REF then
      rbind (ok_or (valid_time bs) (KeyDecode ''property ref too short'')) (\<lambda>(s, e).
        Inr (DecodedPropertyRef (vt_range s e)))
    else Inl (KeyDecode (''unknown discriminant 0x'' @ hex_byte d)))"

definition decode_blob :: "'m ext_scheme \<Rightarrow> bytes \<Rightarrow> value res" where
  "decode_blob X bs = (case bs of [] \<Rightarrow> Inl (KeyDecode ''empty blob'') | disc # rest \<Rightarrow>
    rbind (decode_value X (disc # replicate 16 0 @ rest)) (\<lambda>dv.
      case dv of DecodedProperty v _ \<Rightarrow> Inr v
      | _ \<Rightarrow> Inl (KeyDecode (''blob has non-property discriminant 0x'' @ hex_byte disc))))"


section \<open>Round trips\<close>

text \<open>Which values the codec can carry: vectors of fewer than \<open>2\<^sup>3\<^sup>2\<close> floats, JSON for the rest.\<close>

definition codec_ok :: "'m ext_scheme \<Rightarrow> value \<Rightarrow> bool" where
  "codec_ok X v = (case v of VVector fs \<Rightarrow> length fs < 2 ^ 32 | _ \<Rightarrow> json_faithful X v)"

lemma bslice_Cons_Suc [simp]: "bslice (Suc a) b (x # xs) = bslice a (b - 1) xs"
  by (simp add: bslice_def)

lemma bslice_numeral_Cons [simp]:
  "bslice (numeral n) b (x # xs) = bslice (pred_numeral n) (b - 1) xs"
  by (simp add: bslice_def numeral_eq_Suc)

lemma bslice_1_Cons [simp]: "bslice 1 b (x # xs) = bslice 0 (b - 1) xs"
  by (simp add: bslice_def)

lemma read_f32s_encoded:
  "length pre = off \<Longrightarrow> read_f32s (length fs) off (pre @ concat (map (le_bytes 4) fs)) = fs"
proof (induction fs arbitrary: pre off)
  case Nil
  show ?case by simp
next
  case (Cons f fs)
  have "bslice off (off + 4) (pre @ le_bytes 4 f @ concat (map (le_bytes 4) fs)) = le_bytes 4 f"
    using Cons.prems by simp
  moreover have "read_f32s (length fs) (off + 4)
      ((pre @ le_bytes 4 f) @ concat (map (le_bytes 4) fs)) = fs"
    by (rule Cons.IH) (simp add: Cons.prems)
  ultimately show ?case by simp
qed

lemma length_concat_le_bytes [simp]: "length (concat (map (le_bytes 4) fs)) = 4 * length fs"
  by (induction fs) auto

lemma vt_range_of [simp]: "vt_range (vt_start t) (vt_end t) = t\<lparr>tt := Timestamp 0\<rparr>"
  by (cases t) (simp add: vt_range_def)

lemma decode_encode_relation [simp]:
  "decode_value X (encode_relation e t) = Inr (DecodedRelation e (t\<lparr>tt := Timestamp 0\<rparr>))"
  by (cases e) (simp add: decode_value_def encode_relation_def disc_defs bslice_skip
      bslice_head bslice_all)

lemma valid_time_encode_relation [simp]:
  "valid_time (encode_relation e t) = Some (vt_start t, vt_end t)"
  by (simp add: valid_time_def encode_relation_def vt_offsets_def bslice_skip bslice_head bslice_all)

lemma valid_time_encode_property_ref [simp]:
  "valid_time (encode_property_ref t) = Some (vt_start t, vt_end t)"
  by (simp add: valid_time_def encode_property_ref_def vt_offsets_def disc_defs bslice_skip
      bslice_head bslice_all)

lemma decode_encode_property_ref [simp]:
  "decode_value X (encode_property_ref t) = Inr (DecodedPropertyRef (t\<lparr>tt := Timestamp 0\<rparr>))"
  using valid_time_encode_property_ref [of t]
  by (simp add: decode_value_def encode_property_ref_def disc_defs)

lemma encode_property_cases:
  assumes "encode_property X v t = Inr bs"
  obtains payload disc where
    "bs = disc # ts_bytes (vt_start t) @ ts_bytes (vt_end t) @ payload"
    and "disc = DISC_PROPERTY \<or> disc = DISC_VECTOR"
    and "\<And>t'. encode_property X v t' =
      Inr (disc # ts_bytes (vt_start t') @ ts_bytes (vt_end t') @ payload)"
proof (cases "\<exists>fs. v = VVector fs")
  case True
  then obtain fs where v: "v = VVector fs" by blast
  show ?thesis
    by (rule that [of DISC_VECTOR
          "le_bytes 4 (word_of_nat (length fs) :: u32) @ concat (map (le_bytes 4) fs)"])
      (use assms in \<open>simp_all add: v encode_property_def\<close>)
next
  case False
  then have enc: "encode_property X v t' = rbind (from_serde (json_to_vec X v)) (\<lambda>json.
      Inr (DISC_PROPERTY # ts_bytes (vt_start t') @ ts_bytes (vt_end t') @ json))" for t'
    by (auto simp: encode_property_def split: "value.splits")
  with assms obtain json where json: "from_serde (json_to_vec X v) = Inr json"
    by (auto simp del: from_serde_simps)
  show ?thesis
    by (rule that [of DISC_PROPERTY json]) (use assms json in \<open>simp_all add: enc\<close>)
qed

lemma valid_time_encode_property:
  "encode_property X v t = Inr bs \<Longrightarrow> valid_time bs = Some (vt_start t, vt_end t)"
  by (erule encode_property_cases)
    (auto simp: valid_time_def vt_offsets_def disc_defs bslice_skip bslice_head bslice_all)

lemma encode_property_total: "codec_ok X v \<Longrightarrow> \<exists>bs. encode_property X v t = Inr bs"
  by (auto simp: encode_property_def codec_ok_def json_faithful_def split: "value.splits")

lemma decode_encode_property:
  assumes ok: "codec_ok X v" and enc: "encode_property X v t = Inr bs"
  shows "decode_value X bs = Inr (DecodedProperty v (t\<lparr>tt := Timestamp 0\<rparr>))"
proof (cases "\<exists>fs. v = VVector fs")
  case True
  then obtain fs where v: "v = VVector fs" by blast
  with ok have "unat (word_of_nat (length fs) :: u32) = length fs"
    by (simp add: codec_ok_def unat_of_nat)
  moreover have "read_f32s (length fs) 21
      ((DISC_VECTOR # ts_bytes (vt_start t) @ ts_bytes (vt_end t)
        @ le_bytes 4 (word_of_nat (length fs) :: u32)) @ concat (map (le_bytes 4) fs)) = fs"
    by (rule read_f32s_encoded) simp
  ultimately show ?thesis
    using enc by (auto simp: v encode_property_def decode_value_def disc_defs
        bslice_skip bslice_head bslice_all Let_def)
next
  case False
  then have "json_faithful X v" using ok by (auto simp: codec_ok_def split: "value.splits")
  moreover from False have "encode_property X v t =
      rbind (from_serde (json_to_vec X v)) (\<lambda>json.
        Inr (DISC_PROPERTY # ts_bytes (vt_start t) @ ts_bytes (vt_end t) @ json))"
    by (auto simp: encode_property_def split: "value.splits")
  ultimately show ?thesis
    using enc by (auto simp: json_faithful_def decode_value_def disc_defs
        bslice_skip bslice_head bslice_all)
qed

lemma decode_encode_blob:
  assumes ok: "codec_ok X v" and enc: "encode_blob X v = Inr blob"
  shows "decode_blob X blob = Inr v"
proof -
  from enc obtain full where full: "encode_property X v zero_range = Inr full"
    and blob: "blob = hd full # drop 17 full"
    by (auto simp: encode_blob_def)
  from full obtain payload disc where
    "full = disc # ts_bytes (Timestamp 0) @ ts_bytes (Timestamp 0) @ payload"
    by (elim encode_property_cases) (auto simp: zero_range_def)
  moreover have "replicate 16 (0 :: byte) = ts_bytes (Timestamp 0) @ ts_bytes (Timestamp 0)"
    by (simp add: ts_bytes_def be_bytes_zero flip: replicate_add)
  ultimately have "disc # replicate 16 0 @ payload = full" and "blob = disc # payload"
    using blob by simp_all
  then show ?thesis
    using decode_encode_property [OF ok full] by (simp add: decode_blob_def)
qed


section \<open>Closing a value\<close>

lemma vt_offsets_Some:
  "vt_offsets d = Some (s, e, mn) \<longleftrightarrow>
   d = DISC_RELATION \<and> s = 17 \<and> e = 25 \<and> mn = 33 \<or>
   d \<in> {DISC_PROPERTY, DISC_VECTOR, DISC_PROPERTY_REF} \<and> s = 1 \<and> e = 9 \<and> mn = 17"
  by (auto simp: vt_offsets_def disc_defs)

lemma with_vt_end_iff:
  "(\<exists>out. with_vt_end bs new_end = Inr out) \<longleftrightarrow> valid_time bs \<noteq> None"
  by (auto simp: with_vt_end_def valid_time_def split: list.splits option.splits if_splits)

lemma bslice_update:
  assumes "e + 8 \<le> length bs" and "length w = 8"
  shows "bslice e (e + 8) (take e bs @ w @ drop (e + 8) bs) = w"
    and "s + 8 \<le> e \<Longrightarrow> bslice s (s + 8) (take e bs @ w @ drop (e + 8) bs) = bslice s (s + 8) bs"
  using assms by (simp_all add: bslice_def drop_take)

text \<open>A closed copy has the new end, the old start, the old length and all other bytes.\<close>

lemma with_vt_end_correct:
  assumes "with_vt_end bs new_end = Inr out"
  shows "\<exists>s e. valid_time bs = Some (s, e) \<and> valid_time out = Some (s, new_end)"
    and "length out = length bs" and "hd out = hd bs" and "out \<noteq> []"
proof -
  from assms obtain d rest s e mn where bs: "bs = d # rest"
      and off: "vt_offsets d = Some (s, e, mn)" and len: "mn \<le> length bs"
      and out: "out = take e bs @ ts_bytes new_end @ drop (e + 8) bs"
    by (auto simp: with_vt_end_def split: list.splits option.splits if_splits)
  from off have se: "s + 8 \<le> e" "e + 8 = mn" "0 < e" by (auto simp: vt_offsets_Some)
  with len have e8: "e + 8 \<le> length bs" by simp
  from out bs se obtain rest' where hd_out: "out = d # rest'" by (cases e) auto
  have out_len: "length out = length bs" using out e8 by simp
  have vt: "valid_time xs =
      Some (ts_from_bytes (bslice s (s + 8) xs), ts_from_bytes (bslice e (e + 8) xs))"
    if "xs = d # ys" and "mn \<le> length xs" for xs ys
    using that off by (simp add: valid_time_def)
  have "bslice e (e + 8) out = ts_bytes new_end" "bslice s (s + 8) out = bslice s (s + 8) bs"
    using bslice_update [OF e8 length_ts_bytes] se(1) by (simp_all add: out)
  with vt [OF bs len] vt [OF hd_out] out_len len
  show "\<exists>s e. valid_time bs = Some (s, e) \<and> valid_time out = Some (s, new_end)"
    by simp
  show "length out = length bs" by (rule out_len)
  show "hd out = hd bs" "out \<noteq> []" using hd_out bs by simp_all
qed

lemma with_vt_end_encode_property:
  assumes "encode_property X v t = Inr bs"
  shows "with_vt_end bs new_end = encode_property X v (t\<lparr>vt_end := new_end\<rparr>)"
  using assms
  by (elim encode_property_cases)
    (auto simp: with_vt_end_def vt_offsets_def disc_defs)

lemma with_vt_end_encode_property_ref:
  "with_vt_end (encode_property_ref t) new_end
   = Inr (encode_property_ref (t\<lparr>vt_end := new_end\<rparr>))"
  by (simp add: with_vt_end_def encode_property_ref_def vt_offsets_def disc_defs)

lemma with_vt_end_encode_relation:
  "with_vt_end (encode_relation e t) new_end
   = Inr (encode_relation e (t\<lparr>vt_end := new_end\<rparr>))"
  by (simp add: with_vt_end_def encode_relation_def vt_offsets_def)

end
