(* ===== verification/Keys.thy ===== *)
theory Keys
  imports Core_Types
begin

text \<open>
  Index keys of storage format v3 (\<open>polargraph-storage/src/keys.rs\<close>): the eight quad orders with
  their encoders, decoders and scan prefixes, the trigram and edge-annotation keys, and the v2
  layouts the migration reads. The contract of a fixed-width key codec is the locale
  \<open>key_codec\<close>, that of a key whose last eight bytes are its transaction time the locale
  \<open>versioned_key\<close>; both are interpreted for every layout.
\<close>

type_synonym pred_id = u32


section \<open>Codec contracts\<close>

locale key_codec =
  fixes enc :: "'k \<Rightarrow> bytes" and dec :: "bytes \<Rightarrow> 'k res" and width :: nat
  assumes dec_enc: "dec (enc k) = Inr k"
    and enc_length: "length (enc k) = width"
    and dec_short: "length b \<noteq> width \<Longrightarrow> \<exists>m. dec b = Inl (KeyDecode m)"
    and enc_dec: "length b = width \<Longrightarrow> \<exists>k. dec b = Inr k \<and> enc k = b"
begin

lemma dec_iff: "dec b = Inr k \<longleftrightarrow> b = enc k"
  using dec_enc dec_short enc_dec by (metis Inr_inject sum.distinct(2))

lemma enc_inject: "enc j = enc k \<longleftrightarrow> j = k"
  using dec_enc by (metis Inr_inject)

lemma dec_total: "(\<exists>k. dec b = Inr k) \<longleftrightarrow> length b = width"
  using dec_short enc_dec by (metis sum.distinct(2))

end

locale versioned_key = key_codec +
  fixes tuple :: "'k \<Rightarrow> bytes" and version :: "'k \<Rightarrow> timestamp"
  assumes enc_tuple: "enc k = tuple k @ ts_bytes (version k)"
begin

lemma same_tuple_order:
  assumes "tuple j = tuple k" and "Timestamp 0 \<le> version j" and "Timestamp 0 \<le> version k"
  shows "enc j < enc k \<longleftrightarrow> version j < version k"
  using assms by (simp add: enc_tuple append_less_iff ts_bytes_less_iff)

lemma tuple_length: "length (tuple k) = width - 8"
  using enc_length [of k] by (simp add: enc_tuple)

lemma take_tuple: "take (width - 8) (enc k) = tuple k"
  using tuple_length [of k] by (simp add: enc_tuple)

lemma tuple_version_inject: "tuple j = tuple k \<Longrightarrow> version j = version k \<Longrightarrow> j = k"
  using enc_inject [of j k] by (simp add: enc_tuple)

end


section \<open>Quad keys\<close>

definition QUAD_KEY_LEN :: nat where
  "QUAD_KEY_LEN = 48"

definition QUAD_TUPLE_LEN :: nat where
  "QUAD_TUPLE_LEN = QUAD_KEY_LEN - 8"

definition GRAPH_OFFSET_NON_LEADING :: nat where
  "GRAPH_OFFSET_NON_LEADING = 36"

record quad_key =
  qk_s :: node_id
  qk_p :: pred_id
  qk_o :: node_id
  qk_g :: graph_id
  qk_tt :: timestamp

datatype slot = SlotS | SlotP | SlotO | SlotG

fun slot_width :: "slot \<Rightarrow> nat" where
  "slot_width SlotS = 16"
| "slot_width SlotO = 16"
| "slot_width SlotP = 4"
| "slot_width SlotG = 4"

datatype quad_order = Spog | Sopg | Psog | Posg | Ospg | Opsg | Gspo | Gpos

definition order_ALL :: "quad_order list" where
  "order_ALL = [Spog, Sopg, Psog, Posg, Ospg, Opsg, Gspo, Gpos]"

fun order_cf :: "quad_order \<Rightarrow> string" where
  "order_cf Spog = ''spog''"
| "order_cf Sopg = ''sopg''"
| "order_cf Psog = ''psog''"
| "order_cf Posg = ''posg''"
| "order_cf Ospg = ''ospg''"
| "order_cf Opsg = ''opsg''"
| "order_cf Gspo = ''gspo''"
| "order_cf Gpos = ''gpos''"

fun order_slots :: "quad_order \<Rightarrow> slot list" where
  "order_slots Spog = [SlotS, SlotP, SlotO, SlotG]"
| "order_slots Sopg = [SlotS, SlotO, SlotP, SlotG]"
| "order_slots Psog = [SlotP, SlotS, SlotO, SlotG]"
| "order_slots Posg = [SlotP, SlotO, SlotS, SlotG]"
| "order_slots Ospg = [SlotO, SlotS, SlotP, SlotG]"
| "order_slots Opsg = [SlotO, SlotP, SlotS, SlotG]"
| "order_slots Gspo = [SlotG, SlotS, SlotP, SlotO]"
| "order_slots Gpos = [SlotG, SlotP, SlotO, SlotS]"

definition node_id_from :: "bytes \<Rightarrow> node_id" where
  "node_id_from b = NodeId (uuid_from_bytes b)"

definition u32_from :: "bytes \<Rightarrow> u32" where
  "u32_from b = from_be b"

definition tt_from :: "bytes \<Rightarrow> timestamp" where
  "tt_from b = ts_from_bytes b"

definition check_len :: "bytes \<Rightarrow> nat \<Rightarrow> string \<Rightarrow> unit res" where
  "check_len key expected name =
    (if length key \<noteq> expected
     then Inl (KeyDecode (name @ '' key must be '' @ nat_str expected @ '' bytes, got ''
                @ nat_str (length key)))
     else Inr ())"

text \<open>The loop of \<open>Order::encode\<close>: one slot after the other, then \<open>tt\<close>.\<close>

fun slot_bytes :: "quad_key \<Rightarrow> slot \<Rightarrow> bytes" where
  "slot_bytes k SlotS = node_bytes (qk_s k)"
| "slot_bytes k SlotP = be_bytes 4 (qk_p k)"
| "slot_bytes k SlotO = node_bytes (qk_o k)"
| "slot_bytes k SlotG = graph_bytes (qk_g k)"

definition quad_tuple :: "quad_order \<Rightarrow> quad_key \<Rightarrow> bytes" where
  "quad_tuple ord k = concat (map (slot_bytes k) (order_slots ord))"

definition order_encode :: "quad_order \<Rightarrow> quad_key \<Rightarrow> bytes" where
  "order_encode ord k = quad_tuple ord k @ ts_bytes (qk_tt k)"

fun read_slot :: "slot \<Rightarrow> bytes \<Rightarrow> quad_key \<Rightarrow> quad_key" where
  "read_slot SlotS b k = k\<lparr>qk_s := node_id_from b\<rparr>"
| "read_slot SlotP b k = k\<lparr>qk_p := u32_from b\<rparr>"
| "read_slot SlotO b k = k\<lparr>qk_o := node_id_from b\<rparr>"
| "read_slot SlotG b k = k\<lparr>qk_g := GraphId (u32_from b)\<rparr>"

fun read_slots :: "slot list \<Rightarrow> nat \<Rightarrow> bytes \<Rightarrow> quad_key \<Rightarrow> quad_key" where
  "read_slots [] at key k = k"
| "read_slots (sl # sls) at key k =
    read_slots sls (at + slot_width sl) key (read_slot sl (bslice at (at + slot_width sl) key) k)"

definition order_decode :: "quad_order \<Rightarrow> bytes \<Rightarrow> quad_key res" where
  "order_decode ord key =
    rbind (check_len key QUAD_KEY_LEN (order_cf ord)) (\<lambda>_.
      Inr (read_slots (order_slots ord) 0 key
        \<lparr>qk_s = NodeId 0, qk_p = 0, qk_o = NodeId 0, qk_g = DEFAULT_GRAPH,
         qk_tt = tt_from (drop QUAD_TUPLE_LEN key)\<rparr>))"

text \<open>\<open>Order::prefix\<close>: the leading bound slots, stopping at the first unbound one.\<close>

fun bound_bytes ::
  "node_id option \<Rightarrow> pred_id option \<Rightarrow> node_id option \<Rightarrow> graph_id option \<Rightarrow> slot \<Rightarrow> bytes option" where
  "bound_bytes s p ob g SlotS = map_option node_bytes s"
| "bound_bytes s p ob g SlotP = map_option (be_bytes 4) p"
| "bound_bytes s p ob g SlotO = map_option node_bytes ob"
| "bound_bytes s p ob g SlotG = map_option graph_bytes g"

fun prefix_loop :: "(slot \<Rightarrow> bytes option) \<Rightarrow> slot list \<Rightarrow> bytes" where
  "prefix_loop f [] = []"
| "prefix_loop f (sl # sls) = (case f sl of Some b \<Rightarrow> b @ prefix_loop f sls | None \<Rightarrow> [])"

definition order_prefix ::
  "quad_order \<Rightarrow> node_id option \<Rightarrow> pred_id option \<Rightarrow> node_id option \<Rightarrow> graph_id option \<Rightarrow> bytes" where
  "order_prefix ord s p ob g = prefix_loop (bound_bytes s p ob g) (order_slots ord)"

definition graph_of :: "quad_order \<Rightarrow> bytes \<Rightarrow> graph_id" where
  "graph_of ord key =
    (let at = (case ord of Gspo \<Rightarrow> 0 | Gpos \<Rightarrow> 0 | _ \<Rightarrow> GRAPH_OFFSET_NON_LEADING)
     in GraphId (u32_from (bslice at (at + 4) key)))"

definition tuple_end :: "bytes \<Rightarrow> bytes" where
  "tuple_end tup = tup @ replicate (max QUAD_KEY_LEN (length tup + 8) - length tup) 0xFF"

definition key_tt :: "bytes \<Rightarrow> timestamp" where
  "key_tt key = tt_from (drop (length key - 8) key)"

definition value_object :: "(bytes \<Rightarrow> u128) \<Rightarrow> value \<Rightarrow> node_id" where
  "value_object xxh v = NodeId (uuid_from_bytes (content_hash xxh v))"


subsection \<open>Correctness of the quad orders\<close>

lemma node_id_from_node_bytes [simp]: "node_id_from (node_bytes n) = n"
  by (cases n) (simp add: node_id_from_def)

lemma u32_from_be_bytes [simp]: "u32_from (be_bytes 4 p) = p"
  by (simp add: u32_from_def)

lemma u32_from_graph_bytes [simp]: "u32_from (graph_bytes g) = graph_num g"
  by (simp add: u32_from_def)

lemma tt_from_ts_bytes [simp]: "tt_from (ts_bytes t) = t"
  by (simp add: tt_from_def)

lemma length_slot_bytes [simp, bytes_simps]: "length (slot_bytes k sl) = slot_width sl"
  by (cases sl) auto

lemma length_quad_tuple [simp, bytes_simps]: "length (quad_tuple ord k) = 40"
  by (cases ord) (simp_all add: quad_tuple_def)

lemma length_order_encode [simp, bytes_simps]: "length (order_encode ord k) = 48"
  by (simp add: order_encode_def)

text \<open>Reading the slots back one by one from the position the loop has reached.\<close>

definition copy_slot :: "quad_key \<Rightarrow> slot \<Rightarrow> quad_key \<Rightarrow> quad_key" where
  "copy_slot q sl k = read_slot sl (slot_bytes q sl) k"

lemma read_slots_encoded:
  "length pre = at \<Longrightarrow>
   read_slots sls at (pre @ concat (map (slot_bytes q) sls) @ rest) k = fold (copy_slot q) sls k"
proof (induction sls arbitrary: pre at k)
  case Nil
  show ?case by simp
next
  case (Cons sl sls)
  have "bslice at (at + slot_width sl) (pre @ concat (map (slot_bytes q) (sl # sls)) @ rest)
      = slot_bytes q sl"
    using Cons.prems by simp
  moreover have "read_slots sls (at + slot_width sl)
      ((pre @ slot_bytes q sl) @ concat (map (slot_bytes q) sls) @ rest) k'
      = fold (copy_slot q) sls k'" for k'
    by (rule Cons.IH) (simp add: Cons.prems)
  ultimately show ?case by (simp add: copy_slot_def [of q sl k])
qed

lemma copy_slot_simps [simp]:
  "copy_slot q SlotS k = k\<lparr>qk_s := qk_s q\<rparr>"
  "copy_slot q SlotP k = k\<lparr>qk_p := qk_p q\<rparr>"
  "copy_slot q SlotO k = k\<lparr>qk_o := qk_o q\<rparr>"
  "copy_slot q SlotG k = k\<lparr>qk_g := qk_g q\<rparr>"
  by (simp_all add: copy_slot_def)

lemma order_decode_encode [simp]: "order_decode ord (order_encode ord k) = Inr k"
proof -
  have "read_slots (order_slots ord) 0 (order_encode ord k) k0
      = fold (copy_slot k) (order_slots ord) k0" for k0
    using read_slots_encoded [of "[]" 0 "order_slots ord" k "ts_bytes (qk_tt k)" k0]
    by (simp add: order_encode_def quad_tuple_def)
  moreover have "drop QUAD_TUPLE_LEN (order_encode ord k) = ts_bytes (qk_tt k)"
    by (simp add: order_encode_def QUAD_TUPLE_LEN_def QUAD_KEY_LEN_def)
  moreover have "fold (copy_slot k) (order_slots ord)
      \<lparr>qk_s = NodeId 0, qk_p = 0, qk_o = NodeId 0, qk_g = DEFAULT_GRAPH, qk_tt = qk_tt k\<rparr> = k"
    by (cases ord) simp_all
  ultimately show ?thesis
    by (simp add: order_decode_def check_len_def QUAD_KEY_LEN_def)
qed

text \<open>Conversely, every 48-byte string is the key of the quad it decodes to.\<close>

lemma slot_bytes_node_id_from [simp]: "length b = 16 \<Longrightarrow> node_bytes (node_id_from b) = b"
  by (simp add: node_id_from_def node_bytes_def)

lemma be_bytes_u32_from [simp]: "length b = 4 \<Longrightarrow> be_bytes 4 (u32_from b) = b"
  by (simp add: u32_from_def be_bytes_from_be)

lemma graph_bytes_u32_from [simp]: "length b = 4 \<Longrightarrow> graph_bytes (GraphId (u32_from b)) = b"
  by (simp add: graph_bytes_def)

lemma ts_bytes_tt_from [simp]: "length b = 8 \<Longrightarrow> ts_bytes (tt_from b) = b"
  by (simp add: tt_from_def)

lemma bslice_append:
  "a \<le> b \<Longrightarrow> b \<le> c \<Longrightarrow> bslice a b xs @ bslice b c xs @ ys = bslice a c xs @ ys"
proof -
  assume ab: "a \<le> b" and bc: "b \<le> c"
  then have "bslice a c xs = take (b - a) (drop a xs) @ take (c - b) (drop (b - a) (drop a xs))"
    by (metis bslice_def take_add Nat.add_diff_assoc2 diff_add le_add_diff_inverse2
        add.commute diff_diff_cancel le_diff_conv2 Nat.diff_add_assoc)
  then show ?thesis using ab by (simp add: bslice_def)
qed

lemma order_encode_decode:
  assumes "order_decode ord b = Inr k"
  shows "order_encode ord k = b"
proof -
  from assms have len: "length b = 48"
    by (auto simp: order_decode_def check_len_def QUAD_KEY_LEN_def split: if_splits)
  have "drop 40 b = bslice 40 48 b" using len by (simp add: bslice_def)
  then have tail: "bslice 36 40 b @ drop 40 b = bslice 36 48 b"
      "bslice 24 40 b @ drop 40 b = bslice 24 48 b"
    using bslice_append [of 36 40 48 b "[]"] bslice_append [of 24 40 48 b "[]"] by simp_all
  have whole: "bslice 0 36 b @ bslice 36 48 b = b" "bslice 0 24 b @ bslice 24 48 b = b"
    using len bslice_append [of 0 36 48 b "[]"] bslice_append [of 0 24 48 b "[]"]
    by (simp_all add: bslice_def)
  from assms len show ?thesis
    by (cases ord)
      (auto simp: order_decode_def check_len_def QUAD_KEY_LEN_def QUAD_TUPLE_LEN_def
        order_encode_def quad_tuple_def length_bslice bslice_append tail whole)
qed

interpretation quad_codec: versioned_key "order_encode ord" "order_decode ord" 48
  "quad_tuple ord" qk_tt for ord
proof
  fix b :: bytes
  assume "length b = 48"
  then obtain k where k: "order_decode ord b = Inr k"
    by (auto simp: order_decode_def check_len_def QUAD_KEY_LEN_def)
  then have "order_encode ord k = b" by (rule order_encode_decode)
  with k show "\<exists>k. order_decode ord b = Inr k \<and> order_encode ord k = b" by blast
next
  fix b :: bytes
  assume "length b \<noteq> 48"
  then show "\<exists>m. order_decode ord b = Inl (KeyDecode m)"
    by (simp add: order_decode_def check_len_def QUAD_KEY_LEN_def)
qed (simp_all add: order_encode_def [symmetric])

lemma graph_of_encode [simp]: "graph_of ord (order_encode ord k) = qk_g k"
  by (cases ord; cases "qk_g k")
    (simp_all add: graph_of_def order_encode_def quad_tuple_def GRAPH_OFFSET_NON_LEADING_def
      bslice_skip bslice_head)

lemma graph_of_tuple [simp]: "graph_of ord (quad_tuple ord k) = qk_g k"
  by (cases ord; cases "qk_g k")
    (simp_all add: graph_of_def quad_tuple_def GRAPH_OFFSET_NON_LEADING_def
      bslice_skip bslice_head bslice_def)

lemma key_tt_encode [simp]: "key_tt (order_encode ord k) = qk_tt k"
  by (simp add: key_tt_def order_encode_def)

lemma key_tt_append [simp]: "key_tt (xs @ ts_bytes t) = t"
  by (simp add: key_tt_def)

text \<open>Every version of a quad sorts before \<open>tuple_end\<close>.\<close>

lemma order_encode_le_tuple_end: "order_encode ord k \<le> tuple_end (quad_tuple ord k)"
proof -
  have "bs \<le> replicate (length bs) (0xFF :: byte)" for bs :: bytes
  proof (induction bs)
    case (Cons b bs)
    have "b \<le> 0xFF" using unsigned_less [of b, where ?'a = nat] by (simp add: word_le_nat_alt)
    with Cons show ?case by auto
  qed simp
  from this [of "ts_bytes (qk_tt k)"] have "ts_bytes (qk_tt k) \<le> replicate 8 0xFF" by simp
  then show ?thesis
    by (auto simp: order_encode_def tuple_end_def QUAD_KEY_LEN_def le_less append_less_iff)
qed

text \<open>
  A scan prefix selects exactly the keys whose leading slots, up to the first unbound one, hold
  the bound values.
\<close>

fun slot_matches ::
  "node_id option \<Rightarrow> pred_id option \<Rightarrow> node_id option \<Rightarrow> graph_id option \<Rightarrow> quad_key \<Rightarrow> slot \<Rightarrow> bool" where
  "slot_matches s p ob g k SlotS = (s = Some (qk_s k))"
| "slot_matches s p ob g k SlotP = (p = Some (qk_p k))"
| "slot_matches s p ob g k SlotO = (ob = Some (qk_o k))"
| "slot_matches s p ob g k SlotG = (g = Some (qk_g k))"

definition covered_slots ::
  "quad_order \<Rightarrow> node_id option \<Rightarrow> pred_id option \<Rightarrow> node_id option \<Rightarrow> graph_id option \<Rightarrow> slot list" where
  "covered_slots ord s p ob g = takeWhile (\<lambda>sl. bound_bytes s p ob g sl \<noteq> None) (order_slots ord)"

lemma bound_bytes_matches:
  "bound_bytes s p ob g sl = Some b \<Longrightarrow> b = slot_bytes k sl \<longleftrightarrow> slot_matches s p ob g k sl"
  by (cases sl) (auto simp: be_bytes_inject)

lemma bound_bytes_length: "bound_bytes s p ob g sl = Some b \<Longrightarrow> length b = slot_width sl"
  by (cases sl) auto

lemma prefix_append_eq_length:
  "length a = length b \<Longrightarrow> prefix (a @ xs) (b @ ys) \<longleftrightarrow> a = b \<and> prefix xs ys"
  by (auto simp: prefix_def)

lemma prefix_loop_iff:
  "prefix (prefix_loop (bound_bytes s p ob g) sls) (concat (map (slot_bytes k) sls) @ rest) \<longleftrightarrow>
   (\<forall>sl \<in> set (takeWhile (\<lambda>sl. bound_bytes s p ob g sl \<noteq> None) sls). slot_matches s p ob g k sl)"
proof (induction sls)
  case Nil
  show ?case by simp
next
  case (Cons sl sls)
  show ?case
  proof (cases "bound_bytes s p ob g sl")
    case None
    then show ?thesis by simp
  next
    case (Some b)
    then have "length b = length (slot_bytes k sl)" by (simp add: bound_bytes_length)
    with Some Cons bound_bytes_matches [OF Some, of k] show ?thesis
      by (auto simp: prefix_append_eq_length)
  qed
qed

lemma order_prefix_iff:
  "prefix (order_prefix ord s p ob g) (order_encode ord k) \<longleftrightarrow>
   (\<forall>sl \<in> set (covered_slots ord s p ob g). slot_matches s p ob g k sl)"
  by (simp add: order_prefix_def order_encode_def quad_tuple_def covered_slots_def prefix_loop_iff)

end
