(* ===== verification/Annotation_Keys.thy ===== *)
theory Annotation_Keys
  imports Keys
begin

text \<open>
  The remaining keys of \<open>keys.rs\<close>: the trigram index, the RDF-star annotation families EPA, EPO
  and PEA, and the v2 layouts kept for the migration.
\<close>


section \<open>Trigrams\<close>

text \<open>
  \<open>extract_trigrams\<close> returns the elements of a hash set: here without repetition and in an order
  of our choice.
\<close>

fun windows3 :: "bytes \<Rightarrow> bytes list" where
  "windows3 (a # b # c # bs) = [a, b, c] # windows3 (b # c # bs)"
| "windows3 _ = []"

definition extract_trigrams :: "string \<Rightarrow> bytes list" where
  "extract_trigrams text =
    (let bs = as_bytes text in
     if bs = [] then []
     else if length bs < 3 then [bs @ replicate (3 - length bs) 0]
     else remdups (windows3 bs))"

definition encode_tri :: "bytes \<Rightarrow> pred_id \<Rightarrow> graph_id \<Rightarrow> node_id \<Rightarrow> bytes" where
  "encode_tri trigram pred g subject = trigram @ be_bytes 4 pred @ graph_bytes g @ node_bytes subject"

definition tri_prefix_tp :: "bytes \<Rightarrow> pred_id \<Rightarrow> bytes" where
  "tri_prefix_tp trigram pred = trigram @ be_bytes 4 pred"

definition decode_tri :: "bytes \<Rightarrow> (graph_id \<times> node_id) res" where
  "decode_tri key = rbind (check_len key 27 ''TRI'') (\<lambda>_.
     Inr (GraphId (u32_from (bslice 7 11 key)), node_id_from (bslice 11 27 key)))"

lemma length_windows3: "w \<in> set (windows3 bs) \<Longrightarrow> length w = 3"
  by (induction bs rule: windows3.induct) auto

lemma windows3_iff_sublist: "w \<in> set (windows3 bs) \<longleftrightarrow> length w = 3 \<and> sublist w bs"
proof (induction bs rule: windows3.induct)
  case (1 a b c bs)
  have "length w = 3 \<and> prefix w (a # b # c # bs) \<longleftrightarrow> w = [a, b, c]"
    by (auto simp: prefix_def length_Suc_conv numeral_3_eq_3)
  with 1 show ?case by (auto simp: sublist_Cons_right)
qed (auto dest: sublist_length_le)

lemma trigram_length: "w \<in> set (extract_trigrams text) \<Longrightarrow> length w = 3"
  by (auto simp: extract_trigrams_def Let_def split: if_splits dest: length_windows3)

lemma decode_encode_tri:
  "length tg = 3 \<Longrightarrow> decode_tri (encode_tri tg pred g n) = Inr (g, n)"
  by (cases g) (simp add: decode_tri_def encode_tri_def check_len_def bslice_skip bslice_head
      bslice_def)

lemma tri_prefix_iff:
  "length tg = 3 \<Longrightarrow> length tg' = 3 \<Longrightarrow>
   prefix (tri_prefix_tp tg pred) (encode_tri tg' pred' g n) \<longleftrightarrow> tg = tg' \<and> pred = pred'"
  by (auto simp: tri_prefix_tp_def encode_tri_def prefix_append_eq_length be_bytes_inject
      prefix_append_eq_length [where xs = "[]", simplified])


section \<open>RDF-star annotation keys\<close>

record epa_key =
  epa_edge :: edge_id
  epa_pred :: pred_id
  epa_g :: graph_id
  epa_tt :: timestamp

record epo_key =
  epo_edge :: edge_id
  epo_pred :: pred_id
  epo_object :: node_id
  epo_g :: graph_id
  epo_tt :: timestamp

record pea_key =
  pea_pred :: pred_id
  pea_edge :: edge_id
  pea_g :: graph_id
  pea_tt :: timestamp

definition edge_id_from :: "bytes \<Rightarrow> edge_id" where
  "edge_id_from b = EdgeId (uuid_from_bytes b)"

definition encode_epa_key :: "edge_id \<Rightarrow> pred_id \<Rightarrow> graph_id \<Rightarrow> timestamp \<Rightarrow> bytes" where
  "encode_epa_key edge pred g t = edge_bytes edge @ be_bytes 4 pred @ graph_bytes g @ ts_bytes t"

definition decode_epa_key :: "bytes \<Rightarrow> epa_key res" where
  "decode_epa_key key = rbind (check_len key 32 ''EPA'') (\<lambda>_.
     Inr \<lparr>epa_edge = edge_id_from (bslice 0 16 key), epa_pred = u32_from (bslice 16 20 key),
          epa_g = GraphId (u32_from (bslice 20 24 key)), epa_tt = tt_from (bslice 24 32 key)\<rparr>)"

definition encode_epo_key ::
  "edge_id \<Rightarrow> pred_id \<Rightarrow> node_id \<Rightarrow> graph_id \<Rightarrow> timestamp \<Rightarrow> bytes" where
  "encode_epo_key edge pred ob g t =
     edge_bytes edge @ be_bytes 4 pred @ node_bytes ob @ graph_bytes g @ ts_bytes t"

definition decode_epo_key :: "bytes \<Rightarrow> epo_key res" where
  "decode_epo_key key = rbind (check_len key 48 ''EPO'') (\<lambda>_.
     Inr \<lparr>epo_edge = edge_id_from (bslice 0 16 key), epo_pred = u32_from (bslice 16 20 key),
          epo_object = node_id_from (bslice 20 36 key),
          epo_g = GraphId (u32_from (bslice 36 40 key)), epo_tt = tt_from (bslice 40 48 key)\<rparr>)"

definition annotation_prefix_edge :: "edge_id \<Rightarrow> bytes" where
  "annotation_prefix_edge edge = edge_bytes edge"

definition annotation_prefix_edge_pred :: "edge_id \<Rightarrow> pred_id \<Rightarrow> bytes" where
  "annotation_prefix_edge_pred edge pred = edge_bytes edge @ be_bytes 4 pred"

definition encode_pea_key :: "pred_id \<Rightarrow> edge_id \<Rightarrow> graph_id \<Rightarrow> timestamp \<Rightarrow> bytes" where
  "encode_pea_key pred edge g t = be_bytes 4 pred @ edge_bytes edge @ graph_bytes g @ ts_bytes t"

definition decode_pea_key :: "bytes \<Rightarrow> pea_key res" where
  "decode_pea_key key = rbind (check_len key 32 ''PEA'') (\<lambda>_.
     Inr \<lparr>pea_pred = u32_from (bslice 0 4 key), pea_edge = edge_id_from (bslice 4 20 key),
          pea_g = GraphId (u32_from (bslice 20 24 key)), pea_tt = tt_from (bslice 24 32 key)\<rparr>)"

definition pea_prefix_pred :: "pred_id \<Rightarrow> bytes" where
  "pea_prefix_pred pred = be_bytes 4 pred"

lemma edge_id_from_edge_bytes [simp]: "edge_id_from (edge_bytes e) = e"
  by (cases e) (simp add: edge_id_from_def)

lemma edge_bytes_edge_id_from [simp]: "length b = 16 \<Longrightarrow> edge_bytes (edge_id_from b) = b"
  by (simp add: edge_id_from_def edge_bytes_def)

lemma edge_bytes_inject [simp]: "edge_bytes d = edge_bytes e \<longleftrightarrow> d = e"
  by (metis edge_id_from_edge_bytes)

lemma bslice_append_last: "a \<le> b \<Longrightarrow> b \<le> c \<Longrightarrow> bslice a b xs @ bslice b c xs = bslice a c xs"
  using bslice_append [of a b c xs "[]"] by simp

lemmas layout_simps = check_len_def length_bslice bslice_append bslice_append_last bslice_all

interpretation epa_codec: versioned_key
  "\<lambda>k. encode_epa_key (epa_edge k) (epa_pred k) (epa_g k) (epa_tt k)" decode_epa_key 32
  "\<lambda>k. edge_bytes (epa_edge k) @ be_bytes 4 (epa_pred k) @ graph_bytes (epa_g k)" epa_tt
  by unfold_locales
    (auto simp: encode_epa_key_def decode_epa_key_def layout_simps bslice_skip bslice_head)

interpretation epo_codec: versioned_key
  "\<lambda>k. encode_epo_key (epo_edge k) (epo_pred k) (epo_object k) (epo_g k) (epo_tt k)"
  decode_epo_key 48
  "\<lambda>k. edge_bytes (epo_edge k) @ be_bytes 4 (epo_pred k) @ node_bytes (epo_object k)
       @ graph_bytes (epo_g k)" epo_tt
  by unfold_locales
    (auto simp: encode_epo_key_def decode_epo_key_def layout_simps bslice_skip bslice_head)

interpretation pea_codec: versioned_key
  "\<lambda>k. encode_pea_key (pea_pred k) (pea_edge k) (pea_g k) (pea_tt k)" decode_pea_key 32
  "\<lambda>k. be_bytes 4 (pea_pred k) @ edge_bytes (pea_edge k) @ graph_bytes (pea_g k)" pea_tt
  by unfold_locales
    (auto simp: encode_pea_key_def decode_pea_key_def layout_simps bslice_skip bslice_head)


section \<open>Storage format v2\<close>

definition V2_KEY_LEN :: nat where
  "V2_KEY_LEN = 44"

definition PROPERTY_SENTINEL :: bytes where
  "PROPERTY_SENTINEL = replicate 16 0xFF"

record spo_key =
  spo_s :: node_id
  spo_p :: pred_id
  spo_o :: node_id
  spo_tt :: timestamp

definition spo_is_property :: "spo_key \<Rightarrow> bool" where
  "spo_is_property k \<longleftrightarrow> node_bytes (spo_o k) = PROPERTY_SENTINEL"

definition v2_decode_spo :: "bytes \<Rightarrow> spo_key res" where
  "v2_decode_spo key = rbind (check_len key V2_KEY_LEN ''v2 SPO'') (\<lambda>_.
     Inr \<lparr>spo_s = node_id_from (bslice 0 16 key), spo_p = u32_from (bslice 16 20 key),
          spo_o = node_id_from (bslice 20 36 key), spo_tt = tt_from (bslice 36 44 key)\<rparr>)"

definition v2_encode_spo :: "node_id \<Rightarrow> pred_id \<Rightarrow> node_id \<Rightarrow> timestamp \<Rightarrow> bytes" where
  "v2_encode_spo s p ob t = node_bytes s @ be_bytes 4 p @ node_bytes ob @ ts_bytes t"

definition v2_decode_epa :: "bytes \<Rightarrow> (edge_id \<times> pred_id \<times> timestamp) res" where
  "v2_decode_epa key = rbind (check_len key 28 ''v2 EPA'') (\<lambda>_.
     Inr (edge_id_from (bslice 0 16 key), u32_from (bslice 16 20 key), tt_from (bslice 20 28 key)))"

definition v2_encode_epa :: "edge_id \<Rightarrow> pred_id \<Rightarrow> timestamp \<Rightarrow> bytes" where
  "v2_encode_epa edge p t = edge_bytes edge @ be_bytes 4 p @ ts_bytes t"

definition v2_decode_epo :: "bytes \<Rightarrow> (edge_id \<times> pred_id \<times> node_id \<times> timestamp) res" where
  "v2_decode_epo key = rbind (check_len key 44 ''v2 EPO'') (\<lambda>_.
     Inr (edge_id_from (bslice 0 16 key), u32_from (bslice 16 20 key),
          node_id_from (bslice 20 36 key), tt_from (bslice 36 44 key)))"

definition v2_encode_epo :: "edge_id \<Rightarrow> pred_id \<Rightarrow> node_id \<Rightarrow> timestamp \<Rightarrow> bytes" where
  "v2_encode_epo edge p ob t = edge_bytes edge @ be_bytes 4 p @ node_bytes ob @ ts_bytes t"

interpretation spo_codec: versioned_key
  "\<lambda>k. v2_encode_spo (spo_s k) (spo_p k) (spo_o k) (spo_tt k)" v2_decode_spo 44
  "\<lambda>k. node_bytes (spo_s k) @ be_bytes 4 (spo_p k) @ node_bytes (spo_o k)" spo_tt
  by unfold_locales
    (auto simp: v2_encode_spo_def v2_decode_spo_def V2_KEY_LEN_def layout_simps bslice_skip
      bslice_head)

interpretation v2_epa_codec: versioned_key
  "\<lambda>(e, p, t). v2_encode_epa e p t" v2_decode_epa 28
  "\<lambda>(e, p, t). edge_bytes e @ be_bytes 4 p" "\<lambda>(e, p, t). t"
  by unfold_locales
    (auto simp: v2_encode_epa_def v2_decode_epa_def layout_simps bslice_skip bslice_head)

interpretation v2_epo_codec: versioned_key
  "\<lambda>(e, p, ob, t). v2_encode_epo e p ob t" v2_decode_epo 44
  "\<lambda>(e, p, ob, t). edge_bytes e @ be_bytes 4 p @ node_bytes ob" "\<lambda>(e, p, ob, t). t"
  by unfold_locales
    (auto simp: v2_encode_epo_def v2_decode_epo_def layout_simps bslice_skip bslice_head)

end
