(* ===== verification/Store_Meta.thy ===== *)
theory Store_Meta
  imports Vocab Codec Annotation_Keys
begin

text \<open>
  The store handle and its metadata (\<open>polargraph-storage/src/store.rs\<close>): the record of \<open>Inner\<close>,
  column family handles and guarded writes, the IRI dictionary, predicate and graph interning
  with the META keys that persist them, and the loaders that rebuild the in-memory tables when a
  store is opened or a replicated batch is applied.

  An operation takes the store and returns its result with the store it leaves, also when it
  fails: the counters a failed interning has advanced stay advanced, as in the code. Locks are
  not modelled here: an operation runs alone.
\<close>


section \<open>Operations with state\<close>

type_synonym ('s, 'a) op = "'s \<Rightarrow> 'a res \<times> 's"

definition sret :: "'a \<Rightarrow> ('s, 'a) op" where
  "sret x s = (Inr x, s)"

definition sbind :: "('s, 'a) op \<Rightarrow> ('a \<Rightarrow> ('s, 'b) op) \<Rightarrow> ('s, 'b) op" where
  "sbind m f s = (case m s of (Inl e, s') \<Rightarrow> (Inl e, s') | (Inr x, s') \<Rightarrow> f x s')"

definition slift :: "('s \<Rightarrow> 'a res) \<Rightarrow> ('s, 'a) op" where
  "slift r s = (r s, s)"

lemma sret_iff [res_simps]: "sret x s = (r, s') \<longleftrightarrow> r = Inr x \<and> s' = s"
  by (auto simp: sret_def)

lemma slift_iff [res_simps]: "slift f s = (r, s') \<longleftrightarrow> r = f s \<and> s' = s"
  by (auto simp: slift_def)

lemma sbind_Inr_iff [res_simps]:
  "sbind m f s = (Inr y, s'') \<longleftrightarrow> (\<exists>x s'. m s = (Inr x, s') \<and> f x s' = (Inr y, s''))"
  by (auto simp: sbind_def split: prod.splits sum.splits)

lemma sbind_cong [fundef_cong]:
  "m s = m' s' \<Longrightarrow> (\<And>x t. m' s' = (Inr x, t) \<Longrightarrow> f x t = g x t) \<Longrightarrow> s = s' \<Longrightarrow> sbind m f s = sbind m' g s'"
  by (auto simp: sbind_def split: prod.splits sum.splits)

fun smapM :: "('x \<Rightarrow> 'a \<Rightarrow> ('s, 'a) op) \<Rightarrow> 'x list \<Rightarrow> 'a \<Rightarrow> ('s, 'a) op" where
  "smapM f [] acc = sret acc"
| "smapM f (x # xs) acc = sbind (f x acc) (smapM f xs)"

lemma smapM_Nil [simp]: "smapM f [] acc s = (Inr acc, s)"
  by (simp add: sret_def)


section \<open>The store\<close>

datatype store_mode = Primary | Replica string

record 'd store =
  st_db :: 'd
  st_committed :: timestamp
  st_fwd :: "(string \<times> u32) list"
  st_rev :: "(u32 \<times> string) list"
  st_next_pred :: u32
  st_graph_fwd :: "(string \<times> graph_id) list"
  st_graph_rev :: "(graph_id \<times> string) list"
  st_graph_by_node :: "(node_id \<times> graph_id) list"
  st_next_graph :: u32
  st_inline_max :: nat
  st_mode :: store_mode
  st_commits :: timestamp
  st_vocab :: vocabulary
  st_canonical :: bool

definition DEFAULT_INLINE_VALUE_MAX_BYTES :: nat where
  "DEFAULT_INLINE_VALUE_MAX_BYTES = 256"

definition META_PRED_PREFIX :: bytes where "META_PRED_PREFIX = as_bytes ''p/''"
definition META_PRED_CTR :: bytes where "META_PRED_CTR = as_bytes ''__pred_ctr''"
definition META_GRAPH_PREFIX :: bytes where "META_GRAPH_PREFIX = as_bytes ''g/''"
definition META_GRAPH_REV_PREFIX :: bytes where "META_GRAPH_REV_PREFIX = as_bytes ''gid/''"
definition META_GRAPH_CTR :: bytes where "META_GRAPH_CTR = as_bytes ''__graph_ctr''"
definition META_ORACLE_CTR :: bytes where "META_ORACLE_CTR = as_bytes ''__oracle_ctr''"

definition meta_forward_key :: "string \<Rightarrow> bytes" where
  "meta_forward_key pred = META_PRED_PREFIX @ as_bytes pred"

definition meta_reverse_key :: "u32 \<Rightarrow> bytes" where
  "meta_reverse_key i = as_bytes ''pid/'' @ be_bytes 4 i"

definition meta_graph_key :: "string \<Rightarrow> bytes" where
  "meta_graph_key iri = META_GRAPH_PREFIX @ as_bytes iri"

definition meta_graph_rev_key :: "graph_id \<Rightarrow> bytes" where
  "meta_graph_rev_key g = META_GRAPH_REV_PREFIX @ graph_bytes g"

definition is_replica :: "('d, 's) store_scheme \<Rightarrow> bool" where
  "is_replica st \<longleftrightarrow> (case st_mode st of Replica _ \<Rightarrow> True | Primary \<Rightarrow> False)"

definition read_only_err :: storage_error where
  "read_only_err = ReadOnly ''write operations are not supported on a read replica''"

definition cf_of :: "('d, 'm) env_scheme \<Rightarrow> 'd \<Rightarrow> string \<Rightarrow> unit res" where
  "cf_of E d name = (if rk_cf E d name then Inr () else Inl (MissingCf name))"

definition cf_handle :: "('d, 'm) env_scheme \<Rightarrow> string \<Rightarrow> ('d, 's) store_scheme \<Rightarrow> unit res" where
  "cf_handle E name st = cf_of E (st_db st) name"

definition db_get :: "('d, 'm) env_scheme \<Rightarrow> 'd \<Rightarrow> string \<Rightarrow> bytes \<Rightarrow> bytes option res" where
  "db_get E d cf k = rbind (cf_of E d cf) (\<lambda>_. from_rocks (rk_get E d cf k))"

definition db_scan :: "('d, 'm) env_scheme \<Rightarrow> 'd \<Rightarrow> string \<Rightarrow> bytes \<Rightarrow> (bytes \<times> bytes) list res" where
  "db_scan E d cf p = rbind (cf_of E d cf) (\<lambda>_. iter_prefix E d cf p)"

text \<open>\<open>self.inner.db.write(batch)?\<close> and the guarded \<open>db_write\<close>.\<close>

definition raw_write :: "('d, 'm) env_scheme \<Rightarrow> batch_op list \<Rightarrow> ('d store, unit) op" where
  "raw_write E batch st =
    (case from_rocks (rk_write E (st_db st) batch) of
       Inl e \<Rightarrow> (Inl e, st)
     | Inr d \<Rightarrow> (Inr (), st\<lparr>st_db := d\<rparr>))"

definition db_write :: "('d, 'm) env_scheme \<Rightarrow> batch_op list \<Rightarrow> ('d store, unit) op" where
  "db_write E batch st =
    (if is_replica st then (Inl read_only_err, st) else raw_write E batch st)"

context kv_engine
begin

lemma cf_of_ok: "cf \<in> set cf_ALL \<Longrightarrow> cf_of E d cf = Inr ()"
  by (simp add: cf_of_def has_cf)

lemma cf_handle_ok: "cf \<in> set cf_ALL \<Longrightarrow> cf_handle E cf st = Inr ()"
  by (simp add: cf_handle_def cf_of_ok)

lemma db_get_ok: "cf \<in> set cf_ALL \<Longrightarrow> db_get E d cf k = Inr (view E d cf k)"
  by (simp add: db_get_def cf_of_ok get_view)

lemma db_scanE:
  assumes "cf \<in> set cf_ALL"
  obtains xs where "db_scan E d cf p = Inr xs" and "sorted_wrt (<) (map fst xs)"
    and "\<And>k v. (k, v) \<in> set xs \<longleftrightarrow> view E d cf k = Some v \<and> prefix p k"
proof -
  obtain xs where xs: "iter_prefix E d cf p = Inr xs" "sorted_wrt (<) (map fst xs)"
    "\<And>k v. (k, v) \<in> set xs \<longleftrightarrow> view E d cf k = Some v \<and> prefix p k"
    using iter_prefixE [of d cf p] by metis
  show thesis
  proof (rule that)
    show "db_scan E d cf p = Inr xs" using xs(1) by (simp add: db_scan_def cf_of_ok assms)
  qed (fact xs)+
qed

lemma raw_writeE:
  obtains d' where "raw_write E ops st = (Inr (), st\<lparr>st_db := d'\<rparr>)"
    and "view E d' = apply_batch ops (view E (st_db st))"
proof -
  obtain d' where d: "rk_write E (st_db st) ops = Inr d'"
    "view E d' = apply_batch ops (view E (st_db st))"
    using writeE [of "st_db st" ops] by metis
  show thesis by (rule that [of d']) (use d in \<open>simp_all add: raw_write_def\<close>)
qed

end


section \<open>The IRI dictionary\<close>

definition decode_iri :: "node_id \<Rightarrow> bytes \<Rightarrow> string res" where
  "decode_iri node b =
    ok_or (from_utf8 b) (KeyDecode (''IRI is not UTF-8''))"

definition iri_of :: "('d, 'm) env_scheme \<Rightarrow> node_id \<Rightarrow> ('d, 's) store_scheme \<Rightarrow> string option res" where
  "iri_of E node st =
    rbind (db_get E (st_db st) cf_IRI (node_bytes node)) (\<lambda>r.
      case r of None \<Rightarrow> Inr None
      | Some b \<Rightarrow> rbind (decode_iri node b) (\<lambda>s. Inr (Some s)))"

definition iris_of ::
  "('d, 'm) env_scheme \<Rightarrow> node_id list \<Rightarrow> ('d, 's) store_scheme \<Rightarrow> (node_id \<times> string) list res" where
  "iris_of E nodes st =
    rbind (cf_handle E cf_IRI st) (\<lambda>_.
      rfold (\<lambda>node out.
        rbind (from_rocks (rk_get E (st_db st) cf_IRI (node_bytes node))) (\<lambda>r.
          case r of None \<Rightarrow> Inr out
          | Some b \<Rightarrow> rbind (decode_iri node b) (\<lambda>s. Inr (hm_insert node s out))))
        nodes [])"

text \<open>The batch and the entries pending in it are passed through.\<close>

type_synonym iri_batch = "batch_op list \<times> (node_id \<times> string) list"

definition batch_iri ::
  "('d, 'm) env_scheme \<Rightarrow> ('d, 's) store_scheme \<Rightarrow> string \<Rightarrow> iri_batch \<Rightarrow> iri_batch res" where
  "batch_iri E st iri bp =
    (let (batch, pending) = bp in
     if \<not> needs_dictionary E iri then Inr (batch, pending)
     else
       let node = iri_to_node_id E iri in
       rbind (case hm_get pending node of Some p \<Rightarrow> Inr (Some p) | None \<Rightarrow> iri_of E node st)
        (\<lambda>existing.
          case existing of
            Some e \<Rightarrow>
              if e = iri then Inr (batch, pending)
              else Inl (IriCollision node e iri)
          | None \<Rightarrow>
              rbind (cf_handle E cf_IRI st) (\<lambda>_.
                Inr (batch @ [Put cf_IRI (node_bytes node) (as_bytes iri)],
                     hm_insert node iri pending))))"

definition bind_iris ::
  "('d, 'm) env_scheme \<Rightarrow> string list \<Rightarrow> ('d store, unit) op" where
  "bind_iris E iris st =
    (if is_replica st then (Inl read_only_err, st)
     else case rfold (batch_iri E st) iris ([], []) of
       Inl e \<Rightarrow> (Inl e, st)
     | Inr (batch, _) \<Rightarrow> if batch \<noteq> [] then db_write E batch st else (Inr (), st))"


section \<open>Predicates\<close>

definition canonical_name :: "('d, 's) store_scheme \<Rightarrow> string \<Rightarrow> string" where
  "canonical_name st pred =
    (if st_canonical st then canonical_predicate (st_vocab st) pred else pred)"

definition predicate_id :: "('d, 's) store_scheme \<Rightarrow> string \<Rightarrow> u32 option" where
  "predicate_id st pred =
    (if is_bare pred then hm_get (st_fwd st) (canonical_name st pred)
     else hm_get (st_fwd st) pred)"

definition predicate_string :: "('d, 's) store_scheme \<Rightarrow> u32 \<Rightarrow> string option" where
  "predicate_string st i = hm_get (st_rev st) i"

definition intern_predicate :: "('d, 'm) env_scheme \<Rightarrow> string \<Rightarrow> ('d store, u32) op" where
  "intern_predicate E pred0 st =
    (let pred = canonical_name st pred0 in
     case hm_get (st_fwd st) pred of
       Some i \<Rightarrow> (Inr i, st)
     | None \<Rightarrow>
         if is_replica st then (Inl read_only_err, st)
         else
           let i = st_next_pred st;
               st1 = st\<lparr>st_next_pred := i + 1\<rparr>
           in sbind (slift (cf_handle E cf_META)) (\<lambda>_.
              sbind (raw_write E
                [Put cf_META (meta_forward_key pred) (be_bytes 4 i),
                 Put cf_META (meta_reverse_key i) (as_bytes pred),
                 Put cf_META META_PRED_CTR (be_bytes 4 (st_next_pred st1))]) (\<lambda>_ st2.
              (Inr i, st2\<lparr>st_fwd := hm_insert pred i (st_fwd st2),
                          st_rev := hm_insert i pred (st_rev st2)\<rparr>))) st1)"

definition interned_predicates :: "('d, 's) store_scheme \<Rightarrow> string list" where
  "interned_predicates st = sort (map fst (st_fwd st))"

definition rename_predicate ::
  "('d, 'm) env_scheme \<Rightarrow> string \<Rightarrow> string \<Rightarrow> ('d store, unit) op" where
  "rename_predicate E from to st =
    (if is_replica st then (Inl read_only_err, st)
     else case hm_get (st_fwd st) from of
       None \<Rightarrow> (Inl (ValidationError (''predicate '' @ from @ '' is not interned'')), st)
     | Some i \<Rightarrow>
         if hm_get (st_fwd st) to \<noteq> None
         then (Inl (ValidationError (''predicate '' @ to @ '' is already interned'')), st)
         else
           sbind (slift (cf_handle E cf_META)) (\<lambda>_.
           sbind (raw_write E
             [Delete cf_META (meta_forward_key from),
              Put cf_META (meta_forward_key to) (be_bytes 4 i),
              Put cf_META (meta_reverse_key i) (as_bytes to)]) (\<lambda>_ st2.
           (Inr (), st2\<lparr>st_fwd := hm_insert to i (hm_remove from (st_fwd st2)),
                        st_rev := hm_insert i to (st_rev st2)\<rparr>))) st)"


section \<open>Graphs\<close>

definition intern_graph :: "('d, 'm) env_scheme \<Rightarrow> string \<Rightarrow> ('d store, graph_id) op" where
  "intern_graph E iri st =
    (if iri = [] then (Inl (ValidationError ''graph IRI must not be empty''), st)
     else case hm_get (st_graph_fwd st) iri of
       Some g \<Rightarrow> (Inr g, st)
     | None \<Rightarrow>
         if is_replica st then (Inl read_only_err, st)
         else
           let g = GraphId (st_next_graph st);
               st1 = st\<lparr>st_next_graph := st_next_graph st + 1\<rparr>
           in sbind (slift (cf_handle E cf_META)) (\<lambda>_.
              sbind (slift (\<lambda>st. batch_iri E st iri
                ([Put cf_META (meta_graph_key iri) (graph_bytes g),
                  Put cf_META (meta_graph_rev_key g) (as_bytes iri),
                  Put cf_META META_GRAPH_CTR (be_bytes 4 (st_next_graph st1))], []))) (\<lambda>(batch, _).
              sbind (raw_write E batch) (\<lambda>_ st2.
              (Inr g, st2\<lparr>st_graph_by_node :=
                            hm_insert (iri_to_node_id E iri) g (st_graph_by_node st2),
                          st_graph_fwd := hm_insert iri g (st_graph_fwd st2),
                          st_graph_rev := hm_insert g iri (st_graph_rev st2)\<rparr>)))) st1)"

definition graph_nodes ::
  "'m ext_scheme \<Rightarrow> (graph_id \<times> string) list \<Rightarrow> (node_id \<times> graph_id) list" where
  "graph_nodes X grev = fold (\<lambda>(g, iri) m. hm_insert (iri_to_node_id X iri) g m) grev []"

definition graph_iri :: "('d, 's) store_scheme \<Rightarrow> graph_id \<Rightarrow> string option" where
  "graph_iri st g = hm_get (st_graph_rev st) g"

definition graph_id_of :: "('d, 's) store_scheme \<Rightarrow> string \<Rightarrow> graph_id option" where
  "graph_id_of st iri = hm_get (st_graph_fwd st) iri"

definition graph_node :: "'m ext_scheme \<Rightarrow> ('d, 's) store_scheme \<Rightarrow> graph_id \<Rightarrow> node_id option" where
  "graph_node X st g = map_option (iri_to_node_id X) (graph_iri st g)"

definition graph_for_node :: "('d, 's) store_scheme \<Rightarrow> node_id \<Rightarrow> graph_id option" where
  "graph_for_node st n = hm_get (st_graph_by_node st) n"

definition list_graphs :: "('d, 's) store_scheme \<Rightarrow> (graph_id \<times> string) list" where
  "list_graphs st = sort (st_graph_rev st)"


section \<open>Loading the tables\<close>

definition load_predicates ::
  "('d, 'm) env_scheme \<Rightarrow> 'd \<Rightarrow> ((string \<times> u32) list \<times> (u32 \<times> string) list \<times> u32) res" where
  "load_predicates E d =
    rbind (db_scan E d cf_META META_PRED_PREFIX) (\<lambda>items.
    rbind (rfold (\<lambda>(k, v) (fwd, rev).
        rbind (ok_or (from_utf8 (drop 2 k)) (KeyDecode ''predicate name is not UTF-8'')) (\<lambda>name.
        if length v \<noteq> 4 then Inl (KeyDecode (''bad predicate value for '' @ name))
        else let i = u32_from v in Inr (hm_insert name i fwd, hm_insert i name rev)))
      items ([], [])) (\<lambda>(fwd, rev).
    rbind (db_get E d cf_META META_PRED_CTR) (\<lambda>ctr.
    Inr (fwd, rev, case ctr of Some v \<Rightarrow> if length v = 4 then u32_from v else 1 | None \<Rightarrow> 1))))"

definition load_graphs ::
  "('d, 'm) env_scheme \<Rightarrow> 'd \<Rightarrow>
    ((string \<times> graph_id) list \<times> (graph_id \<times> string) list \<times> u32) res" where
  "load_graphs E d =
    rbind (db_scan E d cf_META META_GRAPH_PREFIX) (\<lambda>items.
    rbind (rfold (\<lambda>(k, v) (fwd, rev).
        rbind (ok_or (from_utf8 (drop (length META_GRAPH_PREFIX) k))
          (KeyDecode ''graph IRI is not UTF-8'')) (\<lambda>iri.
        if length v \<noteq> 4 then Inl (KeyDecode (''bad graph id for '' @ iri))
        else let g = GraphId (u32_from v) in Inr (hm_insert iri g fwd, hm_insert g iri rev)))
      items ([], [])) (\<lambda>(fwd, rev).
    rbind (db_get E d cf_META META_GRAPH_CTR) (\<lambda>ctr.
    Inr (fwd, rev, case ctr of Some v \<Rightarrow> if length v = 4 then u32_from v else 1 | None \<Rightarrow> 1))))"

definition load_oracle_ts :: "('d, 'm) env_scheme \<Rightarrow> 'd \<Rightarrow> timestamp res" where
  "load_oracle_ts E d =
    rbind (db_get E d cf_META META_ORACLE_CTR) (\<lambda>v.
    Inr (case v of Some b \<Rightarrow> if length b = 8 then ts_from_bytes b else Timestamp 0
         | None \<Rightarrow> Timestamp 0))"


section \<open>The persisted tables\<close>

text \<open>
  \<open>table_ok\<close>: the two maps of an interner are inverse to each other, META holds exactly the entries
  of the forward map, and no id at or above the persisted counter is in use. Ids start at 1.
\<close>

definition table_ok ::
  "('i \<Rightarrow> u32) \<Rightarrow> bytes \<Rightarrow> bytes \<Rightarrow> (bytes \<Rightarrow> bytes option) \<Rightarrow>
    (string \<times> 'i) list \<Rightarrow> ('i \<times> string) list \<Rightarrow> u32 \<Rightarrow> bool" where
  "table_ok num pfx ctr m fwd rv nxt \<longleftrightarrow>
    1 \<le> nxt \<and>
    (\<forall>n i. hm_get fwd n = Some i \<longleftrightarrow> hm_get rv i = Some n) \<and>
    (\<forall>n. m (pfx @ as_bytes n) = map_option (\<lambda>i. be_bytes 4 (num i)) (hm_get fwd n)) \<and>
    (\<forall>n i. hm_get fwd n = Some i \<longrightarrow> is_utf8 n \<and> 1 \<le> num i \<and> num i < nxt) \<and>
    (case m ctr of None \<Rightarrow> (\<forall>n. hm_get fwd n = None)
     | Some v \<Rightarrow> \<exists>c. v = be_bytes 4 c \<and> 1 \<le> c \<and> c \<le> nxt \<and>
         (\<forall>n i. hm_get fwd n = Some i \<longrightarrow> num i < c))"

lemma table_inject:
  "table_ok num pfx ctr m fwd rv nxt \<Longrightarrow> hm_get fwd n = Some i \<Longrightarrow> hm_get fwd n' = Some i \<Longrightarrow> n = n'"
  by (auto simp: table_ok_def)

lemma word_less_succ:
  assumes "n \<noteq> - 1" and "(a :: u32) \<le> n"
  shows "a < n + 1"
proof -
  have "1 + n \<noteq> 0" using assms(1) by (simp add: add_eq_0_iff)
  then have "unat (n + 1) = Suc (unat n)" using unatSuc [of n] by (simp add: add.commute)
  with assms(2) show ?thesis by (simp add: word_less_nat_alt word_le_nat_alt)
qed

lemma table_insert:
  assumes "table_ok num pfx ctr m fwd rv nxt" and "hm_get fwd n = None" and "is_utf8 n"
    and "nxt \<noteq> - 1" and "num i = nxt" and "inj num"
    and "\<And>n'. m' (pfx @ as_bytes n') = (if n' = n then Some (be_bytes 4 nxt) else m (pfx @ as_bytes n'))"
    and "m' ctr = Some (be_bytes 4 (nxt + 1))"
  shows "table_ok num pfx ctr m' (hm_insert n i fwd) (hm_insert i n rv) (nxt + 1)"
proof -
  note ok = assms(1) [unfolded table_ok_def]
  have fresh: "hm_get rv i = None"
  proof (rule ccontr)
    assume "hm_get rv i \<noteq> None"
    then obtain n' where "hm_get fwd n' = Some i" using ok by auto
    with ok have "num i < nxt" by blast
    with assms(5) show False by simp
  qed
  have new: "hm_get rv j \<noteq> Some n" for j using ok assms(2) by (metis option.distinct(1))
  have below: "num j < nxt + 1" if "hm_get fwd n' = Some j" for n' j
    using ok that assms(4) by (meson word_less_succ order_less_imp_le)
  have "1 \<le> nxt + 1" using ok assms(4) word_less_succ [of nxt 1] by auto
  moreover have "nxt < nxt + 1" using word_less_succ [of nxt nxt] assms(4) by simp
  ultimately show ?thesis
    using ok assms(2,3,5,7,8) fresh new below
    unfolding table_ok_def
    by (auto simp: hm_get_insert split: if_splits)
qed

text \<open>Loading a persisted table gives its forward and reverse maps back.\<close>

lemma load_fold:
  assumes step: "\<And>n i f r. is_utf8 n \<Longrightarrow>
      F (pfx @ as_bytes n, be_bytes 4 (num i)) (f, r) = Inr (hm_insert n i f, hm_insert i n r)"
    and items: "\<And>k v. (k, v) \<in> set xs \<Longrightarrow>
      \<exists>n i. k = pfx @ as_bytes n \<and> v = be_bytes 4 (num i) \<and> is_utf8 n \<and> T n = Some i"
    and inj: "\<And>n n' i. T n = Some i \<Longrightarrow> T n' = Some i \<Longrightarrow> n = n'"
  shows "\<exists>f r. rfold F xs ([], []) = Inr (f, r) \<and>
    (\<forall>n. hm_get f n = (if pfx @ as_bytes n \<in> fst ` set xs then T n else None)) \<and>
    (\<forall>i n. hm_get r i = Some n \<longleftrightarrow> T n = Some i \<and> pfx @ as_bytes n \<in> fst ` set xs)"
  using items
proof (induction xs rule: rev_induct)
  case (snoc x xs)
  obtain k v where x: "x = (k, v)" by (cases x)
  obtain n i where ni: "k = pfx @ as_bytes n" "v = be_bytes 4 (num i)" "is_utf8 n" "T n = Some i"
    using snoc.prems [of k v] x by auto
  obtain f r where fr: "rfold F xs ([], []) = Inr (f, r)"
    "\<And>n. hm_get f n = (if pfx @ as_bytes n \<in> fst ` set xs then T n else None)"
    "\<And>i n. hm_get r i = Some n \<longleftrightarrow> T n = Some i \<and> pfx @ as_bytes n \<in> fst ` set xs"
    using snoc by auto
  have "rfold F (xs @ [x]) ([], []) = Inr (hm_insert n i f, hm_insert i n r)"
    by (simp add: rfold_append fr(1) x ni step)
  moreover have "hm_get (hm_insert i n r) j = Some n' \<longleftrightarrow>
      T n' = Some j \<and> pfx @ as_bytes n' \<in> fst ` set (xs @ [x])" for j n'
    using inj [of n i n'] ni(4) by (auto simp: hm_get_insert fr(3) x ni(1))
  ultimately show ?case by (simp add: hm_get_insert fr(2) x ni)
qed simp


section \<open>Keys of META\<close>

lemma meta_consts:
  "META_PRED_PREFIX = [0x70, 0x2F]" "META_GRAPH_PREFIX = [0x67, 0x2F]"
  "META_GRAPH_REV_PREFIX = [0x67, 0x69, 0x64, 0x2F]"
  "as_bytes ''pid/'' = [0x70, 0x69, 0x64, 0x2F]"
  "META_PRED_CTR = 0x5F # 0x5F # 0x70 # as_bytes ''red_ctr''"
  "META_GRAPH_CTR = 0x5F # 0x5F # 0x67 # as_bytes ''raph_ctr''"
  "META_ORACLE_CTR = 0x5F # 0x5F # 0x6F # as_bytes ''racle_ctr''"
  by (simp_all add: META_PRED_PREFIX_def META_GRAPH_PREFIX_def META_GRAPH_REV_PREFIX_def
      META_PRED_CTR_def META_GRAPH_CTR_def META_ORACLE_CTR_def as_bytes_def char_byte_def)

lemmas meta_key_simps = meta_forward_key_def meta_reverse_key_def meta_graph_key_def
  meta_graph_rev_key_def meta_consts

definition pred_table_ok :: "('d, 'm) env_scheme \<Rightarrow> 'd store \<Rightarrow> bool" where
  "pred_table_ok E st \<longleftrightarrow>
    table_ok id META_PRED_PREFIX META_PRED_CTR (view E (st_db st) cf_META)
      (st_fwd st) (st_rev st) (st_next_pred st)"

definition graph_table_ok :: "('d, 'm) env_scheme \<Rightarrow> 'd store \<Rightarrow> bool" where
  "graph_table_ok E st \<longleftrightarrow>
    table_ok graph_num META_GRAPH_PREFIX META_GRAPH_CTR (view E (st_db st) cf_META)
      (st_graph_fwd st) (st_graph_rev st) (st_next_graph st) \<and>
    (\<forall>g iri. hm_get (st_graph_rev st) g = Some iri \<longrightarrow>
      hm_get (st_graph_by_node st) (iri_to_node_id E iri) \<noteq> None) \<and>
    (\<forall>n g. hm_get (st_graph_by_node st) n = Some g \<longrightarrow>
      (\<exists>iri. hm_get (st_graph_rev st) g = Some iri \<and> iri_to_node_id E iri = n))"

text \<open>Every entry of the dictionary is filed under the node its IRI names.\<close>

definition dict_ok :: "'m ext_scheme \<Rightarrow> contents \<Rightarrow> bool" where
  "dict_ok X m \<longleftrightarrow>
    (\<forall>k b. m cf_IRI k = Some b \<longrightarrow>
      (\<exists>iri. k = node_bytes (iri_to_node_id X iri) \<and> b = as_bytes iri \<and> is_utf8 iri \<and>
        needs_dictionary X iri))"

lemma table_ok_cong:
  assumes "table_ok num pfx ctr m fwd rv nxt"
    and "\<And>n. m' (pfx @ as_bytes n) = m (pfx @ as_bytes n)" and "m' ctr = m ctr" and "nxt \<le> nxt'"
  shows "table_ok num pfx ctr m' fwd rv nxt'"
proof -
  note ok = assms(1) [unfolded table_ok_def]
  have "1 \<le> nxt'" using ok assms(4) order_trans by blast
  moreover have "num i < nxt'" if "hm_get fwd n = Some i" for n i
    using ok that assms(4) order_less_le_trans by blast
  moreover have "c \<le> nxt \<Longrightarrow> c \<le> nxt'" for c
    by (rule order_trans [OF _ assms(4)])
  ultimately show ?thesis
    using ok unfolding table_ok_def assms(2,3)
    by (simp split: option.splits) blast
qed

text \<open>Interning keeps the tables; it returns the id it made persistent.\<close>

context kv_engine
begin

lemma intern_predicate_cases:
  assumes "intern_predicate E pred st = (r, st')"
  obtains (known) i where "hm_get (st_fwd st) (canonical_name st pred) = Some i"
      "r = Inr i" "st' = st"
  | (replica) "hm_get (st_fwd st) (canonical_name st pred) = None" "is_replica st"
      "r = Inl read_only_err" "st' = st"
  | (new) d' where "hm_get (st_fwd st) (canonical_name st pred) = None" "\<not> is_replica st"
      "r = Inr (st_next_pred st)"
      "st' = st\<lparr>st_next_pred := st_next_pred st + 1, st_db := d',
        st_fwd := hm_insert (canonical_name st pred) (st_next_pred st) (st_fwd st),
        st_rev := hm_insert (st_next_pred st) (canonical_name st pred) (st_rev st)\<rparr>"
      "view E d' = apply_batch
        [Put cf_META (meta_forward_key (canonical_name st pred)) (be_bytes 4 (st_next_pred st)),
         Put cf_META (meta_reverse_key (st_next_pred st)) (as_bytes (canonical_name st pred)),
         Put cf_META META_PRED_CTR (be_bytes 4 (st_next_pred st + 1))] (view E (st_db st))"
proof (cases "hm_get (st_fwd st) (canonical_name st pred)")
  case (Some i)
  with assms show thesis by (intro known) (auto simp: intern_predicate_def Let_def)
next
  case None
  show thesis
  proof (cases "is_replica st")
    case True
    with None assms show thesis by (intro replica) (auto simp: intern_predicate_def Let_def)
  next
    case False
    let ?ops = "[Put cf_META (meta_forward_key (canonical_name st pred)) (be_bytes 4 (st_next_pred st)),
         Put cf_META (meta_reverse_key (st_next_pred st)) (as_bytes (canonical_name st pred)),
         Put cf_META META_PRED_CTR (be_bytes 4 (st_next_pred st + 1))]"
    let ?st1 = "st\<lparr>st_next_pred := st_next_pred st + 1\<rparr>"
    obtain d' where w: "raw_write E ?ops ?st1 = (Inr (), ?st1\<lparr>st_db := d'\<rparr>)"
      "view E d' = apply_batch ?ops (view E (st_db ?st1))"
      using raw_writeE [of ?ops ?st1] by metis
    have "cf_handle E cf_META ?st1 = Inr ()" by (rule cf_handle_ok) (simp add: cf_ALL_def)
    with assms None False w(1) have "r = Inr (st_next_pred st)"
      "st' = st\<lparr>st_next_pred := st_next_pred st + 1, st_db := d',
        st_fwd := hm_insert (canonical_name st pred) (st_next_pred st) (st_fwd st),
        st_rev := hm_insert (st_next_pred st) (canonical_name st pred) (st_rev st)\<rparr>"
      by (auto simp: intern_predicate_def Let_def sbind_def slift_def)
    with None False w(2) show thesis by (intro new) auto
  qed
qed

lemma intern_predicate_ok:
  assumes "pred_table_ok E st" and "is_utf8 (canonical_name st pred)" and "st_next_pred st \<noteq> - 1"
    and "intern_predicate E pred st = (r, st')"
  shows "pred_table_ok E st'"
  using assms(4)
proof (cases rule: intern_predicate_cases)
  case (new d')
  have "table_ok id META_PRED_PREFIX META_PRED_CTR (view E d' cf_META)
    (hm_insert (canonical_name st pred) (st_next_pred st) (st_fwd st))
    (hm_insert (st_next_pred st) (canonical_name st pred) (st_rev st)) (st_next_pred st + 1)"
    by (rule table_insert [OF assms(1) [unfolded pred_table_ok_def] new(1) assms(2,3)])
      (auto simp: new(5) meta_key_simps)
  then show ?thesis by (simp add: pred_table_ok_def new(4))
qed (use assms(1) in simp_all)

text \<open>Everything but the predicate table is left alone.\<close>

lemma intern_predicate_frame:
  assumes "intern_predicate E pred st = (r, st')"
  shows "st_graph_fwd st' = st_graph_fwd st" "st_graph_rev st' = st_graph_rev st"
    "st_graph_by_node st' = st_graph_by_node st" "st_next_graph st' = st_next_graph st"
    "st_committed st' = st_committed st" "st_inline_max st' = st_inline_max st"
    "st_mode st' = st_mode st" "st_commits st' = st_commits st" "st_vocab st' = st_vocab st"
    "st_canonical st' = st_canonical st"
    and "cf \<noteq> cf_META \<Longrightarrow> view E (st_db st') cf = view E (st_db st) cf"
    and "\<not> prefix META_PRED_PREFIX k \<Longrightarrow> \<not> prefix (as_bytes ''pid/'') k \<Longrightarrow> k \<noteq> META_PRED_CTR \<Longrightarrow>
      view E (st_db st') cf_META k = view E (st_db st) cf_META k"
  using assms by (cases rule: intern_predicate_cases; auto simp: meta_key_simps fun_upd_def)+

lemma intern_predicate_graphs:
  assumes "graph_table_ok E st" and "intern_predicate E pred st = (r, st')"
  shows "graph_table_ok E st'"
proof -
  note fr = intern_predicate_frame [OF assms(2)]
  have "view E (st_db st') cf_META (META_GRAPH_PREFIX @ as_bytes n)
      = view E (st_db st) cf_META (META_GRAPH_PREFIX @ as_bytes n)" for n
    by (rule fr(12)) (simp_all add: meta_consts)
  moreover have "view E (st_db st') cf_META META_GRAPH_CTR = view E (st_db st) cf_META META_GRAPH_CTR"
    by (rule fr(12)) (simp_all add: meta_consts)
  ultimately show ?thesis
    using assms(1) unfolding graph_table_ok_def fr(1-4)
    by (auto intro: table_ok_cong)
qed

lemma intern_predicate_lookup:
  assumes "intern_predicate E pred st = (Inr i, st')"
  shows "hm_get (st_fwd st') (canonical_name st' pred) = Some i"
    and "hm_get (st_fwd st) n = Some j \<Longrightarrow> hm_get (st_fwd st') n = Some j"
    and "intern_predicate E pred st' = (Inr i, st')"
proof -
  have cn: "canonical_name st' p = canonical_name st p" for p
    by (simp add: canonical_name_def intern_predicate_frame [OF assms])
  show *: "hm_get (st_fwd st') (canonical_name st' pred) = Some i"
    using assms unfolding cn by (cases rule: intern_predicate_cases) (auto simp: hm_get_insert)
  show "hm_get (st_fwd st) n = Some j \<Longrightarrow> hm_get (st_fwd st') n = Some j"
    using assms by (cases rule: intern_predicate_cases) (auto simp: hm_get_insert)
  show "intern_predicate E pred st' = (Inr i, st')"
    by (simp add: intern_predicate_def Let_def *)
qed

end


section \<open>The dictionary\<close>

text \<open>
  \<open>dict_batch E m b0 (b, p)\<close>: \<open>b\<close> is \<open>b0\<close> followed by dictionary entries, and reading a node through
  them is reading it in \<open>p\<close> first and then in the store.
\<close>

definition dict_puts :: "'m ext_scheme \<Rightarrow> batch_op list \<Rightarrow> bool" where
  "dict_puts X puts \<longleftrightarrow>
    (\<forall>op\<in>set puts. \<exists>iri. op = Put cf_IRI (node_bytes (iri_to_node_id X iri)) (as_bytes iri) \<and>
      is_utf8 iri \<and> needs_dictionary X iri)"

definition dict_batch :: "'m ext_scheme \<Rightarrow> contents \<Rightarrow> batch_op list \<Rightarrow> iri_batch \<Rightarrow> bool" where
  "dict_batch X m b0 bp \<longleftrightarrow>
    (\<exists>puts. fst bp = b0 @ puts \<and> dict_puts X puts \<and>
      (\<forall>n. apply_batch puts m cf_IRI (node_bytes n) =
        (case hm_get (snd bp) n of Some i \<Rightarrow> Some (as_bytes i) | None \<Rightarrow> m cf_IRI (node_bytes n))))"

lemma dict_puts_frame:
  "dict_puts X puts \<Longrightarrow> cf \<noteq> cf_IRI \<Longrightarrow> apply_batch puts m cf = m cf"
proof (induction puts arbitrary: m)
  case (Cons op puts)
  then show ?case by (auto simp: dict_puts_def)
qed simp

lemma dict_puts_ok: "dict_puts X puts \<Longrightarrow> dict_ok X m \<Longrightarrow> dict_ok X (apply_batch puts m)"
proof (induction puts arbitrary: m)
  case (Cons op puts)
  from Cons.prems(1) obtain iri where
    "op = Put cf_IRI (node_bytes (iri_to_node_id X iri)) (as_bytes iri)" "is_utf8 iri"
    "needs_dictionary X iri"
    by (auto simp: dict_puts_def)
  with Cons.prems(2) have "dict_ok X (apply_op op m)" by (auto simp: dict_ok_def)
  moreover have "dict_puts X puts" using Cons.prems(1) by (simp add: dict_puts_def)
  ultimately show ?case using Cons.IH by simp
qed simp

lemma dict_batch_start: "dict_batch X m b0 (b0, [])"
  by (simp add: dict_batch_def dict_puts_def)

definition dict_entry :: "contents \<Rightarrow> (node_id \<times> string) list \<Rightarrow> node_id \<Rightarrow> string option" where
  "dict_entry m p n =
    (case hm_get p n of Some i \<Rightarrow> Some i | None \<Rightarrow> map_option bytes_str (m cf_IRI (node_bytes n)))"

context kv_engine
begin

lemma iri_of_ok:
  assumes "dict_ok E (view E (st_db st))"
  shows "iri_of E n st = Inr (map_option bytes_str (view E (st_db st) cf_IRI (node_bytes n)))"
proof (cases "view E (st_db st) cf_IRI (node_bytes n)")
  case None
  then show ?thesis by (simp add: iri_of_def db_get_ok cf_ALL_def)
next
  case (Some b)
  with assms obtain iri where "b = as_bytes iri" "is_utf8 iri" by (auto simp: dict_ok_def)
  with Some show ?thesis by (simp add: iri_of_def db_get_ok cf_ALL_def decode_iri_def)
qed

lemma batch_iri_eq:
  assumes "dict_ok E (view E (st_db st))"
  shows "batch_iri E st iri (b, p) =
    (if \<not> needs_dictionary E iri then Inr (b, p)
     else let n = iri_to_node_id E iri in
       case dict_entry (view E (st_db st)) p n of
         Some e \<Rightarrow> if e = iri then Inr (b, p) else Inl (IriCollision n e iri)
       | None \<Rightarrow> Inr (b @ [Put cf_IRI (node_bytes n) (as_bytes iri)], hm_insert n iri p))"
proof -
  have "cf_handle E cf_IRI st = Inr ()" by (rule cf_handle_ok) (simp add: cf_ALL_def)
  then show ?thesis
    by (auto simp: batch_iri_def Let_def dict_entry_def iri_of_ok [OF assms] split: option.splits)
qed

lemma batch_iri_step:
  assumes "dict_ok E (view E (st_db st))" and "dict_batch E (view E (st_db st)) b0 (b, p)"
    and "is_utf8 iri" and "batch_iri E st iri (b, p) = Inr (b', p')"
  shows "dict_batch E (view E (st_db st)) b0 (b', p')"
    and "needs_dictionary E iri \<Longrightarrow>
      dict_entry (view E (st_db st)) p' (iri_to_node_id E iri) = Some iri"
    and "dict_entry (view E (st_db st)) p n = Some e \<Longrightarrow>
      dict_entry (view E (st_db st)) p' n = Some e"
proof -
  let ?m = "view E (st_db st)" and ?n = "iri_to_node_id E iri"
  note eq = assms(4) [unfolded batch_iri_eq [OF assms(1)]]
  show "dict_batch E ?m b0 (b', p')"
  proof (cases "needs_dictionary E iri \<and> dict_entry ?m p ?n = None")
    case False
    with eq assms(2) show ?thesis by (auto simp: Let_def split: option.splits if_splits)
  next
    case True
    then have new: "b' = b @ [Put cf_IRI (node_bytes ?n) (as_bytes iri)]" "p' = hm_insert ?n iri p"
      using eq by (auto simp: Let_def)
    obtain puts where puts: "b = b0 @ puts" "dict_puts E puts"
      "\<And>n. apply_batch puts ?m cf_IRI (node_bytes n) =
        (case hm_get p n of Some i \<Rightarrow> Some (as_bytes i) | None \<Rightarrow> ?m cf_IRI (node_bytes n))"
      using assms(2) by (auto simp: dict_batch_def)
    show ?thesis
      unfolding dict_batch_def new
      by (rule exI [of _ "puts @ [Put cf_IRI (node_bytes ?n) (as_bytes iri)]"])
        (use puts assms(3) True in \<open>auto simp: dict_puts_def hm_get_insert\<close>)
  qed
  show "needs_dictionary E iri \<Longrightarrow> dict_entry ?m p' ?n = Some iri"
    using eq by (auto simp: Let_def dict_entry_def hm_get_insert split: option.splits if_splits)
  show "dict_entry ?m p n = Some e \<Longrightarrow> dict_entry ?m p' n = Some e"
    using eq by (auto simp: Let_def dict_entry_def hm_get_insert split: option.splits if_splits)
qed

lemma batch_iris_ok:
  assumes "dict_ok E (view E (st_db st))" and "dict_batch E (view E (st_db st)) b0 (b, p)"
    and "\<forall>iri\<in>set iris. is_utf8 iri" and "rfold (batch_iri E st) iris (b, p) = Inr (b', p')"
  shows "dict_batch E (view E (st_db st)) b0 (b', p') \<and>
    (\<forall>iri\<in>set iris. needs_dictionary E iri \<longrightarrow>
      dict_entry (view E (st_db st)) p' (iri_to_node_id E iri) = Some iri) \<and>
    (\<forall>n e. dict_entry (view E (st_db st)) p n = Some e \<longrightarrow>
      dict_entry (view E (st_db st)) p' n = Some e)"
  using assms(2-4)
proof (induction iris arbitrary: b p)
  case (Cons iri iris)
  from Cons.prems(3) obtain b1 p1 where st: "batch_iri E st iri (b, p) = Inr (b1, p1)"
    "rfold (batch_iri E st) iris (b1, p1) = Inr (b', p')" by auto
  note step = batch_iri_step [OF assms(1) Cons.prems(1) _ st(1)]
  have "is_utf8 iri" using Cons.prems(2) by simp
  from Cons.IH [OF step(1) [OF this] _ st(2)] step(2,3) [OF this] Cons.prems(2)
  show ?case by auto
qed simp

lemma dict_batch_view:
  assumes "dict_ok E m" and "dict_batch E m b0 (b, p)" and "\<And>k. apply_batch b0 m cf_IRI k = m cf_IRI k"
    and "dict_entry m p n = Some e"
  shows "apply_batch b m cf_IRI (node_bytes n) = Some (as_bytes e)"
proof -
  obtain puts where puts: "b = b0 @ puts" "dict_puts E puts"
    "\<And>n. apply_batch puts m cf_IRI (node_bytes n) =
      (case hm_get p n of Some i \<Rightarrow> Some (as_bytes i) | None \<Rightarrow> m cf_IRI (node_bytes n))"
    using assms(2) by (auto simp: dict_batch_def)
  have "apply_batch b m cf_IRI (node_bytes n) = apply_batch puts m cf_IRI (node_bytes n)"
    using apply_batch_local [of "apply_batch b0 m" cf_IRI m puts] assms(3) by (simp add: puts(1) ext)
  with puts(3) assms(1,4) show ?thesis
    by (fastforce simp: dict_entry_def dict_ok_def split: option.splits)
qed

lemma bind_iris_ok:
  assumes "dict_ok E (view E (st_db st))" and "\<forall>iri\<in>set iris. is_utf8 iri"
    and "bind_iris E iris st = (r, st')"
  shows "case r of Inl e \<Rightarrow> st' = st
    | Inr _ \<Rightarrow> dict_ok E (view E (st_db st')) \<and>
        (\<forall>iri\<in>set iris. needs_dictionary E iri \<longrightarrow>
          iri_of E (iri_to_node_id E iri) st' = Inr (Some iri)) \<and>
        (\<forall>n e. iri_of E n st = Inr (Some e) \<longrightarrow> iri_of E n st' = Inr (Some e))"
proof (cases "is_replica st")
  case True
  with assms(3) show ?thesis by (auto simp: bind_iris_def)
next
  case False
  show ?thesis
  proof (cases "rfold (batch_iri E st) iris ([], [])")
    case (Inl e)
    with False assms(3) show ?thesis by (auto simp: bind_iris_def)
  next
    case (Inr bp)
    obtain b p where bp: "bp = (b, p)" by (cases bp)
    let ?m = "view E (st_db st)"
    note all = batch_iris_ok [OF assms(1) dict_batch_start assms(2) Inr [unfolded bp]]
    then obtain puts where puts: "b = puts" "dict_puts E puts" by (auto simp: dict_batch_def)
    obtain d' where d: "raw_write E b st = (Inr (), st\<lparr>st_db := d'\<rparr>)"
      "view E d' = apply_batch b ?m"
      using raw_writeE [of b st] by metis
    have r: "r = Inr ()" "view E (st_db st') = apply_batch b ?m"
      using assms(3) False Inr bp d by (auto simp: bind_iris_def db_write_def split: if_splits)
    have ok: "dict_ok E (view E (st_db st'))"
      unfolding r(2) puts(1) by (rule dict_puts_ok [OF puts(2) assms(1)])
    have rd: "dict_entry ?m p n = Some e \<Longrightarrow> iri_of E n st' = Inr (Some e)" for n e
      using dict_batch_view [OF assms(1) conjunct1 [OF all]]
      by (simp add: iri_of_ok [OF ok] r(2))
    have "iri_of E n st = Inr (Some e) \<Longrightarrow> dict_entry ?m [] n = Some e" for n e
      by (simp add: iri_of_ok [OF assms(1)] dict_entry_def)
    then have old: "\<forall>n e. iri_of E n st = Inr (Some e) \<longrightarrow> iri_of E n st' = Inr (Some e)"
      using all rd by blast
    have "\<forall>iri\<in>set iris. needs_dictionary E iri \<longrightarrow>
      iri_of E (iri_to_node_id E iri) st' = Inr (Some iri)"
      using all rd by blast
    with old ok show ?thesis by (simp add: r(1))
  qed
qed


text \<open>Graph interning.\<close>

lemma intern_graph_cases:
  assumes "dict_ok E (view E (st_db st))" and "is_utf8 iri" and "intern_graph E iri st = (r, st')"
  obtains (known) g where "iri \<noteq> []" "hm_get (st_graph_fwd st) iri = Some g" "r = Inr g" "st' = st"
  | (failed) e where "iri = [] \<or> hm_get (st_graph_fwd st) iri = None" "r = Inl e"
      "st' = st \<or> st' = st\<lparr>st_next_graph := st_next_graph st + 1\<rparr>"
  | (new) d' where "iri \<noteq> []" "hm_get (st_graph_fwd st) iri = None" "\<not> is_replica st"
      "r = Inr (GraphId (st_next_graph st))"
      "st' = st\<lparr>st_next_graph := st_next_graph st + 1, st_db := d',
        st_graph_by_node := hm_insert (iri_to_node_id E iri) (GraphId (st_next_graph st))
          (st_graph_by_node st),
        st_graph_fwd := hm_insert iri (GraphId (st_next_graph st)) (st_graph_fwd st),
        st_graph_rev := hm_insert (GraphId (st_next_graph st)) iri (st_graph_rev st)\<rparr>"
      "view E d' cf_META = apply_batch
        [Put cf_META (meta_graph_key iri) (be_bytes 4 (st_next_graph st)),
         Put cf_META (meta_graph_rev_key (GraphId (st_next_graph st))) (as_bytes iri),
         Put cf_META META_GRAPH_CTR (be_bytes 4 (st_next_graph st + 1))] (view E (st_db st)) cf_META"
      "dict_ok E (view E d')"
      "needs_dictionary E iri \<Longrightarrow>
        view E d' cf_IRI (node_bytes (iri_to_node_id E iri)) = Some (as_bytes iri)"
      "\<And>cf. cf \<noteq> cf_META \<Longrightarrow> cf \<noteq> cf_IRI \<Longrightarrow> view E d' cf = view E (st_db st) cf"
proof (cases "iri = [] \<or> hm_get (st_graph_fwd st) iri \<noteq> None \<or> is_replica st")
  case True
  with assms(3) show thesis
    by (cases "iri = []"; cases "hm_get (st_graph_fwd st) iri")
      (auto simp: intern_graph_def Let_def intro: known failed)
next
  case False
  let ?g = "GraphId (st_next_graph st)"
  let ?st1 = "st\<lparr>st_next_graph := st_next_graph st + 1\<rparr>"
  let ?b0 = "[Put cf_META (meta_graph_key iri) (graph_bytes ?g),
    Put cf_META (meta_graph_rev_key ?g) (as_bytes iri),
    Put cf_META META_GRAPH_CTR (be_bytes 4 (st_next_graph st + 1))]"
  let ?m = "view E (st_db st)"
  have h: "cf_handle E cf_META ?st1 = Inr ()" by (rule cf_handle_ok) (simp add: cf_ALL_def)
  have ok1: "dict_ok E (view E (st_db ?st1))" using assms(1) by simp
  show thesis
  proof (cases "batch_iri E ?st1 iri (?b0, [])")
    case (Inl e)
    with False h assms(3) show thesis
      by (intro failed [of e]) (auto simp: intern_graph_def Let_def sbind_def slift_def)
  next
    case (Inr bp)
    obtain b p where bp: "bp = (b, p)" by (cases bp)
    have db: "dict_batch E ?m ?b0 (b, p)"
      using batch_iri_step(1) [OF ok1 dict_batch_start assms(2) Inr [unfolded bp]] by simp
    have de: "needs_dictionary E iri \<Longrightarrow> dict_entry ?m p (iri_to_node_id E iri) = Some iri"
      using batch_iri_step(2) [OF ok1 dict_batch_start assms(2) Inr [unfolded bp]] by simp
    have b0: "apply_batch ?b0 ?m cf_IRI k = ?m cf_IRI k" for k by (simp add: cf_defs)
    obtain puts where puts: "b = ?b0 @ puts" "dict_puts E puts" using db by (auto simp: dict_batch_def)
    obtain d' where d: "raw_write E b ?st1 = (Inr (), ?st1\<lparr>st_db := d'\<rparr>)"
      "view E d' = apply_batch b (view E (st_db ?st1))"
      using raw_writeE [of b ?st1] by metis
    have v: "view E d' = apply_batch puts (apply_batch ?b0 ?m)"
      using d(2) puts(1) by simp
    show thesis
    proof (rule new)
      show "r = Inr ?g" "st' = st\<lparr>st_next_graph := st_next_graph st + 1, st_db := d',
        st_graph_by_node := hm_insert (iri_to_node_id E iri) ?g (st_graph_by_node st),
        st_graph_fwd := hm_insert iri ?g (st_graph_fwd st),
        st_graph_rev := hm_insert ?g iri (st_graph_rev st)\<rparr>"
        using assms(3) False h Inr bp d(1)
        by (auto simp: intern_graph_def Let_def sbind_def slift_def)
      have "dict_ok E (apply_batch ?b0 ?m)" using assms(1) b0 by (simp add: dict_ok_def cf_defs)
      then show "dict_ok E (view E d')" unfolding v by (rule dict_puts_ok [OF puts(2)])
      show "view E d' cf_IRI (node_bytes (iri_to_node_id E iri)) = Some (as_bytes iri)"
        if "needs_dictionary E iri"
        using dict_batch_view [OF assms(1) db b0 de [OF that]] d(2) by simp
      show "view E d' cf = ?m cf" if "cf \<noteq> cf_META" "cf \<noteq> cf_IRI" for cf
        unfolding v using dict_puts_frame [OF puts(2) that(2)] that(1) by (simp add: fun_upd_def)
      show "view E d' cf_META = apply_batch
        [Put cf_META (meta_graph_key iri) (be_bytes 4 (st_next_graph st)),
         Put cf_META (meta_graph_rev_key ?g) (as_bytes iri),
         Put cf_META META_GRAPH_CTR (be_bytes 4 (st_next_graph st + 1))] ?m cf_META"
        unfolding v using dict_puts_frame [OF puts(2), of cf_META]
        by (simp add: cf_defs graph_bytes_def fun_upd_def)
    qed (use False in auto)
  qed
qed

lemma graph_table_next:
  assumes "graph_table_ok E st" and "st_next_graph st \<noteq> - 1"
  shows "graph_table_ok E (st\<lparr>st_next_graph := st_next_graph st + 1\<rparr>)"
proof -
  have "st_next_graph st \<le> st_next_graph st + 1"
    using word_less_succ [OF assms(2), of "st_next_graph st"] by simp
  with assms(1) show ?thesis
    unfolding graph_table_ok_def by (auto intro: table_ok_cong)
qed

lemma intern_graph_ok:
  assumes "graph_table_ok E st" and "dict_ok E (view E (st_db st))" and "is_utf8 iri"
    and "st_next_graph st \<noteq> - 1" and "intern_graph E iri st = (r, st')"
  shows "graph_table_ok E st'" and "dict_ok E (view E (st_db st'))"
proof -
  have "graph_table_ok E st' \<and> dict_ok E (view E (st_db st'))"
    using assms(2,3,5)
  proof (cases rule: intern_graph_cases)
    case known
    with assms(1,2) show ?thesis by simp
  next
    case failed
    with assms(1,2) graph_table_next [OF assms(1,4)] show ?thesis by auto
  next
    case (new d')
    have tab: "table_ok graph_num META_GRAPH_PREFIX META_GRAPH_CTR (view E (st_db st) cf_META)
        (st_graph_fwd st) (st_graph_rev st) (st_next_graph st)"
      and nodes: "\<And>g iri. hm_get (st_graph_rev st) g = Some iri \<Longrightarrow>
          hm_get (st_graph_by_node st) (iri_to_node_id E iri) \<noteq> None"
        "\<And>n g. hm_get (st_graph_by_node st) n = Some g \<Longrightarrow>
          \<exists>iri. hm_get (st_graph_rev st) g = Some iri \<and> iri_to_node_id E iri = n"
      using assms(1) by (auto simp: graph_table_ok_def)
    let ?g = "GraphId (st_next_graph st)"
    have "table_ok graph_num META_GRAPH_PREFIX META_GRAPH_CTR (view E d' cf_META)
        (hm_insert iri ?g (st_graph_fwd st)) (hm_insert ?g iri (st_graph_rev st)) (st_next_graph st + 1)"
      by (rule table_insert [OF tab new(2) assms(3,4)])
        (auto simp: new(6) meta_key_simps inj_on_def intro: graph_id.expand)
    moreover have fresh: "hm_get (st_graph_rev st) ?g = None"
    proof (rule ccontr)
      assume "hm_get (st_graph_rev st) ?g \<noteq> None"
      then obtain iri' where "hm_get (st_graph_rev st) ?g = Some iri'" by auto
      then have "hm_get (st_graph_fwd st) iri' = Some ?g" using tab by (simp add: table_ok_def)
      then have "graph_num ?g < st_next_graph st" using tab unfolding table_ok_def by blast
      then show False by simp
    qed
    have a: "hm_get (st_graph_by_node st') (iri_to_node_id E i) \<noteq> None"
      if "hm_get (st_graph_rev st') g = Some i" for g i
      using that nodes(1) [of g i] by (auto simp: new(5) hm_get_insert split: if_splits)
    have b: "\<exists>i. hm_get (st_graph_rev st') g = Some i \<and> iri_to_node_id E i = n"
      if "hm_get (st_graph_by_node st') n = Some g" for n g
      using that nodes(2) [of n g] fresh by (auto simp: new(5) hm_get_insert split: if_splits)
    show ?thesis
      unfolding graph_table_ok_def
      by (intro conjI allI impI)
        (use calculation a b new(7) in \<open>auto simp: new(5)\<close>)
  qed
  then show "graph_table_ok E st'" "dict_ok E (view E (st_db st'))" by simp_all
qed

lemma intern_graph_preds:
  assumes "pred_table_ok E st" and "dict_ok E (view E (st_db st))" and "is_utf8 iri"
    and "intern_graph E iri st = (r, st')"
  shows "pred_table_ok E st'"
  using assms(2,3,4)
proof (cases rule: intern_graph_cases)
  case (new d')
  have "view E d' cf_META k = view E (st_db st) cf_META k"
    if "\<not> prefix META_GRAPH_PREFIX k" "\<not> prefix META_GRAPH_REV_PREFIX k" "k \<noteq> META_GRAPH_CTR" for k
    using that by (auto simp: new(6) meta_key_simps)
  then show ?thesis
    using assms(1) unfolding pred_table_ok_def new(5)
    by (auto simp: meta_consts intro: table_ok_cong)
qed (use assms(1) in \<open>auto simp: pred_table_ok_def\<close>)

lemma intern_graph_lookup:
  assumes "dict_ok E (view E (st_db st))" and "is_utf8 iri" and "intern_graph E iri st = (Inr g, st')"
  shows "graph_id_of st' iri = Some g"
    and "graph_id_of st n = Some h \<Longrightarrow> graph_id_of st' n = Some h"
    and "intern_graph E iri st' = (Inr g, st')"
proof -
  have *: "iri \<noteq> []" "hm_get (st_graph_fwd st') iri = Some g"
    "hm_get (st_graph_fwd st) n = Some h \<Longrightarrow> hm_get (st_graph_fwd st') n = Some h" for n h
    using assms by (cases rule: intern_graph_cases; auto simp: hm_get_insert)+
  then show "graph_id_of st' iri = Some g" "graph_id_of st n = Some h \<Longrightarrow> graph_id_of st' n = Some h"
    by (simp_all add: graph_id_of_def)
  show "intern_graph E iri st' = (Inr g, st')" using * by (simp add: intern_graph_def)
qed

text \<open>Reopening: the loaders give back the tables.\<close>

lemma load_tables:
  assumes tab: "table_ok num pfx ctr (view E d cf_META) fwd rv nxt"
    and step: "\<And>n i f r. is_utf8 n \<Longrightarrow>
      F (pfx @ as_bytes n, be_bytes 4 (num i)) (f, r) = Inr (hm_insert n i f, hm_insert i n r)"
    and keys: "\<And>k v. view E d cf_META k = Some v \<Longrightarrow> prefix pfx k \<Longrightarrow> \<exists>n. k = pfx @ as_bytes n"
  shows "\<exists>xs f r. db_scan E d cf_META pfx = Inr xs \<and> rfold F xs ([], []) = Inr (f, r) \<and>
    hm_get f = hm_get fwd \<and> hm_get r = hm_get rv"
proof -
  have "cf_META \<in> set cf_ALL" by (simp add: cf_ALL_def)
  then obtain xs where xs: "db_scan E d cf_META pfx = Inr xs"
    "\<And>k v. (k, v) \<in> set xs \<longleftrightarrow> view E d cf_META k = Some v \<and> prefix pfx k"
    by (metis db_scanE)
  have T: "\<And>n. view E d cf_META (pfx @ as_bytes n)
        = map_option (\<lambda>i. be_bytes 4 (num i)) (hm_get fwd n)"
    "\<And>n i. hm_get fwd n = Some i \<Longrightarrow> is_utf8 n"
    "\<And>n i. hm_get fwd n = Some i \<longleftrightarrow> hm_get rv i = Some n"
    using tab by (auto simp: table_ok_def)
  have "\<exists>f r. rfold F xs ([], []) = Inr (f, r) \<and>
    (\<forall>n. hm_get f n = (if pfx @ as_bytes n \<in> fst ` set xs then hm_get fwd n else None)) \<and>
    (\<forall>i n. hm_get r i = Some n \<longleftrightarrow> hm_get fwd n = Some i \<and> pfx @ as_bytes n \<in> fst ` set xs)"
  proof (rule load_fold [of F pfx num xs "hm_get fwd"])
    fix k v assume "(k, v) \<in> set xs"
    with xs(2) keys obtain n where "k = pfx @ as_bytes n" "view E d cf_META k = Some v" by metis
    with T(1,2) show "\<exists>n i. k = pfx @ as_bytes n \<and> v = be_bytes 4 (num i) \<and> is_utf8 n \<and>
        hm_get fwd n = Some i"
      by auto
  qed (use step table_inject [OF tab] in auto)
  then obtain f r where fr: "rfold F xs ([], []) = Inr (f, r)"
    "\<And>n. hm_get f n = (if pfx @ as_bytes n \<in> fst ` set xs then hm_get fwd n else None)"
    "\<And>i n. hm_get r i = Some n \<longleftrightarrow> hm_get fwd n = Some i \<and> pfx @ as_bytes n \<in> fst ` set xs"
    by auto
  have mem: "pfx @ as_bytes n \<in> fst ` set xs" if "hm_get fwd n = Some i" for n i
    using xs(2) T(1) [of n] that by force
  have "hm_get f n = hm_get fwd n" for n using mem [of n] by (cases "hm_get fwd n") (auto simp: fr(2))
  moreover have "hm_get r i = hm_get rv i" for i
    using fr(3) T(3) mem by (metis not_None_eq)
  ultimately show ?thesis using xs(1) fr(1) by (metis ext)
qed

lemma load_predicates_ok:
  assumes "pred_table_ok E st"
  shows "\<exists>f r c. load_predicates E (st_db st) = Inr (f, r, c) \<and>
    hm_get f = hm_get (st_fwd st) \<and> hm_get r = hm_get (st_rev st) \<and> c \<le> st_next_pred st \<and>
    table_ok id META_PRED_PREFIX META_PRED_CTR (view E (st_db st) cf_META) f r c"
proof -
  note tab = assms [unfolded pred_table_ok_def]
  let ?F = "\<lambda>(k, v) (fwd, rev).
        rbind (ok_or (from_utf8 (drop 2 k)) (KeyDecode ''predicate name is not UTF-8'')) (\<lambda>name.
        if length v \<noteq> 4 then Inl (KeyDecode (''bad predicate value for '' @ name))
        else let i = u32_from v in Inr (hm_insert name i fwd, hm_insert i name rev))"
  have "\<exists>xs f r. db_scan E (st_db st) cf_META META_PRED_PREFIX = Inr xs \<and>
    rfold ?F xs ([], []) = Inr (f, r) \<and> hm_get f = hm_get (st_fwd st) \<and> hm_get r = hm_get (st_rev st)"
  proof (rule load_tables [OF tab])
    show "\<And>n i f r. is_utf8 n \<Longrightarrow> ?F (META_PRED_PREFIX @ as_bytes n, be_bytes 4 (id i)) (f, r)
        = Inr (hm_insert n i f, hm_insert i n r)"
      by (simp add: meta_consts)
    show "\<And>k v. view E (st_db st) cf_META k = Some v \<Longrightarrow> prefix META_PRED_PREFIX k \<Longrightarrow>
        \<exists>n. k = META_PRED_PREFIX @ as_bytes n"
      by (metis as_bytes_bytes_str prefix_def)
  qed
  then obtain xs f r where xs: "db_scan E (st_db st) cf_META META_PRED_PREFIX = Inr xs"
    "rfold ?F xs ([], []) = Inr (f, r)" "hm_get f = hm_get (st_fwd st)"
    "hm_get r = hm_get (st_rev st)"
    by blast
  define c where "c = (case view E (st_db st) cf_META META_PRED_CTR of
    Some v \<Rightarrow> if length v = 4 then u32_from v else 1 | None \<Rightarrow> 1)"
  have "load_predicates E (st_db st) = Inr (f, r, c)"
    by (simp add: load_predicates_def xs(1,2) db_get_ok cf_ALL_def c_def)
  moreover have "c \<le> st_next_pred st \<and>
    table_ok id META_PRED_PREFIX META_PRED_CTR (view E (st_db st) cf_META) f r c"
    using tab unfolding table_ok_def xs(3,4) c_def by (fastforce split: option.splits)
  ultimately show ?thesis using xs(3,4) by blast
qed

lemma load_graphs_ok:
  assumes "graph_table_ok E st"
  shows "\<exists>f r c. load_graphs E (st_db st) = Inr (f, r, c) \<and>
    hm_get f = hm_get (st_graph_fwd st) \<and> hm_get r = hm_get (st_graph_rev st) \<and>
    c \<le> st_next_graph st \<and>
    table_ok graph_num META_GRAPH_PREFIX META_GRAPH_CTR (view E (st_db st) cf_META) f r c"
proof -
  have tab: "table_ok graph_num META_GRAPH_PREFIX META_GRAPH_CTR (view E (st_db st) cf_META)
        (st_graph_fwd st) (st_graph_rev st) (st_next_graph st)"
    using assms by (simp add: graph_table_ok_def)
  let ?F = "\<lambda>(k, v) (fwd, rev).
        rbind (ok_or (from_utf8 (drop (length META_GRAPH_PREFIX) k))
          (KeyDecode ''graph IRI is not UTF-8'')) (\<lambda>iri.
        if length v \<noteq> 4 then Inl (KeyDecode (''bad graph id for '' @ iri))
        else let g = GraphId (u32_from v) in Inr (hm_insert iri g fwd, hm_insert g iri rev))"
  have "\<exists>xs f r. db_scan E (st_db st) cf_META META_GRAPH_PREFIX = Inr xs \<and>
    rfold ?F xs ([], []) = Inr (f, r) \<and> hm_get f = hm_get (st_graph_fwd st) \<and>
    hm_get r = hm_get (st_graph_rev st)"
  proof (rule load_tables [OF tab])
    show "\<And>n i f r. is_utf8 n \<Longrightarrow> ?F (META_GRAPH_PREFIX @ as_bytes n, be_bytes 4 (graph_num i)) (f, r)
        = Inr (hm_insert n i f, hm_insert i n r)"
      by (simp add: meta_consts)
    show "\<And>k v. view E (st_db st) cf_META k = Some v \<Longrightarrow> prefix META_GRAPH_PREFIX k \<Longrightarrow>
        \<exists>n. k = META_GRAPH_PREFIX @ as_bytes n"
      by (metis as_bytes_bytes_str prefix_def)
  qed
  then obtain xs f r where xs: "db_scan E (st_db st) cf_META META_GRAPH_PREFIX = Inr xs"
    "rfold ?F xs ([], []) = Inr (f, r)" "hm_get f = hm_get (st_graph_fwd st)"
    "hm_get r = hm_get (st_graph_rev st)"
    by blast
  define c where "c = (case view E (st_db st) cf_META META_GRAPH_CTR of
    Some v \<Rightarrow> if length v = 4 then u32_from v else 1 | None \<Rightarrow> 1)"
  have "load_graphs E (st_db st) = Inr (f, r, c)"
    by (simp add: load_graphs_def xs(1,2) db_get_ok cf_ALL_def c_def)
  moreover have "c \<le> st_next_graph st \<and>
    table_ok graph_num META_GRAPH_PREFIX META_GRAPH_CTR (view E (st_db st) cf_META) f r c"
    using tab unfolding table_ok_def xs(3,4) c_def by (fastforce split: option.splits)
  ultimately show ?thesis using xs(3,4) by blast
qed

end


section \<open>The contract of an interner\<close>

text \<open>
  What predicate and graph interning have in common: \<open>room\<close> is the number of ids left, \<open>key\<close> the
  name stored for a name given.
\<close>

fun straverse :: "('x \<Rightarrow> ('s, 'a) op) \<Rightarrow> 'x list \<Rightarrow> ('s, 'a list) op" where
  "straverse f [] = sret []"
| "straverse f (x # xs) = sbind (f x) (\<lambda>y. sbind (straverse f xs) (\<lambda>ys. sret (y # ys)))"

locale interner =
  fixes ok :: "'s \<Rightarrow> bool" and usable :: "'s \<Rightarrow> string \<Rightarrow> bool" and room :: "'s \<Rightarrow> nat"
    and key :: "'s \<Rightarrow> string \<Rightarrow> string" and intern :: "string \<Rightarrow> ('s, 'i) op"
    and find :: "'s \<Rightarrow> string \<Rightarrow> 'i option"
  assumes keeps: "ok s \<Longrightarrow> usable s n \<Longrightarrow> 0 < room s \<Longrightarrow> intern n s = (Inr i, s') \<Longrightarrow>
      ok s' \<and> room s \<le> Suc (room s') \<and> key s' = key s \<and> usable s' = usable s"
    and found: "ok s \<Longrightarrow> usable s n \<Longrightarrow> intern n s = (Inr i, s') \<Longrightarrow> find s' n = Some i"
    and kept: "ok s \<Longrightarrow> usable s n \<Longrightarrow> intern n s = (Inr i, s') \<Longrightarrow> find s m = Some j \<Longrightarrow>
      find s' m = Some j"
    and inject: "ok s \<Longrightarrow> find s n = Some i \<Longrightarrow> find s m = Some i \<Longrightarrow> key s n = key s m"
    and same_key: "key s n = key s m \<Longrightarrow> find s n = find s m"
begin

lemma intern_all:
  assumes "ok s" and "\<forall>n\<in>set ns. usable s n" and "length ns \<le> room s"
    and "straverse intern ns s = (Inr ids, s')"
  shows "ok s' \<and> key s' = key s \<and> map (find s') ns = map Some ids \<and>
    (\<forall>m j. find s m = Some j \<longrightarrow> find s' m = Some j)"
  using assms
proof (induction ns arbitrary: s ids)
  case Nil
  then show ?case by (simp add: sret_def)
next
  case (Cons n ns)
  from Cons.prems(4) obtain i s1 js where
    one: "intern n s = (Inr i, s1)" and rest: "straverse intern ns s1 = (Inr js, s')"
    and ids: "ids = i # js"
    by (auto simp: sbind_Inr_iff sret_def)
  have n: "usable s n" "0 < room s" using Cons.prems(2,3) by auto
  note k = keeps [OF Cons.prems(1) n one]
  have "length ns \<le> room s1" using k Cons.prems(3) by simp
  moreover have "\<forall>n\<in>set ns. usable s1 n" using k Cons.prems(2) by simp
  ultimately have "ok s' \<and> key s' = key s1 \<and> map (find s') ns = map Some js \<and>
    (\<forall>m j. find s1 m = Some j \<longrightarrow> find s' m = Some j)"
    using Cons.IH [of s1 js] k rest by blast
  with k found [OF Cons.prems(1) n(1) one] kept [OF Cons.prems(1) n(1) one] show ?case
    by (auto simp: ids)
qed

text \<open>Within one run, two names get one id exactly when they are stored as one name.\<close>

lemma intern_all_inject:
  assumes "ok s" and "\<forall>n\<in>set ns. usable s n" and "length ns \<le> room s"
    and "straverse intern ns s = (Inr ids, s')" and "j < length ns" and "k < length ns"
  shows "ids ! j = ids ! k \<longleftrightarrow> key s (ns ! j) = key s (ns ! k)"
proof -
  note all = intern_all [OF assms(1-4)]
  then have len: "length ids = length ns" by (metis length_map)
  have at: "find s' (ns ! i) = Some (ids ! i)" if "i < length ns" for i
    using all that len by (metis nth_map)
  show ?thesis
  proof
    assume "ids ! j = ids ! k"
    then have "find s' (ns ! k) = Some (ids ! j)" using at [OF assms(6)] by simp
    then have "key s' (ns ! j) = key s' (ns ! k)"
      using inject at [OF assms(5)] all by blast
    with all show "key s (ns ! j) = key s (ns ! k)" by simp
  next
    assume "key s (ns ! j) = key s (ns ! k)"
    then have "find s' (ns ! j) = find s' (ns ! k)"
      using same_key [of s' "ns ! j" "ns ! k"] all by simp
    with at [OF assms(5)] at [OF assms(6)] show "ids ! j = ids ! k" by simp
  qed
qed

end

lemma predicate_id_eq: "predicate_id st pred = hm_get (st_fwd st) (canonical_name st pred)"
  by (simp add: predicate_id_def canonical_name_def canonical_predicate_def)

definition room_left :: "u32 \<Rightarrow> nat" where
  "room_left n = 2 ^ 32 - 1 - unat n"

lemma room_left_pos: "0 < room_left n \<longleftrightarrow> n \<noteq> - 1"
proof -
  have "unat (- 1 :: u32) = 2 ^ 32 - 1" by (simp add: unsigned_minus_1_eq_mask mask_eq_exp_minus_1)
  then have "n \<noteq> - 1 \<longleftrightarrow> unat n \<noteq> 2 ^ 32 - 1" by (metis unsigned_word_eqI)
  moreover have "unat n < 2 ^ 32" using unsigned_less [of n] by simp
  ultimately show ?thesis by (auto simp: room_left_def)
qed

lemma room_left_succ: "n \<noteq> - 1 \<Longrightarrow> room_left n = Suc (room_left (n + 1))"
  using room_left_pos [of n] unatSuc [of n] by (auto simp: room_left_def add.commute add_eq_0_iff)

sublocale kv_engine \<subseteq> preds: interner "pred_table_ok E"
    "\<lambda>st n. is_utf8 (canonical_name st n)" "\<lambda>st. room_left (st_next_pred st)"
    canonical_name "intern_predicate E" predicate_id
proof
  fix s n i s'
  assume a: "pred_table_ok E s" "is_utf8 (canonical_name s n)" "0 < room_left (st_next_pred s)"
    "intern_predicate E n s = (Inr i, s')"
  have "room_left (st_next_pred s) \<le> Suc (room_left (st_next_pred s'))"
    using a(4) a(3) room_left_succ [of "st_next_pred s"]
    by (cases rule: intern_predicate_cases) (simp_all add: room_left_pos)
  moreover have c: "canonical_name s' = canonical_name s"
    by (simp add: fun_eq_iff canonical_name_def intern_predicate_frame [OF a(4)])
  ultimately show "pred_table_ok E s' \<and> room_left (st_next_pred s) \<le> Suc (room_left (st_next_pred s')) \<and>
      canonical_name s' = canonical_name s \<and>
      (\<lambda>n. is_utf8 (canonical_name s' n)) = (\<lambda>n. is_utf8 (canonical_name s n))"
    using intern_predicate_ok [OF a(1,2) _ a(4)] a(3) by (simp add: room_left_pos)
next
  fix s n i s' m j
  assume a: "intern_predicate E n s = (Inr i, s')"
  have c: "canonical_name s' p = canonical_name s p" for p
    by (simp add: canonical_name_def intern_predicate_frame [OF a])
  show "predicate_id s' n = Some i"
    using intern_predicate_lookup(1) [OF a] by (simp add: predicate_id_eq)
  show "predicate_id s m = Some j \<Longrightarrow> predicate_id s' m = Some j"
    using intern_predicate_lookup(2) [OF a] by (simp add: predicate_id_eq c)
qed (auto simp: predicate_id_eq pred_table_ok_def dest: table_inject)

sublocale kv_engine \<subseteq> graphs: interner "\<lambda>st. graph_table_ok E st \<and> dict_ok E (view E (st_db st))"
    "\<lambda>_. is_utf8" "\<lambda>st. room_left (st_next_graph st)" "\<lambda>_ iri. iri" "intern_graph E" graph_id_of
proof
  fix s n i s'
  assume a: "graph_table_ok E s \<and> dict_ok E (view E (st_db s))" "is_utf8 n"
    "0 < room_left (st_next_graph s)" "intern_graph E n s = (Inr i, s')"
  have "room_left (st_next_graph s) \<le> Suc (room_left (st_next_graph s'))"
    using conjunct2 [OF a(1)] a(2,4) a(3) room_left_succ [of "st_next_graph s"]
    by (cases rule: intern_graph_cases) (auto simp: room_left_pos)
  then show "(graph_table_ok E s' \<and> dict_ok E (view E (st_db s'))) \<and>
      room_left (st_next_graph s) \<le> Suc (room_left (st_next_graph s')) \<and>
      (\<lambda>iri. iri) = (\<lambda>iri. iri) \<and> is_utf8 = is_utf8"
    using intern_graph_ok [of s n _ s'] a by (auto simp: room_left_pos)
next
  fix s n i s' m j
  assume "graph_table_ok E s \<and> dict_ok E (view E (st_db s))" "is_utf8 n"
    "intern_graph E n s = (Inr i, s')"
  note l = intern_graph_lookup [OF conjunct2 [OF this(1)] this(2,3)]
  show "graph_id_of s' n = Some i" by (rule l(1))
  show "graph_id_of s m = Some j \<Longrightarrow> graph_id_of s' m = Some j" by (rule l(2))
qed (auto simp: graph_id_of_def graph_table_ok_def dest: table_inject)


context kv_engine
begin

lemma intern_predicates_total:
  "\<not> is_replica st \<Longrightarrow> \<exists>ids st'. straverse (intern_predicate E) ns st = (Inr ids, st')"
proof (induction ns arbitrary: st)
  case Nil
  show ?case by (simp add: sret_def)
next
  case (Cons n ns)
  obtain r s1 where one: "intern_predicate E n st = (r, s1)" by fastforce
  then have "(\<exists>i. r = Inr i) \<and> \<not> is_replica s1"
    using Cons.prems by (cases rule: intern_predicate_cases) (auto simp: is_replica_def)
  with Cons.IH [of s1] one show ?case by (auto simp: sbind_def sret_def)
qed

lemma interned_predicates_ok:
  assumes "pred_table_ok E st" and "\<forall>n\<in>set ns. is_utf8 (canonical_name st n)"
    and "length ns \<le> room_left (st_next_pred st)"
    and "straverse (intern_predicate E) ns st = (Inr ids, st')" and "j < length ns" and "k < length ns"
  shows "(ids ! j = ids ! k \<longleftrightarrow> canonical_name st (ns ! j) = canonical_name st (ns ! k)) \<and>
    (\<exists>f r c. load_predicates E (st_db st') = Inr (f, r, c) \<and>
      hm_get f (canonical_name st (ns ! j)) = Some (ids ! j))"
proof -
  have all: "pred_table_ok E st'" "canonical_name st' = canonical_name st"
    "map (predicate_id st') ns = map Some ids" using preds.intern_all [OF assms(1-4)] by simp_all
  then have "length ids = length ns" by (metis length_map)
  with all have "hm_get (st_fwd st') (canonical_name st (ns ! j)) = Some (ids ! j)"
    using assms(5) by (metis nth_map predicate_id_eq)
  with load_predicates_ok [OF all(1)] preds.intern_all_inject [OF assms] show ?thesis by metis
qed

end

end
