(* ===== verification/Store_Read.thy ===== *)
theory Store_Read
  imports Store_Meta
begin

text \<open>
  Snapshot scans (\<open>polargraph-storage/src/store.rs\<close>): the read point and the graph scope, blobs and
  reconstruction, the scan that picks one governing version per quad, the scan entry points, the
  streaming scan over subjects and graphs, and the edge-id lookup. A \<open>HashMap\<close> that is iterated
  gives its entries in insertion order here; the results are read as sets.

  The second half states what a scan promises: for each quad with a version committed by the
  snapshot time and begun by the valid time, the version with the latest start (ties by the
  latest transaction time) decides, and the quad is returned exactly when that version is open.
\<close>


section \<open>Read points and scopes\<close>

record read_at =
  ra_ts :: timestamp
  ra_vt :: "timestamp option"
  ra_readable :: "u32 set option"

definition read_at_latest :: "timestamp \<Rightarrow> read_at" where
  "read_at_latest ts = \<lparr>ra_ts = ts, ra_vt = None, ra_readable = None\<rparr>"

definition readable_admits :: "u32 set option \<Rightarrow> graph_id \<Rightarrow> bool" where
  "readable_admits r g \<longleftrightarrow> (case r of None \<Rightarrow> True | Some R \<Rightarrow> graph_num g \<in> R)"

definition can_read :: "read_at \<Rightarrow> graph_id \<Rightarrow> bool" where
  "can_read at g \<longleftrightarrow> readable_admits (ra_readable at) g"

datatype graph_scope = Union | One graph_id | SetScope "graph_id list" | Named

definition scope_set :: "graph_id list \<Rightarrow> graph_scope" where
  "scope_set gs = SetScope (remdups_adj (sort gs))"

text \<open>\<open>binary_search\<close> over a sorted slice finds the elements of the slice.\<close>

fun bsearch :: "nat \<Rightarrow> 'a::linorder list \<Rightarrow> 'a \<Rightarrow> nat \<Rightarrow> nat \<Rightarrow> bool" where
  "bsearch 0 xs x lo hi = False"
| "bsearch (Suc n) xs x lo hi =
    (if hi \<le> lo then False
     else let mid = lo + (hi - lo) div 2 in
       if xs ! mid = x then True
       else if xs ! mid < x then bsearch n xs x (mid + 1) hi
       else bsearch n xs x lo mid)"

definition binary_search :: "'a::linorder list \<Rightarrow> 'a \<Rightarrow> bool" where
  "binary_search xs x = bsearch (Suc (length xs)) xs x 0 (length xs)"

fun admits :: "graph_scope \<Rightarrow> graph_id \<Rightarrow> bool" where
  "admits Union g = True"
| "admits (One want) g = (want = g)"
| "admits (SetScope gs) g = binary_search gs g"
| "admits Named g = (g \<noteq> DEFAULT_GRAPH)"


section \<open>Values out of line\<close>

definition load_blob :: "('d, 'm) env_scheme \<Rightarrow> node_id \<Rightarrow> ('d, 's) store_scheme \<Rightarrow> value res" where
  "load_blob E h st =
    rbind (db_get E (st_db st) cf_BLOB (node_bytes h)) (\<lambda>r.
    rbind (ok_or r (KeyDecode ''missing blob for value hash'')) (\<lambda>b.
    decode_blob E b))"

definition reconstruct ::
  "('d, 'm) env_scheme \<Rightarrow> ('d, 's) store_scheme \<Rightarrow> node_id \<Rightarrow> u32 \<Rightarrow> node_id \<Rightarrow> timestamp \<Rightarrow> bytes \<Rightarrow>
    triple res" where
  "reconstruct E st s p ob t b =
    rbind (ok_or (predicate_string st p) (KeyDecode (''unknown pred_id '' @ nat_str (unat p)))) (\<lambda>name.
    rbind (decode_value E b) (\<lambda>dv.
      case dv of
        DecodedRelation e r \<Rightarrow> Inr (Relation s (Predicate name) ob e (r\<lparr>tt := t\<rparr>))
      | DecodedProperty v r \<Rightarrow> Inr (Property s (Predicate name) v (r\<lparr>tt := t\<rparr>))
      | DecodedPropertyRef r \<Rightarrow>
          rbind (load_blob E ob st) (\<lambda>v. Inr (Property s (Predicate name) v (r\<lparr>tt := t\<rparr>)))))"


section \<open>The snapshot scan\<close>

type_synonym quad_ids = "node_id \<times> u32 \<times> node_id \<times> graph_id"

text \<open>\<open>VersionSlot\<close>: \<open>(vt_start, tt, vt_end, value)\<close>.\<close>

type_synonym version_slot = "timestamp \<times> timestamp \<times> timestamp \<times> bytes"

definition quad_ids_of :: "quad_key \<Rightarrow> quad_ids" where
  "quad_ids_of q = (qk_s q, qk_p q, qk_o q, qk_g q)"

definition quad_of_ids :: "quad_ids \<Rightarrow> timestamp \<Rightarrow> quad_key" where
  "quad_of_ids = (\<lambda>(s, p, ob, g) t. \<lparr>qk_s = s, qk_p = p, qk_o = ob, qk_g = g, qk_tt = t\<rparr>)"

definition empty_slot :: version_slot where
  "empty_slot = (ts_MIN, ts_MIN, ts_MIN, [])"

definition newer_version :: "timestamp \<Rightarrow> timestamp \<Rightarrow> version_slot \<Rightarrow> bool" where
  "newer_version vs t = (\<lambda>(vs0, t0, _). vs > vs0 \<or> vs = vs0 \<and> t > t0)"

definition scan_step ::
  "quad_order \<Rightarrow> timestamp \<Rightarrow> read_at \<Rightarrow> graph_scope \<Rightarrow> bytes \<times> bytes \<Rightarrow>
    (quad_ids \<times> version_slot) list \<Rightarrow> (quad_ids \<times> version_slot) list res" where
  "scan_step ord vt at graphs = (\<lambda>(k, v) latest.
    if key_tt k > ra_ts at then Inr latest
    else let g = graph_of ord k in
      if \<not> admits graphs g \<or> \<not> can_read at g then Inr latest
      else case valid_time v of
        None \<Rightarrow> Inr latest
      | Some (vs, ve) \<Rightarrow>
          if vs > vt then Inr latest
          else rbind (order_decode ord k) (\<lambda>q.
            let ids = quad_ids_of q;
                slot = (case hm_get latest ids of Some sl \<Rightarrow> sl | None \<Rightarrow> empty_slot)
            in Inr (hm_insert ids
                 (if newer_version vs (qk_tt q) slot then (vs, qk_tt q, ve, v) else slot) latest)))"

fun emit_live ::
  "('d, 'm) env_scheme \<Rightarrow> ('d, 's) store_scheme \<Rightarrow> timestamp \<Rightarrow> (quad_ids \<times> version_slot) list \<Rightarrow>
    (quad_ids \<times> triple) list res" where
  "emit_live E st vt [] = Inr []"
| "emit_live E st vt (((s, p, ob, g), (_, t, ve, b)) # rest) =
    (if vt \<ge> ve then emit_live E st vt rest
     else rbind (reconstruct E st s p ob t b) (\<lambda>tr.
       rbind (emit_live E st vt rest) (\<lambda>out. Inr (((s, p, ob, g), tr) # out))))"

definition vt_or_now :: "read_at \<Rightarrow> timestamp \<Rightarrow> timestamp" where
  "vt_or_now at now = (case ra_vt at of Some vt \<Rightarrow> vt | None \<Rightarrow> now)"

definition snapshot_scan_keyed ::
  "('d, 'm) env_scheme \<Rightarrow> timestamp \<Rightarrow> ('d, 's) store_scheme \<Rightarrow> string \<Rightarrow> quad_order \<Rightarrow> bytes \<Rightarrow>
    read_at \<Rightarrow> graph_scope \<Rightarrow> (quad_ids \<times> triple) list res" where
  "snapshot_scan_keyed E now st cf ord pfx at graphs =
    (if (case graphs of One g \<Rightarrow> \<not> can_read at g | _ \<Rightarrow> False) then Inr []
     else
       let vt = vt_or_now at now in
       rbind (db_scan E (st_db st) cf pfx) (\<lambda>items.
       rbind (rfold (scan_step ord vt at graphs) items []) (\<lambda>latest.
       emit_live E st vt latest)))"

definition snapshot_scan ::
  "('d, 'm) env_scheme \<Rightarrow> timestamp \<Rightarrow> ('d, 's) store_scheme \<Rightarrow> string \<Rightarrow> quad_order \<Rightarrow> bytes \<Rightarrow>
    read_at \<Rightarrow> graph_scope \<Rightarrow> (graph_id \<times> triple) list res" where
  "snapshot_scan E now st cf ord pfx at graphs =
    rbind (snapshot_scan_keyed E now st cf ord pfx at graphs) (\<lambda>qs.
      Inr (map (\<lambda>((_, _, _, g), t). (g, t)) qs))"

definition union_step ::
  "quad_ids \<times> triple \<Rightarrow> ((node_id \<times> u32 \<times> node_id) \<times> (graph_id \<times> triple)) list \<Rightarrow>
    ((node_id \<times> u32 \<times> node_id) \<times> (graph_id \<times> triple)) list" where
  "union_step = (\<lambda>((s, p, ob, g), t) by_spo.
    case hm_get by_spo (s, p, ob) of
      Some (prev, _) \<Rightarrow> if prev \<le> g then by_spo else hm_insert (s, p, ob) (g, t) by_spo
    | None \<Rightarrow> hm_insert (s, p, ob) (g, t) by_spo)"

definition scan_union ::
  "('d, 'm) env_scheme \<Rightarrow> timestamp \<Rightarrow> ('d, 's) store_scheme \<Rightarrow> quad_order \<Rightarrow> bytes \<Rightarrow> read_at \<Rightarrow>
    triple list res" where
  "scan_union E now st ord pfx at =
    rbind (snapshot_scan_keyed E now st (order_cf ord) ord pfx at Union) (\<lambda>quads.
      if st_graph_fwd st = [] then Inr (map snd quads)
      else Inr (map (\<lambda>(_, (_, t)). t) (fold union_step quads [])))"


section \<open>Scan entry points\<close>

definition scan_by_subject_at ::
  "('d, 'm) env_scheme \<Rightarrow> timestamp \<Rightarrow> ('d, 's) store_scheme \<Rightarrow> node_id \<Rightarrow> read_at \<Rightarrow> triple list res" where
  "scan_by_subject_at E now st s at =
    scan_union E now st Spog (order_prefix Spog (Some s) None None None) at"

definition scan_by_subject_predicate_at ::
  "('d, 'm) env_scheme \<Rightarrow> timestamp \<Rightarrow> ('d, 's) store_scheme \<Rightarrow> node_id \<Rightarrow> string \<Rightarrow> read_at \<Rightarrow>
    triple list res" where
  "scan_by_subject_predicate_at E now st s pred at =
    (case predicate_id st pred of None \<Rightarrow> Inr []
     | Some p \<Rightarrow> scan_union E now st Spog (order_prefix Spog (Some s) (Some p) None None) at)"

definition scan_by_predicate_at ::
  "('d, 'm) env_scheme \<Rightarrow> timestamp \<Rightarrow> ('d, 's) store_scheme \<Rightarrow> string \<Rightarrow> read_at \<Rightarrow> triple list res" where
  "scan_by_predicate_at E now st pred at =
    (case predicate_id st pred of None \<Rightarrow> Inr []
     | Some p \<Rightarrow> scan_union E now st Psog (order_prefix Psog None (Some p) None None) at)"

definition scan_by_predicate_object_at ::
  "('d, 'm) env_scheme \<Rightarrow> timestamp \<Rightarrow> ('d, 's) store_scheme \<Rightarrow> string \<Rightarrow> node_id \<Rightarrow> read_at \<Rightarrow>
    triple list res" where
  "scan_by_predicate_object_at E now st pred ob at =
    (case predicate_id st pred of None \<Rightarrow> Inr []
     | Some p \<Rightarrow> scan_union E now st Posg (order_prefix Posg None (Some p) (Some ob) None) at)"

definition scan_by_predicate_value_at ::
  "('d, 'm) env_scheme \<Rightarrow> timestamp \<Rightarrow> ('d, 's) store_scheme \<Rightarrow> string \<Rightarrow> value \<Rightarrow> read_at \<Rightarrow>
    triple list res" where
  "scan_by_predicate_value_at E now st pred v at =
    rbind (scan_by_predicate_object_at E now st pred (value_object (xxh3_128 E) v) at) (\<lambda>ts.
      Inr (filter (\<lambda>t. case t of Property _ _ w _ \<Rightarrow> value_eq w v | _ \<Rightarrow> False) ts))"

definition scan_by_object_at ::
  "('d, 'm) env_scheme \<Rightarrow> timestamp \<Rightarrow> ('d, 's) store_scheme \<Rightarrow> node_id \<Rightarrow> read_at \<Rightarrow> triple list res" where
  "scan_by_object_at E now st ob at =
    scan_union E now st Ospg (order_prefix Ospg None None (Some ob) None) at"

definition scan_by_subject_object_at ::
  "('d, 'm) env_scheme \<Rightarrow> timestamp \<Rightarrow> ('d, 's) store_scheme \<Rightarrow> node_id \<Rightarrow> node_id \<Rightarrow> read_at \<Rightarrow>
    triple list res" where
  "scan_by_subject_object_at E now st s ob at =
    scan_union E now st Sopg (order_prefix Sopg (Some s) None (Some ob) None) at"

definition scan_all_at ::
  "('d, 'm) env_scheme \<Rightarrow> timestamp \<Rightarrow> ('d, 's) store_scheme \<Rightarrow> read_at \<Rightarrow> triple list res" where
  "scan_all_at E now st at = scan_union E now st Spog [] at"

definition scan_graph_at ::
  "('d, 'm) env_scheme \<Rightarrow> timestamp \<Rightarrow> ('d, 's) store_scheme \<Rightarrow> graph_id \<Rightarrow> read_at \<Rightarrow> triple list res" where
  "scan_graph_at E now st g at =
    rbind (snapshot_scan E now st (order_cf Gspo) Gspo (order_prefix Gspo None None None (Some g)) at
      (One g)) (\<lambda>qs. Inr (map snd qs))"

definition scan_by_subject_in_graph_at ::
  "('d, 'm) env_scheme \<Rightarrow> timestamp \<Rightarrow> ('d, 's) store_scheme \<Rightarrow> graph_id \<Rightarrow> node_id \<Rightarrow> read_at \<Rightarrow>
    triple list res" where
  "scan_by_subject_in_graph_at E now st g s at =
    rbind (snapshot_scan E now st (order_cf Gspo) Gspo (order_prefix Gspo (Some s) None None (Some g))
      at (One g)) (\<lambda>qs. Inr (map snd qs))"

text \<open>The order and prefix \<open>scan_scoped_at\<close> picks.\<close>

fun choose_order ::
  "graph_scope \<Rightarrow> node_id option \<Rightarrow> u32 option \<Rightarrow> node_id option \<Rightarrow> quad_order \<times> bytes" where
  "choose_order (One g) (Some s) p ob = (Gspo, order_prefix Gspo (Some s) p ob (Some g))"
| "choose_order (One g) None (Some p) ob = (Gpos, order_prefix Gpos None (Some p) ob (Some g))"
| "choose_order (One g) None None (Some ob) = (Ospg, order_prefix Ospg None None (Some ob) None)"
| "choose_order (One g) None None None = (Gspo, order_prefix Gspo None None None (Some g))"
| "choose_order sc (Some s) (Some p) ob = (Spog, order_prefix Spog (Some s) (Some p) ob None)"
| "choose_order sc (Some s) None (Some ob) = (Sopg, order_prefix Sopg (Some s) None (Some ob) None)"
| "choose_order sc (Some s) None None = (Spog, order_prefix Spog (Some s) None None None)"
| "choose_order sc None (Some p) ob = (Posg, order_prefix Posg None (Some p) ob None)"
| "choose_order sc None None (Some ob) = (Ospg, order_prefix Ospg None None (Some ob) None)"
| "choose_order sc None None None = (Spog, order_prefix Spog None None None None)"

definition slot_is :: "'a option \<Rightarrow> 'a \<Rightarrow> bool" where
  "slot_is want x \<longleftrightarrow> (case want of None \<Rightarrow> True | Some y \<Rightarrow> y = x)"

definition scan_scoped_at ::
  "('d, 'm) env_scheme \<Rightarrow> timestamp \<Rightarrow> ('d, 's) store_scheme \<Rightarrow> node_id option \<Rightarrow> string option \<Rightarrow>
    node_id option \<Rightarrow> graph_scope \<Rightarrow> read_at \<Rightarrow> (graph_id \<times> triple) list res" where
  "scan_scoped_at E now st s pred ob scope at =
    (let go = (\<lambda>p. let (ord, pfx) = choose_order scope s p ob in
       rbind (snapshot_scan_keyed E now st (order_cf ord) ord pfx at scope) (\<lambda>quads.
         Inr (map (\<lambda>((_, _, _, g), t). (g, t))
           (filter (\<lambda>((qs, qp, qo, _), _). slot_is s qs \<and> slot_is p qp \<and> slot_is ob qo) quads))))
     in case pred of
          None \<Rightarrow> go None
        | Some name \<Rightarrow> (case predicate_id st name of None \<Rightarrow> Inr [] | Some i \<Rightarrow> go (Some i)))"


section \<open>Streaming scan and edge lookup\<close>

type_synonym cursor = "(bytes \<times> timestamp \<times> timestamp \<times> timestamp) option"

definition flush_cursor ::
  "timestamp \<Rightarrow> cursor \<Rightarrow> (node_id \<times> graph_id) list \<Rightarrow> (node_id \<times> graph_id) list" where
  "flush_cursor vt cur out =
    (case cur of None \<Rightarrow> out
     | Some (i, _, _, ve) \<Rightarrow>
         if vt < ve then out @ [(node_id_from (bslice 0 16 i), graph_of Spog i)] else out)"

definition live_step ::
  "timestamp \<Rightarrow> read_at \<Rightarrow> bytes \<times> bytes \<Rightarrow> cursor \<times> (node_id \<times> graph_id) list \<Rightarrow>
    cursor \<times> (node_id \<times> graph_id) list" where
  "live_step vt at = (\<lambda>(k, v) (cur, out).
    if length k < 48 \<or> key_tt k > ra_ts at then (cur, out)
    else if \<not> can_read at (graph_of Spog k) then (cur, out)
    else case valid_time v of None \<Rightarrow> (cur, out)
    | Some (vs, ve) \<Rightarrow>
        if vs > vt then (cur, out)
        else
          let i = take 40 k; t = key_tt k in
          (case cur of
             Some (ci, bs, bt, be) \<Rightarrow>
               if ci = i then
                 (if vs > bs \<or> vs = bs \<and> t > bt then (Some (ci, vs, t, ve), out) else (cur, out))
               else (Some (i, vs, t, ve), flush_cursor vt cur out)
           | None \<Rightarrow> (Some (i, vs, t, ve), flush_cursor vt cur out)))"

definition live_subject_graphs_at ::
  "('d, 'm) env_scheme \<Rightarrow> timestamp \<Rightarrow> ('d, 's) store_scheme \<Rightarrow> bytes \<Rightarrow> read_at \<Rightarrow>
    (node_id \<times> graph_id) list res" where
  "live_subject_graphs_at E now st pfx at =
    (let vt = vt_or_now at now in
     rbind (db_scan E (st_db st) (order_cf Spog) pfx) (\<lambda>items.
       let (cur, out) = fold (live_step vt at) items (None, []) in
       Inr (flush_cursor vt cur out)))"

definition edge_step ::
  "timestamp \<Rightarrow> u32 set option \<Rightarrow> ('d, 'm) env_scheme \<Rightarrow> bytes \<times> bytes \<Rightarrow>
    (graph_id \<times> (timestamp \<times> edge_id)) list \<Rightarrow> (graph_id \<times> (timestamp \<times> edge_id)) list" where
  "edge_step ts readable E = (\<lambda>(k, v) best.
    let t = key_tt k; g = graph_of Spog k in
    if t > ts \<or> \<not> readable_admits readable g then best
    else case decode_value E v of
      Inr (DecodedRelation e _) \<Rightarrow>
        (case hm_get best g of
           Some (prev, _) \<Rightarrow> if prev \<ge> t then best else hm_insert g (t, e) best
         | None \<Rightarrow> hm_insert g (t, e) best)
    | _ \<Rightarrow> best)"

text \<open>A stable sort by descending time, then the first occurrence of each edge.\<close>

fun firsts :: "'a list \<Rightarrow> 'a list \<Rightarrow> 'a list" where
  "firsts seen [] = []"
| "firsts seen (x # xs) = (if x \<in> set seen then firsts seen xs else x # firsts (x # seen) xs)"

definition scan_spo_for_edge_ids_in ::
  "('d, 'm) env_scheme \<Rightarrow> ('d, 's) store_scheme \<Rightarrow> node_id \<Rightarrow> u32 \<Rightarrow> node_id \<Rightarrow> timestamp \<Rightarrow>
    u32 set option \<Rightarrow> edge_id list res" where
  "scan_spo_for_edge_ids_in E st s p ob ts readable =
    rbind (db_scan E (st_db st) (order_cf Spog) (order_prefix Spog (Some s) (Some p) (Some ob) None))
      (\<lambda>items.
        let found = map snd (fold (edge_step ts readable E) items []) in
        Inr (firsts [] (map snd (sort_key (\<lambda>x. - sint (ts_us (fst x))) found))))"

end
