(* ===== verification/Scan_Spec.thy ===== *)
theory Scan_Spec
  imports Store_Read
begin

text \<open>
  What the snapshot scans of \<open>Store_Read\<close> return, stated over the contents of the store: the eight
  orders hold the same versions (\<open>index_ok\<close>), of which the one with the latest valid-time start,
  ties by the latest transaction time, governs a quad at a point (\<open>governs\<close>); a scan gives the
  quads its slots and scope select whose governing version is open.
\<close>


declare split_paired_All [simp del] split_paired_Ex [simp del]


section \<open>Versions and the governing one\<close>

definition version_at :: "contents \<Rightarrow> quad_ids \<Rightarrow> timestamp \<Rightarrow> bytes option" where
  "version_at m ids t = m (order_cf Spog) (order_encode Spog (quad_of_ids ids t))"

text \<open>
  The index invariant: every order holds the same quad versions, under well-formed keys with a
  transaction time that is not negative.
\<close>

definition index_ok :: "contents \<Rightarrow> bool" where
  "index_ok m \<longleftrightarrow>
    (\<forall>ord q. m (order_cf ord) (order_encode ord q) = m (order_cf Spog) (order_encode Spog q)) \<and>
    (\<forall>ord k v. m (order_cf ord) k = Some v \<longrightarrow>
      (\<exists>q. k = order_encode ord q \<and> Timestamp 0 \<le> qk_tt q))"

definition eligible ::
  "contents \<Rightarrow> timestamp \<Rightarrow> timestamp \<Rightarrow> quad_ids \<Rightarrow> version_slot \<Rightarrow> bool" where
  "eligible m ts vt ids = (\<lambda>(vs, t, ve, b).
    version_at m ids t = Some b \<and> t \<le> ts \<and> valid_time b = Some (vs, ve) \<and> vs \<le> vt)"

definition version_rank :: "version_slot \<Rightarrow> timestamp \<times> timestamp" where
  "version_rank = (\<lambda>(vs, t, _). (vs, t))"

definition governs ::
  "contents \<Rightarrow> timestamp \<Rightarrow> timestamp \<Rightarrow> quad_ids \<Rightarrow> version_slot \<Rightarrow> bool" where
  "governs m ts vt ids w \<longleftrightarrow>
    eligible m ts vt ids w \<and> (\<forall>w'. eligible m ts vt ids w' \<longrightarrow> version_rank w' \<le> version_rank w)"

text \<open>The quad is live at the point, with the governing version \<open>(t, b)\<close>.\<close>

definition live_at ::
  "contents \<Rightarrow> timestamp \<Rightarrow> timestamp \<Rightarrow> quad_ids \<Rightarrow> timestamp \<Rightarrow> bytes \<Rightarrow> bool" where
  "live_at m ts vt ids t b \<longleftrightarrow> (\<exists>vs ve. governs m ts vt ids (vs, t, ve, b) \<and> vt < ve)"

lemma eligible_rank_inject:
  "eligible m ts vt ids w \<Longrightarrow> eligible m ts vt ids w' \<Longrightarrow> version_rank w = version_rank w' \<Longrightarrow> w = w'"
  by (auto simp: eligible_def version_rank_def split: prod.splits)

lemma governs_unique: "governs m ts vt ids w \<Longrightarrow> governs m ts vt ids w' \<Longrightarrow> w = w'"
  unfolding governs_def by (metis eligible_rank_inject order_antisym)

lemma quad_of_ids_of [simp]: "quad_ids_of (quad_of_ids ids t) = ids"
  by (simp add: quad_ids_of_def quad_of_ids_def split: prod.splits)

lemma quad_of_ids_tt [simp]: "qk_tt (quad_of_ids ids t) = t"
  by (simp add: quad_of_ids_def split: prod.splits)

lemma quad_of_quad_ids [simp]: "quad_of_ids (quad_ids_of q) (qk_tt q) = q"
  by (simp add: quad_ids_of_def quad_of_ids_def)

lemma index_ok_at:
  "index_ok m \<Longrightarrow> m (order_cf ord) (order_encode ord q) = version_at m (quad_ids_of q) (qk_tt q)"
  unfolding index_ok_def version_at_def quad_of_quad_ids by blast

lemma quad_of_ids_g [simp]: "qk_g (quad_of_ids (s, p, ob, g) t) = g"
  by (simp add: quad_of_ids_def)

abbreviation graph_of_ids :: "quad_ids \<Rightarrow> graph_id" where
  "graph_of_ids ids \<equiv> snd (snd (snd ids))"

lemma qk_g_of_ids [simp]: "qk_g (quad_of_ids ids t) = graph_of_ids ids"
  by (simp add: quad_of_ids_def split: prod.splits)

lemma quad_ids_graph [simp]: "graph_of_ids (quad_ids_of q) = qk_g q"
  by (simp add: quad_ids_of_def)


section \<open>The fold over the entries\<close>

definition cand ::
  "quad_order \<Rightarrow> timestamp \<Rightarrow> read_at \<Rightarrow> graph_scope \<Rightarrow> (bytes \<times> bytes) list \<Rightarrow> quad_ids \<Rightarrow>
    version_slot \<Rightarrow> bool" where
  "cand ord vt at graphs xs ids = (\<lambda>(vs, t, ve, b).
    (order_encode ord (quad_of_ids ids t), b) \<in> set xs \<and> t \<le> ra_ts at \<and>
    admits graphs (graph_of_ids ids) \<and> can_read at (graph_of_ids ids) \<and>
    valid_time b = Some (vs, ve) \<and> vs \<le> vt)"

definition slot_best ::
  "quad_order \<Rightarrow> timestamp \<Rightarrow> read_at \<Rightarrow> graph_scope \<Rightarrow> (bytes \<times> bytes) list \<Rightarrow> quad_ids \<Rightarrow>
    version_slot option \<Rightarrow> bool" where
  "slot_best ord vt at graphs xs ids r \<longleftrightarrow>
    (case r of None \<Rightarrow> \<forall>w. \<not> cand ord vt at graphs xs ids w
     | Some w \<Rightarrow> cand ord vt at graphs xs ids w \<and>
         (\<forall>w'. cand ord vt at graphs xs ids w' \<longrightarrow> version_rank w' \<le> version_rank w))"

definition keys_ok :: "quad_order \<Rightarrow> (bytes \<times> bytes) list \<Rightarrow> bool" where
  "keys_ok ord xs \<longleftrightarrow> (\<forall>(k, v)\<in>set xs. \<exists>q. k = order_encode ord q \<and> Timestamp 0 \<le> qk_tt q)"

lemma ts_MIN_least: "ts_MIN \<le> t"
proof -
  have "- (2 ^ 63) \<le> sint (ts_us t)" using sint_range_size [of "ts_us t"] by (simp add: word_size)
  then show ?thesis by (simp add: less_eq_timestamp_def ts_MIN_def)
qed

lemma ts_MIN_less_0: "ts_MIN < Timestamp 0"
  by (simp add: less_timestamp_def ts_MIN_def)

lemma cand_snoc:
  "cand ord vt at graphs (xs @ [(order_encode ord q, b)]) ids w \<longleftrightarrow>
    cand ord vt at graphs xs ids w \<or>
    (ids = quad_ids_of q \<and> qk_tt q \<le> ra_ts at \<and> admits graphs (qk_g q) \<and> can_read at (qk_g q) \<and>
      (\<exists>vs ve. valid_time b = Some (vs, ve) \<and> vs \<le> vt \<and> w = (vs, qk_tt q, ve, b)))"
proof -
  have "quad_of_ids ids t = q \<longleftrightarrow> ids = quad_ids_of q \<and> t = qk_tt q" for t
    using quad_of_quad_ids quad_of_ids_of quad_of_ids_tt by metis
  then show ?thesis
    by (auto simp: cand_def quad_codec.enc_inject split: prod.splits)
qed

lemma newer_empty: "Timestamp 0 \<le> t \<Longrightarrow> newer_version vs t empty_slot"
  using ts_MIN_least [of vs] order_less_le_trans [OF ts_MIN_less_0]
  by (auto simp: newer_version_def empty_slot_def order_le_less)

lemma newer_version_rank: "newer_version vs t w \<longleftrightarrow> version_rank w < (vs, t)"
  by (auto simp: newer_version_def version_rank_def split: prod.splits)

lemma scan_fold:
  assumes "keys_ok ord xs"
  shows "\<exists>latest. rfold (scan_step ord vt at graphs) xs [] = Inr latest \<and>
    distinct (map fst latest) \<and>
    (\<forall>ids. slot_best ord vt at graphs xs ids (hm_get latest ids))"
  using assms
proof (induction xs rule: rev_induct)
  case Nil
  show ?case by (simp add: slot_best_def cand_def)
next
  case (snoc x xs)
  then obtain q b where x: "x = (order_encode ord q, b)" and pos: "Timestamp 0 \<le> qk_tt q"
    by (cases x) (auto simp: keys_ok_def)
  have "keys_ok ord xs" using snoc.prems by (simp add: keys_ok_def)
  then obtain latest where l: "rfold (scan_step ord vt at graphs) xs [] = Inr latest"
    "distinct (map fst latest)" "\<And>ids. slot_best ord vt at graphs xs ids (hm_get latest ids)"
    using snoc.IH by auto
  let ?step = "scan_step ord vt at graphs x latest"
  have fold: "rfold (scan_step ord vt at graphs) (xs @ [x]) [] = ?step"
    by (cases "scan_step ord vt at graphs x latest") (simp_all add: rfold_append l(1))
  show ?case
  proof (cases "qk_tt q \<le> ra_ts at \<and> admits graphs (qk_g q) \<and> can_read at (qk_g q) \<and>
      (\<exists>vs ve. valid_time b = Some (vs, ve) \<and> vs \<le> vt)")
    case False
    then have "?step = Inr latest"
      by (auto simp: x scan_step_def Let_def split: option.splits)
    moreover have same: "cand ord vt at graphs (xs @ [x]) = cand ord vt at graphs xs"
      using False by (intro ext) (auto simp: x cand_snoc)
    have "slot_best ord vt at graphs (xs @ [x]) = slot_best ord vt at graphs xs"
      by (intro ext) (simp add: slot_best_def same split: option.split)
    ultimately show ?thesis using l fold by simp
  next
    case True
    then obtain vs ve where v: "valid_time b = Some (vs, ve)" "vs \<le> vt" by auto
    let ?ids = "quad_ids_of q" and ?w = "(vs, qk_tt q, ve, b)"
    define old where "old = (case hm_get latest ?ids of Some sl \<Rightarrow> sl | None \<Rightarrow> empty_slot)"
    define w where "w = (if newer_version vs (qk_tt q) old then ?w else old)"
    have "\<not> ra_ts at < qk_tt q" "\<not> vt < vs" using True v(2) by auto
    with True v have step: "?step = Inr (hm_insert ?ids w latest)"
      by (simp add: x scan_step_def Let_def old_def w_def)
    have c: "cand ord vt at graphs (xs @ [x]) ids w' \<longleftrightarrow>
        cand ord vt at graphs xs ids w' \<or> ids = ?ids \<and> w' = ?w" for ids w'
      using True v by (auto simp: x cand_snoc)
    have "slot_best ord vt at graphs (xs @ [x]) ids (hm_get (hm_insert ?ids w latest) ids)" for ids
    proof (cases "ids = ?ids")
      case False
      with l(3) [of ids] show ?thesis
        by (simp add: slot_best_def c hm_get_insert split: option.splits)
    next
      case True
      show ?thesis
      proof (cases "hm_get latest ?ids")
        case None
        then have "w = ?w" using newer_empty [OF pos, of vs] by (simp add: w_def old_def)
        with None l(3) [of ?ids] True show ?thesis by (auto simp: slot_best_def c hm_get_insert)
      next
        case (Some o')
        then have o': "old = o'" by (simp add: old_def)
        have b: "cand ord vt at graphs xs ?ids o'"
          "\<And>w'. cand ord vt at graphs xs ?ids w' \<Longrightarrow> version_rank w' \<le> version_rank o'"
          using l(3) [of ?ids] Some by (auto simp: slot_best_def)
        have r: "version_rank ?w = (vs, qk_tt q)" by (simp add: version_rank_def)
        show ?thesis
        proof (cases "newer_version vs (qk_tt q) old")
          case True
          then have "w = ?w" "version_rank o' < version_rank ?w"
            by (simp_all add: w_def newer_version_rank o' r)
          then have "version_rank w' \<le> version_rank ?w" if "cand ord vt at graphs xs ?ids w'" for w'
            using b(2) [OF that] by (meson order_le_less_trans less_imp_le)
          with \<open>ids = ?ids\<close> b(1) \<open>w = ?w\<close> show ?thesis
            by (auto simp: slot_best_def c hm_get_insert)
        next
          case False
          then have "w = o'" "version_rank ?w \<le> version_rank o'"
            by (simp_all add: w_def newer_version_rank o' r)
          with \<open>ids = ?ids\<close> b show ?thesis by (auto simp: slot_best_def c hm_get_insert)
        qed
      qed
    qed
    then show ?thesis using fold step l(2) by (auto intro: hm_distinct_insert)
  qed
qed


section \<open>What a scan returns\<close>

definition emit_one ::
  "('d, 'm) env_scheme \<Rightarrow> ('d, 's) store_scheme \<Rightarrow> quad_ids \<times> version_slot \<Rightarrow> (quad_ids \<times> triple) res" where
  "emit_one E st = (\<lambda>((s, p, ob, g), (_, t, _, b)).
    rbind (reconstruct E st s p ob t b) (\<lambda>tr. Inr ((s, p, ob, g), tr)))"

lemma emit_live_traverse:
  "emit_live E st vt latest = rtraverse (emit_one E st) (filter (\<lambda>(_, _, _, ve, _). vt < ve) latest)"
proof (induction E st vt latest rule: emit_live.induct)
  case (2 E st vt s p ob g vs t ve b rest)
  then show ?case by (cases "reconstruct E st s p ob t b") (auto simp: emit_one_def)
qed simp

definition rebuild ::
  "('d, 'm) env_scheme \<Rightarrow> ('d, 's) store_scheme \<Rightarrow> quad_ids \<Rightarrow> timestamp \<Rightarrow> bytes \<Rightarrow> triple res" where
  "rebuild E st = (\<lambda>(s, p, ob, g) t b. reconstruct E st s p ob t b)"

lemma emit_one_eq: "emit_one E st (ids, (vs, t, ve, b)) = rbind (rebuild E st ids t b) (\<lambda>tr. Inr (ids, tr))"
  by (cases ids) (simp add: emit_one_def rebuild_def)

lemma rtraverse_set:
  "rtraverse f xs = Inr ys \<Longrightarrow> y \<in> set ys \<longleftrightarrow> (\<exists>x\<in>set xs. f x = Inr y)"
proof (induction xs arbitrary: ys)
  case (Cons x xs)
  then show ?case by (cases "f x") auto
qed simp

lemma rtraverse_ok: "(\<exists>ys. rtraverse f xs = Inr ys) \<longleftrightarrow> (\<forall>x\<in>set xs. \<exists>y. f x = Inr y)"
proof (induction xs)
  case (Cons x xs)
  then show ?case by (cases "f x"; cases "rtraverse f xs") auto
qed simp

text \<open>The quads a prefix of an order selects.\<close>

definition selects ::
  "quad_order \<Rightarrow> node_id option \<Rightarrow> u32 option \<Rightarrow> node_id option \<Rightarrow> graph_id option \<Rightarrow> quad_ids \<Rightarrow> bool" where
  "selects ord s p ob g ids \<longleftrightarrow>
    (\<forall>sl\<in>set (covered_slots ord s p ob g). slot_matches s p ob g (quad_of_ids ids (Timestamp 0)) sl)"

lemma selects_prefix:
  "prefix (order_prefix ord s p ob g) (order_encode ord (quad_of_ids ids t)) \<longleftrightarrow> selects ord s p ob g ids"
proof -
  have "slot_matches s p ob g (quad_of_ids ids t) sl
      = slot_matches s p ob g (quad_of_ids ids (Timestamp 0)) sl" for sl
    by (cases sl) (simp_all add: quad_of_ids_def split: prod.splits)
  then show ?thesis by (simp add: order_prefix_iff selects_def)
qed

definition in_scope :: "read_at \<Rightarrow> graph_scope \<Rightarrow> quad_ids \<Rightarrow> bool" where
  "in_scope at graphs ids \<longleftrightarrow> admits graphs (graph_of_ids ids) \<and> can_read at (graph_of_ids ids)"

context kv_engine
begin

lemma scan_items:
  assumes "index_ok (view E d)"
  obtains xs where "db_scan E d (order_cf ord) (order_prefix ord s p ob g) = Inr xs"
    and "keys_ok ord xs"
    and "\<And>ids t b. (order_encode ord (quad_of_ids ids t), b) \<in> set xs \<longleftrightarrow>
      version_at (view E d) ids t = Some b \<and> selects ord s p ob g ids"
proof -
  have "order_cf ord \<in> set cf_ALL" by (cases ord) (simp_all add: cf_ALL_def)
  then obtain xs where xs: "db_scan E d (order_cf ord) (order_prefix ord s p ob g) = Inr xs"
    "\<And>k v. (k, v) \<in> set xs \<longleftrightarrow> view E d (order_cf ord) k = Some v \<and>
      prefix (order_prefix ord s p ob g) k"
    using db_scanE by metis
  have "keys_ok ord xs" using assms xs(2) by (fastforce simp: keys_ok_def index_ok_def)
  moreover have "(order_encode ord (quad_of_ids ids t), b) \<in> set xs \<longleftrightarrow>
      version_at (view E d) ids t = Some b \<and> selects ord s p ob g ids" for ids t b
    using assms by (simp add: xs(2) selects_prefix version_at_def index_ok_def)
  ultimately show thesis using xs(1) that by blast
qed

lemma scan_cand:
  assumes "\<And>ids t b. (order_encode ord (quad_of_ids ids t), b) \<in> set xs \<longleftrightarrow>
      version_at m ids t = Some b \<and> sel ids"
  shows "cand ord vt at graphs xs ids w \<longleftrightarrow>
    eligible m (ra_ts at) vt ids w \<and> sel ids \<and> in_scope at graphs ids"
  using assms by (auto simp: cand_def eligible_def in_scope_def split: prod.splits)

theorem snapshot_scan_latest:
  assumes "index_ok (view E (st_db st))"
  shows "\<exists>latest. distinct (map fst latest) \<and>
    (\<forall>ids w. (ids, w) \<in> set latest \<longleftrightarrow>
      governs (view E (st_db st)) (ra_ts at) (vt_or_now at now) ids w \<and>
      selects ord s p ob g ids \<and> in_scope at graphs ids) \<and>
    snapshot_scan_keyed E now st (order_cf ord) ord (order_prefix ord s p ob g) at graphs =
      emit_live E st (vt_or_now at now) latest"
proof (cases "case graphs of One g \<Rightarrow> \<not> can_read at g | _ \<Rightarrow> False")
  case True
  then obtain g' where "graphs = One g'" "\<not> can_read at g'" by (auto split: graph_scope.splits)
  then show ?thesis
    by (intro exI [of _ "[]"]) (auto simp: in_scope_def snapshot_scan_keyed_def)
next
  case False
  let ?m = "view E (st_db st)" and ?vt = "vt_or_now at now"
  obtain xs where xs: "db_scan E (st_db st) (order_cf ord) (order_prefix ord s p ob g) = Inr xs"
    "keys_ok ord xs" "\<And>ids t b. (order_encode ord (quad_of_ids ids t), b) \<in> set xs \<longleftrightarrow>
      version_at ?m ids t = Some b \<and> selects ord s p ob g ids"
    using scan_items [OF assms] by metis
  obtain latest where l: "rfold (scan_step ord ?vt at graphs) xs [] = Inr latest"
    "distinct (map fst latest)" "\<And>ids. slot_best ord ?vt at graphs xs ids (hm_get latest ids)"
    using scan_fold [OF xs(2)] by metis
  note c = scan_cand [OF xs(3)]
  have "(ids, w) \<in> set latest \<longleftrightarrow>
      governs ?m (ra_ts at) ?vt ids w \<and> selects ord s p ob g ids \<and> in_scope at graphs ids" for ids w
  proof -
    have "(ids, w) \<in> set latest \<longleftrightarrow> hm_get latest ids = Some w"
      by (rule hm_get_iff_set [OF l(2), symmetric])
    also have "\<dots> \<longleftrightarrow> governs ?m (ra_ts at) ?vt ids w \<and> selects ord s p ob g ids \<and> in_scope at graphs ids"
    proof (cases "hm_get latest ids")
      case None
      with l(3) [of ids] show ?thesis
        by (auto simp: slot_best_def c governs_def)
    next
      case (Some w')
      with l(3) [of ids] have "governs ?m (ra_ts at) ?vt ids w'"
        "selects ord s p ob g ids" "in_scope at graphs ids"
        by (auto simp: slot_best_def c governs_def)
      with Some show ?thesis by (auto dest: governs_unique)
    qed
    finally show ?thesis .
  qed
  moreover have "snapshot_scan_keyed E now st (order_cf ord) ord (order_prefix ord s p ob g) at graphs =
      emit_live E st ?vt latest"
    using False by (simp add: snapshot_scan_keyed_def Let_def xs(1) l(1))
  ultimately show ?thesis using l(2) by blast
qed

lemma scan_keyed_set:
  assumes "index_ok (view E (st_db st))"
    and "snapshot_scan_keyed E now st (order_cf ord) ord (order_prefix ord s p ob g) at graphs = Inr out"
  shows "distinct (map fst out)"
    and "(ids, tr) \<in> set out \<longleftrightarrow> selects ord s p ob g ids \<and> in_scope at graphs ids \<and>
      (\<exists>t b. live_at (view E (st_db st)) (ra_ts at) (vt_or_now at now) ids t b \<and>
        rebuild E st ids t b = Inr tr)"
proof -
  let ?m = "view E (st_db st)" and ?vt = "vt_or_now at now"
  obtain latest where l: "distinct (map fst latest)"
    "\<And>ids w. (ids, w) \<in> set latest \<longleftrightarrow> governs ?m (ra_ts at) ?vt ids w \<and>
      selects ord s p ob g ids \<and> in_scope at graphs ids"
    "emit_live E st ?vt latest = Inr out"
    using snapshot_scan_latest [OF assms(1), of at now ord s p ob g graphs] assms(2) by auto
  let ?live = "filter (\<lambda>(_, _, _, ve, _). ?vt < ve) latest"
  have t: "rtraverse (emit_one E st) ?live = Inr out" using l(3) by (simp add: emit_live_traverse)
  have "map fst out = map fst ?live"
  proof -
    have "list_all2 (\<lambda>x y. emit_one E st x = Inr y) ?live out" using t by (simp add: rtraverse_Inr_iff)
    then have "list_all2 (\<lambda>x y. fst x = fst y) ?live out"
      by (rule list_all2_mono) (auto simp: emit_one_def split: prod.splits)
    then show ?thesis by (induction rule: list_all2_induct) auto
  qed
  then show "distinct (map fst out)"
    using l(1) by (simp add: distinct_map_filter)
  show "(ids, tr) \<in> set out \<longleftrightarrow> selects ord s p ob g ids \<and> in_scope at graphs ids \<and>
      (\<exists>t b. live_at ?m (ra_ts at) ?vt ids t b \<and> rebuild E st ids t b = Inr tr)"
  proof -
    have "(ids, tr) \<in> set out \<longleftrightarrow> (\<exists>x\<in>set ?live. emit_one E st x = Inr (ids, tr))"
      by (rule rtraverse_set [OF t])
    also have "\<dots> \<longleftrightarrow> (\<exists>vs t ve b. (ids, (vs, t, ve, b)) \<in> set latest \<and> ?vt < ve \<and>
        rebuild E st ids t b = Inr tr)"
      by (cases ids) (auto simp: emit_one_eq split_paired_Ex Bex_def)
    finally show ?thesis by (auto simp: l(2) live_at_def)
  qed
qed

lemma scan_keyed_ok:
  assumes "index_ok (view E (st_db st))"
  shows "(\<exists>out. snapshot_scan_keyed E now st (order_cf ord) ord (order_prefix ord s p ob g) at graphs
      = Inr out) \<longleftrightarrow>
    (\<forall>ids t b. selects ord s p ob g ids \<and> in_scope at graphs ids \<and>
      live_at (view E (st_db st)) (ra_ts at) (vt_or_now at now) ids t b \<longrightarrow>
      (\<exists>tr. rebuild E st ids t b = Inr tr))"
proof -
  let ?m = "view E (st_db st)" and ?vt = "vt_or_now at now"
  obtain latest where l: "\<And>ids w. (ids, w) \<in> set latest \<longleftrightarrow> governs ?m (ra_ts at) ?vt ids w \<and>
      selects ord s p ob g ids \<and> in_scope at graphs ids"
    "snapshot_scan_keyed E now st (order_cf ord) ord (order_prefix ord s p ob g) at graphs
      = emit_live E st ?vt latest"
    using snapshot_scan_latest [OF assms, of at now ord s p ob g graphs] by auto
  show ?thesis
    unfolding l(2) emit_live_traverse rtraverse_ok
    by (auto simp: l(1) live_at_def emit_one_eq split_paired_All Ball_def) blast
qed

end

text \<open>The scoped scan: whichever order is chosen, the answer is the one the slots and scope define.\<close>

definition slots_match :: "node_id option \<Rightarrow> u32 option \<Rightarrow> node_id option \<Rightarrow> quad_ids \<Rightarrow> bool" where
  "slots_match s p ob = (\<lambda>(qs, qp, qo, _). slot_is s qs \<and> slot_is p qp \<and> slot_is ob qo)"

lemma choose_order_prefix:
  "\<exists>s' p' ob' g'. choose_order scope s p ob = (fst (choose_order scope s p ob),
      order_prefix (fst (choose_order scope s p ob)) s' p' ob' g') \<and>
    (\<forall>ids at. slots_match s p ob ids \<longrightarrow> in_scope at scope ids \<longrightarrow>
      selects (fst (choose_order scope s p ob)) s' p' ob' g' ids)"
  by (cases scope; cases s; cases p; cases ob)
    (fastforce simp: selects_def covered_slots_def slots_match_def slot_is_def in_scope_def
      quad_of_ids_def)+

context kv_engine
begin

lemma scan_scoped_set:
  assumes "index_ok (view E (st_db st))"
    and "scan_scoped_at E now st s pred ob scope at = Inr out"
  shows "(g, tr) \<in> set out \<longleftrightarrow>
    (\<exists>p qs qp qo t b.
      (case pred of None \<Rightarrow> p = None | Some name \<Rightarrow> p = predicate_id st name \<and> p \<noteq> None) \<and>
      slots_match s p ob (qs, qp, qo, g) \<and> in_scope at scope (qs, qp, qo, g) \<and>
      live_at (view E (st_db st)) (ra_ts at) (vt_or_now at now) (qs, qp, qo, g) t b \<and>
      reconstruct E st qs qp qo t b = Inr tr)"
proof -
  let ?m = "view E (st_db st)" and ?vt = "vt_or_now at now"
  let ?go = "\<lambda>p. let (ord, pfx) = choose_order scope s p ob in
       rbind (snapshot_scan_keyed E now st (order_cf ord) ord pfx at scope) (\<lambda>quads.
         Inr (map (\<lambda>((_, _, _, g), t). (g, t))
           (filter (\<lambda>((qs, qp, qo, _), _). slot_is s qs \<and> slot_is p qp \<and> slot_is ob qo) quads)))"
  have go: "(g, tr) \<in> set out \<longleftrightarrow>
    (\<exists>qs qp qo t b. slots_match s p ob (qs, qp, qo, g) \<and> in_scope at scope (qs, qp, qo, g) \<and>
      live_at ?m (ra_ts at) ?vt (qs, qp, qo, g) t b \<and> reconstruct E st qs qp qo t b = Inr tr)"
    if gp: "?go p = Inr out" for p
  proof -
    obtain ord s' p' ob' g' where pf: "choose_order scope s p ob = (ord, order_prefix ord s' p' ob' g')"
      "\<And>ids. slots_match s p ob ids \<Longrightarrow> in_scope at scope ids \<Longrightarrow> selects ord s' p' ob' g' ids"
      using choose_order_prefix [of scope s p ob] by metis
    obtain quads where q: "snapshot_scan_keyed E now st (order_cf ord) ord
        (order_prefix ord s' p' ob' g') at scope = Inr quads"
      "out = map (\<lambda>((_, _, _, g), t). (g, t))
        (filter (\<lambda>((qs, qp, qo, _), _). slot_is s qs \<and> slot_is p qp \<and> slot_is ob qo) quads)"
      using gp by (auto simp: pf(1))
    have "(g, tr) \<in> set out \<longleftrightarrow>
        (\<exists>qs qp qo. ((qs, qp, qo, g), tr) \<in> set quads \<and> slots_match s p ob (qs, qp, qo, g))"
      by (force simp: q(2) slots_match_def)
    then show ?thesis
      unfolding scan_keyed_set(2) [OF assms(1) q(1)] rebuild_def prod.case using pf(2) by blast
  qed
  show ?thesis
  proof (cases pred)
    case None
    then have "?go None = Inr out" using assms(2) by (simp add: scan_scoped_at_def)
    from go [OF this] None show ?thesis by simp
  next
    case (Some name)
    show ?thesis
    proof (cases "predicate_id st name")
      case None
      with Some assms(2) show ?thesis by (simp add: scan_scoped_at_def)
    next
      case (Some i)
      with \<open>pred = Some name\<close> have "?go (Some i) = Inr out"
        using assms(2) by (simp add: scan_scoped_at_def)
      from go [OF this] Some \<open>pred = Some name\<close> show ?thesis by simp
    qed
  qed
qed

end

text \<open>A union scan keeps, per \<open>(s, p, o)\<close>, the triple of the lowest graph.\<close>

definition spo_of :: "quad_ids \<Rightarrow> node_id \<times> u32 \<times> node_id" where
  "spo_of = (\<lambda>(s, p, ob, g). (s, p, ob))"

lemma union_step_eq:
  "union_step (ids, t) m =
    (case hm_get m (spo_of ids) of
       Some (prev, _) \<Rightarrow> if prev \<le> graph_of_ids ids then m
         else hm_insert (spo_of ids) (graph_of_ids ids, t) m
     | None \<Rightarrow> hm_insert (spo_of ids) (graph_of_ids ids, t) m)"
  by (auto simp: union_step_def spo_of_def split: prod.splits option.splits)

lemma spo_graph_inject: "spo_of i = spo_of j \<Longrightarrow> graph_of_ids i = graph_of_ids j \<Longrightarrow> i = j"
  by (cases i; cases j) (simp add: spo_of_def)

definition lowest ::
  "(quad_ids \<times> 'a) list \<Rightarrow> node_id \<times> u32 \<times> node_id \<Rightarrow> (graph_id \<times> 'a) option \<Rightarrow> bool" where
  "lowest quads spo r \<longleftrightarrow>
    (case r of None \<Rightarrow> \<not> (\<exists>ids t. (ids, t) \<in> set quads \<and> spo_of ids = spo)
    | Some (g, t) \<Rightarrow> (\<exists>ids. ((ids, t) \<in> set quads \<and> spo_of ids = spo) \<and> graph_of_ids ids = g) \<and>
        (\<forall>ids t. (ids, t) \<in> set quads \<and> spo_of ids = spo \<longrightarrow> g \<le> graph_of_ids ids))"

lemma lowest_other:
  assumes "spo_of ids \<noteq> spo"
  shows "lowest (quads @ [(ids, t)]) spo r \<longleftrightarrow> lowest quads spo r"
proof -
  have "((i, u) \<in> set (quads @ [(ids, t)]) \<and> spo_of i = spo) = ((i, u) \<in> set quads \<and> spo_of i = spo)" for i u
    using assms by auto
  then show ?thesis by (simp only: lowest_def)
qed

lemma union_fold:
  "distinct (map fst (fold union_step quads [])) \<and>
   (\<forall>spo. lowest quads spo (hm_get (fold union_step quads []) spo))"
proof (induction quads rule: rev_induct)
  case (snoc x quads)
  obtain ids t where x: "x = (ids, t)" by (cases x)
  let ?m = "fold union_step quads []"
  have IH: "distinct (map fst ?m)" "\<And>spo. lowest quads spo (hm_get ?m spo)"
    using snoc by auto
  have one: "fold union_step (quads @ [x]) [] = union_step (ids, t) ?m" by (simp add: x)
  have "distinct (map fst (union_step (ids, t) ?m))"
    using IH(1) by (auto simp: union_step_eq intro: hm_distinct_insert split: option.splits)
  moreover have "lowest (quads @ [x]) spo (hm_get (union_step (ids, t) ?m) spo)" for spo
  proof (cases "spo = spo_of ids")
    case False
    then have "hm_get (union_step (ids, t) ?m) spo = hm_get ?m spo"
      by (auto simp: union_step_eq hm_get_insert split: option.splits)
    with IH(2) [of spo] False show ?thesis by (simp add: x lowest_other)
  next
    case True
    show ?thesis
    proof (cases "hm_get ?m spo")
      case None
      with IH(2) [of spo] True show ?thesis
        by (auto simp: lowest_def x union_step_eq hm_get_insert)
    next
      case (Some gu)
      obtain g u where gu: "gu = (g, u)" by (cases gu)
      have "lowest quads spo (Some (g, u))" using IH(2) [of spo] Some gu by simp
      then obtain i where i: "(i, u) \<in> set quads" "spo_of i = spo" "graph_of_ids i = g"
        "\<And>i' t'. (i', t') \<in> set quads \<Longrightarrow> spo_of i' = spo \<Longrightarrow> g \<le> graph_of_ids i'"
        unfolding lowest_def option.case prod.case by blast
      show ?thesis
      proof (cases "g \<le> graph_of_ids ids")
        case le: True
        then have "union_step (ids, t) ?m = ?m" using Some gu True by (simp add: union_step_eq)
        with Some gu i le show ?thesis by (auto simp: lowest_def x)
      next
        case gt: False
        then have "union_step (ids, t) ?m = hm_insert spo (graph_of_ids ids, t) ?m"
          using Some gu True by (simp add: union_step_eq)
        moreover have "graph_of_ids ids \<le> graph_of_ids i'" if "(i', t') \<in> set quads" "spo_of i' = spo" for i' t'
          using i(4) [OF that] gt by auto
        ultimately show ?thesis using True by (auto simp: lowest_def x hm_get_insert)
      qed
    qed
  qed
  ultimately show ?case unfolding one by blast
qed (simp add: lowest_def)

end
