(* ===== verification/Store_Write.thy ===== *)
theory Store_Write
  imports Scan_Spec
begin

text \<open>
  The write path of \<open>polargraph-storage/src/store.rs\<close>: encoding a value for the index, the eight
  entries of a quad version, the open values a \<open>Replace\<close> write closes, trigram and annotation
  entries, and \<open>stage_writes\<close>, which turns the buffered writes of a transaction into one batch.
  \<open>WriteMode\<close> is from \<open>mvcc.rs\<close>. A \<open>WriteBatch\<close> is the list of its operations, and the borrowed
  batch, the staged values and the staged quads are threaded through as one record.
\<close>


section \<open>Write modes and pending writes\<close>

datatype write_mode = Auto | Replace | Add

definition resolve :: "write_mode \<Rightarrow> triple \<Rightarrow> write_mode" where
  "resolve mode t =
    (case mode of
       Auto \<Rightarrow> (case t of
           Property _ _ _ r \<Rightarrow> if vt_end r = END_OF_TIME then Replace else Add
         | _ \<Rightarrow> Add)
     | m \<Rightarrow> m)"

record pending_write =
  pw_triple :: triple
  pw_graph :: graph_id
  pw_mode :: write_mode

type_synonym staged_quad = "quad_key \<times> bytes"

type_synonym staged_values = "((node_id \<times> u32 \<times> graph_id) \<times> (node_id \<times> bytes) list) list"

record stage =
  sg_batch :: "batch_op list"
  sg_slots :: staged_values
  sg_quads :: "staged_quad list"


section \<open>Entries\<close>

definition encode_epo_value :: "bitemporal_range \<Rightarrow> bytes" where
  "encode_epo_value r = ts_bytes (vt_start r) @ ts_bytes (vt_end r)"

definition encode_property_entry ::
  "('d, 'm) env_scheme \<Rightarrow> ('d, 's) store_scheme \<Rightarrow> batch_op list \<Rightarrow> value \<Rightarrow> bitemporal_range \<Rightarrow>
    (bytes \<times> batch_op list) res" where
  "encode_property_entry E st batch v r =
    rbind (encode_property E v r) (\<lambda>inline.
      if length inline - 17 \<le> st_inline_max st then Inr (inline, batch)
      else
        rbind (cf_handle E cf_BLOB st) (\<lambda>_.
        rbind (encode_blob E v) (\<lambda>blob.
        Inr (encode_property_ref r, batch @ [Put cf_BLOB (content_hash (xxh3_128 E) v) blob]))))"

definition batch_quad :: "quad_key \<Rightarrow> bytes \<Rightarrow> batch_op list" where
  "batch_quad q v = map (\<lambda>ord. Put (order_cf ord) (order_encode ord q) v) order_ALL"

definition order_handles :: "('d, 'm) env_scheme \<Rightarrow> ('d, 's) store_scheme \<Rightarrow> unit list res" where
  "order_handles E st = rtraverse (\<lambda>ord. cf_handle E (order_cf ord) st) order_ALL"

text \<open>The loop of \<open>open_values\<close>: the last version seen of each value.\<close>

definition open_step ::
  "bytes \<times> bytes \<Rightarrow> (node_id \<times> bytes) list \<Rightarrow> (node_id \<times> bytes) list res" where
  "open_step = (\<lambda>(k, v) latest.
    rbind (order_decode Gspo k) (\<lambda>q.
      if latest \<noteq> [] \<and> fst (last latest) = qk_o q
      then Inr (butlast latest @ [(qk_o q, v)])
      else Inr (latest @ [(qk_o q, v)])))"

definition is_open :: "timestamp \<Rightarrow> bytes \<Rightarrow> bool" where
  "is_open at b \<longleftrightarrow>
    (b = [] \<or> hd b \<noteq> DISC_RELATION) \<and>
    (case valid_time b of Some (_, ve) \<Rightarrow> ve > at | None \<Rightarrow> False)"

definition open_values ::
  "('d, 'm) env_scheme \<Rightarrow> ('d, 's) store_scheme \<Rightarrow> node_id \<Rightarrow> u32 \<Rightarrow> graph_id \<Rightarrow> timestamp \<Rightarrow>
    (node_id \<times> bytes) list res" where
  "open_values E st s p g at =
    rbind (iter_prefix E (st_db st) (order_cf Gspo) (order_prefix Gspo (Some s) (Some p) None (Some g)))
      (\<lambda>items.
      rbind (rfold open_step items []) (\<lambda>latest.
      Inr (filter (\<lambda>(_, b). is_open at b) latest)))"

definition TRIGRAM_MAX_TEXT_BYTES :: nat where
  "TRIGRAM_MAX_TEXT_BYTES = 512"

definition batch_text_trigrams ::
  "('d, 'm) env_scheme \<Rightarrow> ('d, 's) store_scheme \<Rightarrow> node_id \<Rightarrow> u32 \<Rightarrow> graph_id \<Rightarrow> string \<Rightarrow>
    batch_op list \<Rightarrow> batch_op list res" where
  "batch_text_trigrams E st s p g text batch =
    (if length (as_bytes text) > TRIGRAM_MAX_TEXT_BYTES then Inr batch
     else rbind (cf_handle E cf_TRI st) (\<lambda>_.
       Inr (batch @ map (\<lambda>tri. Put cf_TRI (encode_tri tri p g s) []) (extract_trigrams text))))"

definition batch_epa ::
  "('d, 'm) env_scheme \<Rightarrow> ('d, 's) store_scheme \<Rightarrow> edge_id \<Rightarrow> u32 \<Rightarrow> graph_id \<Rightarrow> timestamp \<Rightarrow> bytes \<Rightarrow>
    batch_op list \<Rightarrow> batch_op list res" where
  "batch_epa E st e p g t v batch =
    rbind (cf_handle E cf_EPA st) (\<lambda>_.
    rbind (cf_handle E cf_PEA st) (\<lambda>_.
    Inr (batch @ [Put cf_EPA (encode_epa_key e p g t) v, Put cf_PEA (encode_pea_key p e g t) v])))"

definition batch_epo ::
  "('d, 'm) env_scheme \<Rightarrow> ('d, 's) store_scheme \<Rightarrow> edge_id \<Rightarrow> u32 \<Rightarrow> node_id \<Rightarrow> graph_id \<Rightarrow>
    timestamp \<Rightarrow> bytes \<Rightarrow> batch_op list \<Rightarrow> batch_op list res" where
  "batch_epo E st e p ob g t v batch =
    rbind (cf_handle E cf_EPO st) (\<lambda>_.
    Inr (batch @ [Put cf_EPO (encode_epo_key e p ob g t) v]))"


section \<open>Staging\<close>

definition stage_quad :: "quad_key \<Rightarrow> bytes \<Rightarrow> stage \<Rightarrow> stage" where
  "stage_quad q v sg =
    sg\<lparr>sg_batch := sg_batch sg @ batch_quad q v, sg_quads := sg_quads sg @ [(q, v)]\<rparr>"

text \<open>
  Values staged earlier in the batch supersede their stored versions; those the batch has already
  closed are not closed again.
\<close>

definition drain_step ::
  "node_id \<times> bytes \<Rightarrow> (node_id \<times> bytes) list \<Rightarrow> (node_id \<times> bytes) list" where
  "drain_step = (\<lambda>(staged_o, staged_b) to_close.
    (let rest = filter (\<lambda>(other, _). other \<noteq> staged_o) to_close in
     case valid_time staged_b of
       Some (_, ve) \<Rightarrow> if ve = END_OF_TIME then rest @ [(staged_o, staged_b)] else rest
     | None \<Rightarrow> rest))"

definition close_step ::
  "(node_id \<Rightarrow> quad_key) \<Rightarrow> node_id \<Rightarrow> timestamp \<Rightarrow> node_id \<times> bytes \<Rightarrow> stage \<Rightarrow> stage res" where
  "close_step key ob closing_at = (\<lambda>(other, b) sg.
    if other = ob then Inr sg
    else rbind (with_vt_end b closing_at) (\<lambda>closed. Inr (stage_quad (key other) closed sg)))"

definition staged_slot :: "stage \<Rightarrow> node_id \<times> u32 \<times> graph_id \<Rightarrow> (node_id \<times> bytes) list" where
  "staged_slot sg k = (case hm_get (sg_slots sg) k of Some xs \<Rightarrow> xs | None \<Rightarrow> [])"

definition stage_closings ::
  "('d, 'm) env_scheme \<Rightarrow> ('d, 's) store_scheme \<Rightarrow> node_id \<Rightarrow> u32 \<Rightarrow> graph_id \<Rightarrow> timestamp \<Rightarrow>
    node_id \<Rightarrow> timestamp \<Rightarrow> (node_id \<times> bytes) list \<Rightarrow> stage \<Rightarrow> stage res" where
  "stage_closings E st s p g t ob closing_at slot sg =
    rbind (open_values E st s p g closing_at) (\<lambda>opens.
      rfold (close_step (\<lambda>other. \<lparr>qk_s = s, qk_p = p, qk_o = other, qk_g = g, qk_tt = t\<rparr>) ob closing_at)
        (fold drain_step slot opens) sg)"

text \<open>The end of the property arm: remember the value, write its quad, index its text.\<close>

definition stage_value ::
  "('d, 'm) env_scheme \<Rightarrow> ('d, 's) store_scheme \<Rightarrow> quad_key \<Rightarrow> value \<Rightarrow> bytes \<Rightarrow>
    (node_id \<times> bytes) list \<Rightarrow> stage \<Rightarrow> stage res" where
  "stage_value E st q v b slot sg =
    (let sg1 = stage_quad q b (sg\<lparr>sg_slots :=
           hm_insert (qk_s q, qk_p q, qk_g q) (slot @ [(qk_o q, b)]) (sg_slots sg)\<rparr>)
     in case value_as_text v of
          None \<Rightarrow> Inr sg1
        | Some text \<Rightarrow>
            rbind (batch_text_trigrams E st (qk_s q) (qk_p q) (qk_g q) text (sg_batch sg1)) (\<lambda>batch.
            Inr (sg1\<lparr>sg_batch := batch\<rparr>)))"

definition stage_property ::
  "('d, 'm) env_scheme \<Rightarrow> pending_write \<Rightarrow> node_id \<Rightarrow> u32 \<Rightarrow> value \<Rightarrow> bitemporal_range \<Rightarrow> stage \<Rightarrow>
    ('d, 's) store_scheme \<Rightarrow> stage res" where
  "stage_property E w s p v r sg st =
    (let g = pw_graph w;
         ob = value_object (xxh3_128 E) v;
         replace = (resolve (pw_mode w) (pw_triple w) = Replace);
         slot = staged_slot sg (s, p, g);
         q = \<lparr>qk_s = s, qk_p = p, qk_o = ob, qk_g = g, qk_tt = tt r\<rparr>
     in rbind (encode_property_entry E st (sg_batch sg) v r) (\<lambda>(b, batch1).
        rbind (if replace
               then stage_closings E st s p g (tt r) ob (vt_start r) slot (sg\<lparr>sg_batch := batch1\<rparr>)
               else Inr (sg\<lparr>sg_batch := batch1\<rparr>)) (\<lambda>sg2.
        stage_value E st q v b (if replace then [] else slot) sg2)))"

definition stage_write ::
  "('d, 'm) env_scheme \<Rightarrow> timestamp \<Rightarrow> pending_write \<Rightarrow> stage \<Rightarrow> ('d store, stage) op" where
  "stage_write E t w sg =
    (let r = (triple_temporal (pw_triple w))\<lparr>tt := t\<rparr>; g = pw_graph w in
     sbind (intern_predicate E (pred_str (triple_predicate (pw_triple w)))) (\<lambda>p.
     slift (\<lambda>st.
       case pw_triple w of
         Relation s _ ob e _ \<Rightarrow>
           Inr (stage_quad \<lparr>qk_s = s, qk_p = p, qk_o = ob, qk_g = g, qk_tt = t\<rparr>
             (encode_relation e r) sg)
       | Property s _ v _ \<Rightarrow> stage_property E w s p v r sg st
       | EdgeProperty e _ v _ \<Rightarrow>
           rbind (encode_property E v r) (\<lambda>b.
           rbind (batch_epa E st e p g t b (sg_batch sg)) (\<lambda>batch. Inr (sg\<lparr>sg_batch := batch\<rparr>)))
       | EdgeRelation e _ ob _ \<Rightarrow>
           rbind (batch_epo E st e p ob g t (encode_epo_value r) (sg_batch sg)) (\<lambda>batch.
           Inr (sg\<lparr>sg_batch := batch\<rparr>)))))"

definition stage_writes ::
  "('d, 'm) env_scheme \<Rightarrow> batch_op list \<Rightarrow> pending_write list \<Rightarrow> timestamp \<Rightarrow>
    ('d store, stage) op" where
  "stage_writes E batch ws t =
    sbind (slift (order_handles E)) (\<lambda>_.
    sbind (slift (cf_handle E (order_cf Gspo))) (\<lambda>_.
    smapM (stage_write E t) ws \<lparr>sg_batch = batch, sg_slots = [], sg_quads = []\<rparr>))"

end
