(* ===== verification/Changes.thy ===== *)
theory Changes
  imports Store_Write
begin

text \<open>
  The change log (\<open>polargraph-storage/src/changes.rs\<close>): the entry written with every commit, its
  decoder, reading the log after a point, the floor below which it is not complete, and pruning.
\<close>

datatype graph_op = Created graph_id | Dropped graph_id | Copied graph_id graph_id

text \<open>\<open>Copied source target\<close>.\<close>

record change_record =
  cr_ts :: timestamp
  cr_author :: string
  cr_ops :: "graph_op list"
  cr_quads :: "(graph_id \<times> triple) list"

definition CHG_VERSION :: byte where
  "CHG_VERSION = 1"

definition META_CHANGES_FLOOR :: bytes where
  "META_CHANGES_FLOOR = as_bytes ''__changes__/floor''"


section \<open>Encoding\<close>

text \<open>\<open>len() as u16\<close> and \<open>len() as u32\<close> keep the low bits.\<close>

definition u16_len :: "'a list \<Rightarrow> bytes" where
  "u16_len xs = be_bytes 2 (of_nat (length xs) :: u16)"

definition u32_len :: "'a list \<Rightarrow> bytes" where
  "u32_len xs = be_bytes 4 (of_nat (length xs) :: u32)"

fun op_bytes :: "graph_op \<Rightarrow> bytes" where
  "op_bytes (Created g) = 1 # graph_bytes g @ graph_bytes DEFAULT_GRAPH"
| "op_bytes (Dropped g) = 2 # graph_bytes g @ graph_bytes DEFAULT_GRAPH"
| "op_bytes (Copied source target) = 3 # graph_bytes target @ graph_bytes source"

definition quad_entry_bytes :: "staged_quad \<Rightarrow> bytes" where
  "quad_entry_bytes = (\<lambda>(q, v).
    node_bytes (qk_s q) @ be_bytes 4 (qk_p q) @ node_bytes (qk_o q) @ graph_bytes (qk_g q)
    @ u32_len v @ v)"

definition change_bytes :: "string \<Rightarrow> graph_op list \<Rightarrow> staged_quad list \<Rightarrow> bytes" where
  "change_bytes author ops quads =
    (let a = take (min (length (as_bytes author)) 65535) (as_bytes author) in
     CHG_VERSION # u16_len a @ a
     @ u16_len ops @ concat (map op_bytes ops)
     @ u32_len quads @ concat (map quad_entry_bytes quads))"

definition batch_change ::
  "('d, 'm) env_scheme \<Rightarrow> ('d, 's) store_scheme \<Rightarrow> timestamp \<Rightarrow> string \<Rightarrow> graph_op list \<Rightarrow>
    staged_quad list \<Rightarrow> batch_op list \<Rightarrow> batch_op list res" where
  "batch_change E st t author ops quads batch =
    (if ops = [] \<and> quads = [] then Inr batch
     else rbind (cf_handle E cf_CHG st) (\<lambda>_.
       Inr (batch @ [Put cf_CHG (ts_bytes t) (change_bytes author ops quads)])))"


section \<open>Decoding\<close>

type_synonym reader = "bytes \<times> nat"

definition rd_bytes :: "nat \<Rightarrow> reader \<Rightarrow> (bytes \<times> reader) option" where
  "rd_bytes n r =
    (let (buf, pos) = r in
     if pos + n \<le> length buf then Some (bslice pos (pos + n) buf, (buf, pos + n)) else None)"

definition rd_u8 :: "reader \<Rightarrow> (byte \<times> reader) option" where
  "rd_u8 r = map_option (\<lambda>(b, r). (hd b, r)) (rd_bytes 1 r)"

definition rd_u16 :: "reader \<Rightarrow> (u16 \<times> reader) option" where
  "rd_u16 r = map_option (\<lambda>(b, r). (from_be b, r)) (rd_bytes 2 r)"

definition rd_u32 :: "reader \<Rightarrow> (u32 \<times> reader) option" where
  "rd_u32 r = map_option (\<lambda>(b, r). (from_be b, r)) (rd_bytes 4 r)"

definition rd_node :: "reader \<Rightarrow> (node_id \<times> reader) option" where
  "rd_node r = map_option (\<lambda>(b, r). (node_id_from b, r)) (rd_bytes 16 r)"

definition bad_entry :: "timestamp \<Rightarrow> storage_error" where
  "bad_entry t = KeyDecode (''corrupt change-log entry at '' @ int_str (sint (ts_us t)))"

fun rd_ops :: "storage_error \<Rightarrow> nat \<Rightarrow> reader \<Rightarrow> (graph_op list \<times> reader) res" where
  "rd_ops bad 0 r = Inr ([], r)"
| "rd_ops bad (Suc n) r =
    rbind (ok_or (rd_u8 r) bad) (\<lambda>(kind, r1).
    rbind (ok_or (rd_u32 r1) bad) (\<lambda>(g, r2).
    rbind (ok_or (rd_u32 r2) bad) (\<lambda>(source, r3).
    rbind (if kind = 1 then Inr (Created (GraphId g))
           else if kind = 2 then Inr (Dropped (GraphId g))
           else if kind = 3 then Inr (Copied (GraphId source) (GraphId g))
           else Inl bad) (\<lambda>op.
    rbind (rd_ops bad n r3) (\<lambda>(ops, r4). Inr (op # ops, r4))))))"

fun rd_quads ::
  "('d, 'm) env_scheme \<Rightarrow> ('d, 's) store_scheme \<Rightarrow> timestamp \<Rightarrow> storage_error \<Rightarrow> nat \<Rightarrow> reader \<Rightarrow>
    ((graph_id \<times> triple) list \<times> reader) res" where
  "rd_quads E st t bad 0 r = Inr ([], r)"
| "rd_quads E st t bad (Suc n) r =
    rbind (ok_or (rd_node r) bad) (\<lambda>(s, r1).
    rbind (ok_or (rd_u32 r1) bad) (\<lambda>(p, r2).
    rbind (ok_or (rd_node r2) bad) (\<lambda>(ob, r3).
    rbind (ok_or (rd_u32 r3) bad) (\<lambda>(g, r4).
    rbind (ok_or (rd_u32 r4) bad) (\<lambda>(len, r5).
    rbind (ok_or (rd_bytes (unat len) r5) bad) (\<lambda>(v, r6).
    rbind (reconstruct E st s p ob t v) (\<lambda>tr.
    rbind (rd_quads E st t bad n r6) (\<lambda>(qs, r7). Inr ((GraphId g, tr) # qs, r7)))))))))"

definition decode_change ::
  "('d, 'm) env_scheme \<Rightarrow> ('d, 's) store_scheme \<Rightarrow> timestamp \<Rightarrow> bytes \<Rightarrow> change_record res" where
  "decode_change E st t v =
    (let bad = bad_entry t in
     rbind (ok_or (rd_u8 (v, 0)) bad) (\<lambda>(version, r0).
     if version \<noteq> CHG_VERSION
     then Inl (KeyDecode (''unsupported change-log version at '' @ int_str (sint (ts_us t))))
     else
       rbind (ok_or (rd_u16 r0) bad) (\<lambda>(author_len, r1).
       rbind (ok_or (rd_bytes (unat author_len) r1) bad) (\<lambda>(a, r2).
       rbind (ok_or (from_utf8 a) bad) (\<lambda>author.
       rbind (ok_or (rd_u16 r2) bad) (\<lambda>(n_ops, r3).
       rbind (rd_ops bad (unat n_ops) r3) (\<lambda>(ops, r4).
       rbind (ok_or (rd_u32 r4) bad) (\<lambda>(n_quads, r5).
       rbind (rd_quads E st t bad (unat n_quads) r5) (\<lambda>(quads, _).
       Inr \<lparr>cr_ts = t, cr_author = author, cr_ops = ops, cr_quads = quads\<rparr>)))))))))"


section \<open>The log\<close>

text \<open>
  Keys of the log are eight bytes; the code slices \<open>key[..8]\<close> before it converts, so a shorter key
  would panic where the model reports the conversion's error.
\<close>

text \<open>\<open>after.0.saturating_add(1).max(0)\<close>: where reading resumes.\<close>

definition ts_of_int :: "int \<Rightarrow> timestamp" where
  "ts_of_int i = Timestamp (word_of_int i)"

definition ts_int :: "timestamp \<Rightarrow> int" where
  "ts_int t = sint (ts_us t)"

definition resume_point :: "timestamp \<Rightarrow> timestamp" where
  "resume_point after = ts_of_int (max (min (ts_int after + 1) (2 ^ 63 - 1)) 0)"

fun take_changes ::
  "('d, 'm) env_scheme \<Rightarrow> ('d, 's) store_scheme \<Rightarrow> nat \<Rightarrow> (bytes \<times> bytes) list \<Rightarrow>
    change_record list res" where
  "take_changes E st limit [] = Inr []"
| "take_changes E st limit ((k, v) # items) =
    (case limit of 0 \<Rightarrow> Inr []
     | Suc n \<Rightarrow>
       if length k < 8 then Inl (KeyDecode ''change-log key must be 8 bytes'')
       else rbind (decode_change E st (ts_from_bytes (take 8 k)) v) (\<lambda>c.
         rbind (take_changes E st n items) (\<lambda>cs. Inr (c # cs))))"

definition changes_after ::
  "('d, 'm) env_scheme \<Rightarrow> ('d, 's) store_scheme \<Rightarrow> timestamp \<Rightarrow> nat \<Rightarrow> change_record list res" where
  "changes_after E st after limit =
    rbind (cf_handle E cf_CHG st) (\<lambda>_.
    rbind (from_rocks (rk_from E (st_db st) cf_CHG (ts_bytes (resume_point after)))) (\<lambda>items.
    take_changes E st limit items))"

definition changes_floor ::
  "('d, 'm) env_scheme \<Rightarrow> ('d, 's) store_scheme \<Rightarrow> timestamp res" where
  "changes_floor E st =
    rbind (db_get E (st_db st) cf_META META_CHANGES_FLOOR) (\<lambda>r.
    Inr (case r of Some v \<Rightarrow> if length v = 8 then ts_from_bytes v else Timestamp 0
         | None \<Rightarrow> Timestamp 0))"

definition init_changes_floor :: "('d, 'm) env_scheme \<Rightarrow> ('d store, unit) op" where
  "init_changes_floor E st =
    (case db_get E (st_db st) cf_META META_CHANGES_FLOOR of
       Inl e \<Rightarrow> (Inl e, st)
     | Inr (Some _) \<Rightarrow> (Inr (), st)
     | Inr None \<Rightarrow>
         raw_write E [Put cf_META META_CHANGES_FLOOR (ts_bytes (st_committed st))] st)"

definition prune_changes ::
  "('d, 'm) env_scheme \<Rightarrow> timestamp \<Rightarrow> ('d store, nat) op" where
  "prune_changes E before st =
    (if is_replica st then (Inl (ReadOnly ''change-log pruning runs on the primary''), st)
     else
       let end = ts_bytes (ts_of_int (max (ts_int before) 0)) in
       sbind (slift (cf_handle E cf_CHG)) (\<lambda>_.
       sbind (slift (\<lambda>st. from_rocks (rk_from E (st_db st) cf_CHG []))) (\<lambda>items.
       sbind (slift (changes_floor E)) (\<lambda>floor.
       sbind (slift (\<lambda>st.
         if before > floor
         then rbind (cf_handle E cf_META st) (\<lambda>_.
           Inr [Put cf_META META_CHANGES_FLOOR (ts_bytes (ts_of_int (ts_int before - 1)))])
         else Inr [])) (\<lambda>raise.
       sbind (raw_write E (DeleteRange cf_CHG (ts_bytes (Timestamp 0)) end # raise)) (\<lambda>_.
       sret (length (takeWhile (\<lambda>(k, _). k < end) items))))))) st)"


section \<open>Round trip\<close>

text \<open>The reader stands before \<open>rest\<close>.\<close>

definition before :: "reader \<Rightarrow> bytes \<Rightarrow> bool" where
  "before r rest \<longleftrightarrow> snd r \<le> length (fst r) \<and> drop (snd r) (fst r) = rest"

lemma before_start: "before (v, 0) v"
  by (simp add: before_def)

lemma rd_bytes_before:
  assumes "before r (b @ rest)"
  shows "\<exists>r'. rd_bytes (length b) r = Some (b, r') \<and> before r' rest"
proof -
  obtain buf pos where r: "r = (buf, pos)" by (cases r)
  have a: "pos \<le> length buf" "drop pos buf = b @ rest" using assms by (simp_all add: before_def r)
  have "length (drop pos buf) = length b + length rest" using a(2) by simp
  then have len: "pos + length b \<le> length buf" using a(1) by simp
  have "bslice pos (pos + length b) buf = b" by (simp add: bslice_def a(2))
  moreover have "drop (pos + length b) buf = rest"
    using a(2) by (metis add.commute append_eq_conv_conj drop_drop)
  ultimately show ?thesis using len by (simp add: rd_bytes_def r before_def)
qed

lemma rd_u8_before: "before r (x # rest) \<Longrightarrow> \<exists>r'. rd_u8 r = Some (x, r') \<and> before r' rest"
  using rd_bytes_before [of r "[x]" rest] by (auto simp: rd_u8_def)

lemma rd_u16_before:
  "before r (be_bytes 2 w @ rest) \<Longrightarrow> \<exists>r'. rd_u16 r = Some (w, r') \<and> before r' rest"
  using rd_bytes_before [of r "be_bytes 2 w" rest] by (auto simp: rd_u16_def)

lemma rd_u32_before:
  "before r (be_bytes 4 w @ rest) \<Longrightarrow> \<exists>r'. rd_u32 r = Some (w, r') \<and> before r' rest"
  using rd_bytes_before [of r "be_bytes 4 w" rest] by (auto simp: rd_u32_def)

lemma rd_graph_before:
  "before r (graph_bytes g @ rest) \<Longrightarrow> \<exists>r'. rd_u32 r = Some (graph_num g, r') \<and> before r' rest"
  unfolding graph_bytes_def by (rule rd_u32_before)

lemma rd_node_before:
  "before r (node_bytes n @ rest) \<Longrightarrow> \<exists>r'. rd_node r = Some (n, r') \<and> before r' rest"
  using rd_bytes_before [of r "node_bytes n" rest] by (auto simp: rd_node_def)

lemma rd_ops_before:
  "before r (concat (map op_bytes ops) @ rest) \<Longrightarrow>
    \<exists>r'. rd_ops bad (length ops) r = Inr (ops, r') \<and> before r' rest"
proof (induction ops arbitrary: r)
  case (Cons op ops)
  have one: "\<exists>r1 r2 r3 kind g source. rd_u8 r = Some (kind, r1) \<and> rd_u32 r1 = Some (g, r2) \<and>
      rd_u32 r2 = Some (source, r3) \<and> before r3 (concat (map op_bytes ops) @ rest) \<and>
      (if kind = 1 then Inr (Created (GraphId g))
       else if kind = 2 then Inr (Dropped (GraphId g))
       else if kind = 3 then Inr (Copied (GraphId source) (GraphId g))
       else Inl bad) = Inr op"
  proof -
    obtain kind g source where k: "op_bytes op = kind # graph_bytes g @ graph_bytes source"
      "(if kind = 1 then Inr (Created g) else if kind = 2 then Inr (Dropped g)
        else if kind = 3 then Inr (Copied source g) else Inl bad) = Inr op"
      by (cases op) force+
    have "before r (kind # graph_bytes g @ graph_bytes source @ concat (map op_bytes ops) @ rest)"
      using Cons.prems k(1) by simp
    then obtain r1 where 1: "rd_u8 r = Some (kind, r1)"
      "before r1 (graph_bytes g @ graph_bytes source @ concat (map op_bytes ops) @ rest)"
      using rd_u8_before by blast
    then obtain r2 where 2: "rd_u32 r1 = Some (graph_num g, r2)"
      "before r2 (graph_bytes source @ concat (map op_bytes ops) @ rest)"
      using rd_graph_before by blast
    then obtain r3 where 3: "rd_u32 r2 = Some (graph_num source, r3)"
      "before r3 (concat (map op_bytes ops) @ rest)"
      using rd_graph_before by blast
    show ?thesis
      by (rule exI [of _ r1], rule exI [of _ r2], rule exI [of _ r3], rule exI [of _ kind],
          rule exI [of _ "graph_num g"], rule exI [of _ "graph_num source"])
        (use 1 2 3 k(2) in \<open>auto split: if_splits\<close>)
  qed
  then obtain r1 r2 r3 kind g source where o: "rd_u8 r = Some (kind, r1)" "rd_u32 r1 = Some (g, r2)"
      "rd_u32 r2 = Some (source, r3)" "before r3 (concat (map op_bytes ops) @ rest)"
      "(if kind = 1 then Inr (Created (GraphId g))
       else if kind = 2 then Inr (Dropped (GraphId g))
       else if kind = 3 then Inr (Copied (GraphId source) (GraphId g))
       else Inl bad) = Inr op" by blast
  obtain r' where "rd_ops bad (length ops) r3 = Inr (ops, r')" "before r' rest"
    using Cons.IH [OF o(4)] by auto
  then show ?case by (simp add: o)
qed simp

lemma rd_quads_before:
  assumes "before r (concat (map quad_entry_bytes quads) @ rest)"
    and "\<forall>(q, v)\<in>set quads. length v < 2 ^ 32"
  shows "rbind (rd_quads E st t bad (length quads) r) (\<lambda>(qs, _). Inr qs) =
    rtraverse (\<lambda>(q, v). rbind (reconstruct E st (qk_s q) (qk_p q) (qk_o q) t v) (\<lambda>tr.
      Inr (qk_g q, tr))) quads"
  using assms
proof (induction quads arbitrary: r)
  case (Cons x quads)
  obtain q v where x: "x = (q, v)" by (cases x)
  let ?rest = "concat (map quad_entry_bytes quads) @ rest"
  let ?t5 = "v @ ?rest" and ?n = "of_nat (length v) :: u32"
  let ?t4 = "be_bytes 4 ?n @ ?t5"
  let ?t3 = "graph_bytes (qk_g q) @ ?t4"
  let ?t2 = "node_bytes (qk_o q) @ ?t3"
  let ?t1 = "be_bytes 4 (qk_p q) @ ?t2"
  have "before r (node_bytes (qk_s q) @ ?t1)"
    using Cons.prems(1) by (simp add: x quad_entry_bytes_def u32_len_def)
  from rd_node_before [OF this] obtain r1 where 1: "rd_node r = Some (qk_s q, r1)" "before r1 ?t1"
    by blast
  from rd_u32_before [OF 1(2)] obtain r2 where 2: "rd_u32 r1 = Some (qk_p q, r2)" "before r2 ?t2"
    by blast
  from rd_node_before [OF 2(2)] obtain r3 where 3: "rd_node r2 = Some (qk_o q, r3)" "before r3 ?t3"
    by blast
  from rd_graph_before [OF 3(2)] obtain r4 where
    4: "rd_u32 r3 = Some (graph_num (qk_g q), r4)" "before r4 ?t4" by blast
  from rd_u32_before [OF 4(2)] obtain r5 where 5: "rd_u32 r4 = Some (?n, r5)" "before r5 ?t5" by blast
  from rd_bytes_before [OF 5(2)] obtain r6 where
    6: "rd_bytes (length v) r5 = Some (v, r6)" "before r6 ?rest" by blast
  note rd = 1(1) 2(1) 3(1) 4(1) 5(1) 6(1)
  have len: "unat (of_nat (length v) :: u32) = length v"
    using Cons.prems(2) by (simp add: x unat_of_nat)
  have "rbind (rd_quads E st t bad (length quads) r6) (\<lambda>(qs, _). Inr qs) =
    rtraverse (\<lambda>(q, v). rbind (reconstruct E st (qk_s q) (qk_p q) (qk_o q) t v) (\<lambda>tr.
      Inr (qk_g q, tr))) quads"
    using Cons.IH [OF 6(2)] Cons.prems(2) by simp
  note IH = this [symmetric]
  show ?case
    by (cases "reconstruct E st (qk_s q) (qk_p q) (qk_o q) t v";
        cases "rd_quads E st t bad (length quads) r6")
      (auto simp: x rd len IH)
qed simp

lemma decode_change_bytes:
  assumes "is_utf8 author" and "length author < 2 ^ 16" and "length ops < 2 ^ 16"
    and "length quads < 2 ^ 32" and "\<forall>(q, v)\<in>set quads. length v < 2 ^ 32"
  shows "decode_change E st t (change_bytes author ops quads) =
    rbind (rtraverse (\<lambda>(q, v). rbind (reconstruct E st (qk_s q) (qk_p q) (qk_o q) t v) (\<lambda>tr.
        Inr (qk_g q, tr))) quads)
      (\<lambda>qs. Inr \<lparr>cr_ts = t, cr_author = author, cr_ops = ops, cr_quads = qs\<rparr>)"
proof -
  let ?v = "change_bytes author ops quads" and ?bad = "bad_entry t"
  let ?q = "concat (map quad_entry_bytes quads)"
  have tk: "take (min (length author) 65535) (as_bytes author) = as_bytes author"
    using assms(2) by simp
  have v: "?v = CHG_VERSION # be_bytes 2 (of_nat (length author) :: u16) @ as_bytes author
      @ be_bytes 2 (of_nat (length ops) :: u16) @ concat (map op_bytes ops)
      @ be_bytes 4 (of_nat (length quads) :: u32) @ ?q @ []"
    by (simp add: change_bytes_def Let_def tk u16_len_def u32_len_def)
  have la: "unat (of_nat (length author) :: u16) = length (as_bytes author)"
    using assms(2) by (simp add: unat_of_nat)
  have lo: "unat (of_nat (length ops) :: u16) = length ops" using assms(3) by (simp add: unat_of_nat)
  have lq: "unat (of_nat (length quads) :: u32) = length quads" using assms(4) by (simp add: unat_of_nat)
  obtain r0 where 0: "rd_u8 (?v, 0) = Some (CHG_VERSION, r0)"
    "before r0 (be_bytes 2 (of_nat (length author) :: u16) @ as_bytes author
      @ be_bytes 2 (of_nat (length ops) :: u16) @ concat (map op_bytes ops)
      @ be_bytes 4 (of_nat (length quads) :: u32) @ ?q @ [])"
    using rd_u8_before before_start [of ?v] unfolding v by blast
  obtain r1 where 1: "rd_u16 r0 = Some (of_nat (length author), r1)"
    "before r1 (as_bytes author @ be_bytes 2 (of_nat (length ops) :: u16) @ concat (map op_bytes ops)
      @ be_bytes 4 (of_nat (length quads) :: u32) @ ?q @ [])"
    using rd_u16_before [OF 0(2)] by blast
  obtain r2 where 2: "rd_bytes (length (as_bytes author)) r1 = Some (as_bytes author, r2)"
    "before r2 (be_bytes 2 (of_nat (length ops) :: u16) @ concat (map op_bytes ops)
      @ be_bytes 4 (of_nat (length quads) :: u32) @ ?q @ [])"
    using rd_bytes_before [OF 1(2)] by blast
  obtain r3 where 3: "rd_u16 r2 = Some (of_nat (length ops), r3)"
    "before r3 (concat (map op_bytes ops) @ be_bytes 4 (of_nat (length quads) :: u32) @ ?q @ [])"
    using rd_u16_before [OF 2(2)] by blast
  obtain r4 where 4: "rd_ops ?bad (length ops) r3 = Inr (ops, r4)"
    "before r4 (be_bytes 4 (of_nat (length quads) :: u32) @ ?q @ [])"
    using rd_ops_before [OF 3(2)] by blast
  obtain r5 where 5: "rd_u32 r4 = Some (of_nat (length quads), r5)" "before r5 (?q @ [])"
    using rd_u32_before [OF 4(2)] by blast
  note q = rd_quads_before [OF 5(2) assms(5), of E st t ?bad, symmetric]
  show ?thesis
    unfolding decode_change_def Let_def q
    by (cases "rd_quads E st t ?bad (length quads) r5")
      (auto simp: 0(1) 1(1) 2(1) [simplified] 3(1) 4(1) 5(1) la lo lq assms(1))
qed

end
