(* ===== verification/Mvcc.thy ===== *)
theory Mvcc
  imports Changes
begin

text \<open>
  Transactions (\<open>polargraph-storage/src/mvcc.rs\<close>): the timestamp oracle, buffered transactions, the
  conflict check, commit, and snapshots with their graph restrictions; from \<open>store.rs\<close> the
  beginning of transactions and \<open>insert_at_ts\<close>. \<open>wall\<close> is the system clock in microseconds. The
  atomics and the commit lock are not modelled: the operations here run one after the other.
\<close>


section \<open>The oracle\<close>

definition read_ts :: "('d, 's) store_scheme \<Rightarrow> timestamp" where
  "read_ts st = st_committed st"

definition advance_to :: "timestamp \<Rightarrow> 'd store \<Rightarrow> 'd store" where
  "advance_to ts st = (if ts > st_committed st then st\<lparr>st_committed := ts\<rparr> else st)"

definition ts_succ :: "timestamp \<Rightarrow> timestamp" where
  "ts_succ t = Timestamp (ts_us t + 1)"

definition begin_commit :: "timestamp \<Rightarrow> 'd store \<Rightarrow> timestamp \<times> 'd store" where
  "begin_commit wall st =
    (let new_ts = max (ts_succ (st_committed st)) wall in (new_ts, st\<lparr>st_committed := new_ts\<rparr>))"

definition notify_commit :: "timestamp \<Rightarrow> 'd store \<Rightarrow> 'd store" where
  "notify_commit ts st = (if ts > st_commits st then st\<lparr>st_commits := ts\<rparr> else st)"


section \<open>Transactions\<close>

record transaction =
  tx_read_ts :: timestamp
  tx_buffer :: "triple list"
  tx_meta :: "(graph_id \<times> write_mode) list"
  tx_iris :: "string list"
  tx_author :: string
  tx_ops :: "graph_op list"

definition tx_new :: "timestamp \<Rightarrow> transaction" where
  "tx_new t = \<lparr>tx_read_ts = t, tx_buffer = [], tx_meta = [], tx_iris = [], tx_author = [], tx_ops = []\<rparr>"

definition begin_tx :: "('d, 's) store_scheme \<Rightarrow> transaction" where
  "begin_tx st = tx_new (read_ts st)"

definition begin_at :: "timestamp \<Rightarrow> ('d, 's) store_scheme \<Rightarrow> transaction res" where
  "begin_at t st =
    (if t > read_ts st
     then Inl (ValidationError (''read_ts '' @ int_str (ts_int t) @ '' is ahead of the latest commit ''
            @ int_str (ts_int (read_ts st))))
     else Inr (tx_new t))"

definition set_author :: "string \<Rightarrow> transaction \<Rightarrow> transaction" where
  "set_author a tx = tx\<lparr>tx_author := a\<rparr>"

definition record_graph_op :: "graph_op \<Rightarrow> transaction \<Rightarrow> transaction" where
  "record_graph_op op tx = tx\<lparr>tx_ops := tx_ops tx @ [op]\<rparr>"

definition bind_iri :: "string \<Rightarrow> transaction \<Rightarrow> transaction" where
  "bind_iri iri tx = tx\<lparr>tx_iris := tx_iris tx @ [iri]\<rparr>"

definition tx_insert_in :: "triple \<Rightarrow> graph_id \<Rightarrow> write_mode \<Rightarrow> transaction \<Rightarrow> transaction" where
  "tx_insert_in t g m tx = tx\<lparr>tx_buffer := tx_buffer tx @ [t], tx_meta := tx_meta tx @ [(g, m)]\<rparr>"

definition tx_insert :: "triple \<Rightarrow> transaction \<Rightarrow> transaction" where
  "tx_insert t tx = tx_insert_in t DEFAULT_GRAPH Auto tx"

definition pending_writes :: "transaction \<Rightarrow> pending_write list" where
  "pending_writes tx =
    map (\<lambda>(t, (g, m)). \<lparr>pw_triple = t, pw_graph = g, pw_mode = m\<rparr>) (zip (tx_buffer tx) (tx_meta tx))"


section \<open>The conflict check\<close>

text \<open>The quads a write conflicts on: \<open>None\<close> for edge annotations.\<close>

definition conflict_prefix ::
  "('d, 'm) env_scheme \<Rightarrow> pending_write \<Rightarrow> u32 \<Rightarrow> bytes option" where
  "conflict_prefix E w p =
    (let g = pw_graph w in
     case pw_triple w of
       Relation s _ ob _ _ \<Rightarrow> Some (order_prefix Gspo (Some s) (Some p) (Some ob) (Some g))
     | Property s _ v _ \<Rightarrow>
         (case resolve (pw_mode w) (pw_triple w) of
            Replace \<Rightarrow> Some (order_prefix Gspo (Some s) (Some p) None (Some g))
          | _ \<Rightarrow> Some (order_prefix Gspo (Some s) (Some p)
                   (Some (value_object (xxh3_128 E) v)) (Some g)))
     | _ \<Rightarrow> None)"

definition check_conflict ::
  "('d, 'm) env_scheme \<Rightarrow> ('d, 's) store_scheme \<Rightarrow> pending_write \<Rightarrow> timestamp \<Rightarrow> timestamp \<Rightarrow>
    (node_id \<times> string) option res" where
  "check_conflict E st w from_ts commit_ts =
    (let s = triple_subject (pw_triple w);
         name = pred_str (triple_predicate (pw_triple w))
     in case predicate_id st name of
          None \<Rightarrow> Inr None
        | Some p \<Rightarrow>
          (case conflict_prefix E w p of
             None \<Rightarrow> Inr None
           | Some pfx \<Rightarrow>
               rbind (iter_prefix E (st_db st) (order_cf Gspo) pfx) (\<lambda>items.
               Inr (if \<exists>(k, v)\<in>set items. key_tt k > from_ts \<and> key_tt k \<le> commit_ts
                    then Some (s, name) else None))))"

fun check_conflicts ::
  "('d, 'm) env_scheme \<Rightarrow> ('d, 's) store_scheme \<Rightarrow> timestamp \<Rightarrow> timestamp \<Rightarrow> pending_write list \<Rightarrow>
    unit res" where
  "check_conflicts E st from_ts commit_ts [] = Inr ()"
| "check_conflicts E st from_ts commit_ts (w # ws) =
    rbind (check_conflict E st w from_ts commit_ts) (\<lambda>c.
      case c of
        Some (s, name) \<Rightarrow> Inl (WriteConflict s name)
      | None \<Rightarrow> check_conflicts E st from_ts commit_ts ws)"


section \<open>Commit\<close>

definition commit_body ::
  "('d, 'm) env_scheme \<Rightarrow> transaction \<Rightarrow> timestamp \<Rightarrow> ('d store, timestamp) op" where
  "commit_body E tx commit_ts =
    (let ws = pending_writes tx in
     sbind (slift (cf_handle E (order_cf Gspo))) (\<lambda>_.
     sbind (slift (\<lambda>st. check_conflicts E st (tx_read_ts tx) commit_ts ws)) (\<lambda>_.
     sbind (stage_writes E [] ws commit_ts) (\<lambda>sg.
     sbind (slift (\<lambda>st. batch_change E st commit_ts (tx_author tx) (tx_ops tx) (sg_quads sg)
       (sg_batch sg))) (\<lambda>batch.
     sbind (slift (\<lambda>st. rfold (batch_iri E st) (tx_iris tx) (batch, []))) (\<lambda>(batch, _).
     sbind (slift (cf_handle E cf_META)) (\<lambda>_.
     sbind (db_write E (batch @ [Put cf_META META_ORACLE_CTR (ts_bytes commit_ts)])) (\<lambda>_ st.
     (Inr commit_ts, notify_commit commit_ts st)))))))))"

definition commit ::
  "('d, 'm) env_scheme \<Rightarrow> timestamp \<Rightarrow> transaction \<Rightarrow> ('d store, timestamp) op" where
  "commit E wall tx st =
    (if tx_buffer tx = [] \<and> tx_iris tx = [] \<and> tx_ops tx = [] then (Inr (tx_read_ts tx), st)
     else let (commit_ts, st1) = begin_commit wall st in commit_body E tx commit_ts st1)"

text \<open>\<open>TripleStore::insert\<close>, and \<open>insert_at_ts\<close>, which bypasses the oracle and the conflict check.\<close>

definition store_insert ::
  "('d, 'm) env_scheme \<Rightarrow> timestamp \<Rightarrow> triple \<Rightarrow> ('d store, unit) op" where
  "store_insert E wall t st = sbind (commit E wall (tx_insert t (begin_tx st))) (\<lambda>_. sret ()) st"

definition insert_at_ts ::
  "('d, 'm) env_scheme \<Rightarrow> triple \<Rightarrow> timestamp \<Rightarrow> ('d store, unit) op" where
  "insert_at_ts E t at st =
    (if is_replica st then (Inl read_only_err, st)
     else let w = \<lparr>pw_triple = t, pw_graph = DEFAULT_GRAPH, pw_mode = Auto\<rparr> in
     sbind (stage_writes E [] [w] at) (\<lambda>sg.
     sbind (slift (\<lambda>st. batch_change E st at [] [] (sg_quads sg) (sg_batch sg))) (\<lambda>batch.
     sbind (db_write E batch) (\<lambda>_ st.
     (Inr (), notify_commit at (advance_to at st))))) st)"


section \<open>Snapshots\<close>

record snapshot =
  sn_ts :: timestamp
  sn_vt :: "timestamp option"
  sn_readable :: "u32 set option"

definition snapshot_new :: "timestamp \<Rightarrow> timestamp \<Rightarrow> snapshot" where
  "snapshot_new now ts = \<lparr>sn_ts = ts, sn_vt = Some now, sn_readable = None\<rparr>"

definition with_readable_graphs :: "u32 set \<Rightarrow> snapshot \<Rightarrow> snapshot" where
  "with_readable_graphs R sn = sn\<lparr>sn_readable := Some R\<rparr>"

definition within_graphs :: "graph_id list \<Rightarrow> snapshot \<Rightarrow> snapshot" where
  "within_graphs gs sn =
    (let included = graph_num ` set gs in
     sn\<lparr>sn_readable := Some (case sn_readable sn of Some r \<Rightarrow> r \<inter> included | None \<Rightarrow> included)\<rparr>)"

definition without_graphs :: "('d, 's) store_scheme \<Rightarrow> u32 set \<Rightarrow> snapshot \<Rightarrow> snapshot" where
  "without_graphs st excluded sn =
    (if excluded = {} then sn
     else
       let readable = (case sn_readable sn of
             Some r \<Rightarrow> r
           | None \<Rightarrow> insert (graph_num DEFAULT_GRAPH) (set (map (\<lambda>(g, _). graph_num g) (list_graphs st))))
       in sn\<lparr>sn_readable := Some (readable - excluded)\<rparr>)"

definition with_vt_as_of :: "timestamp \<Rightarrow> snapshot \<Rightarrow> snapshot" where
  "with_vt_as_of vt sn = sn\<lparr>sn_vt := Some vt\<rparr>"

definition can_read_graph :: "snapshot \<Rightarrow> graph_id \<Rightarrow> bool" where
  "can_read_graph sn g \<longleftrightarrow> readable_admits (sn_readable sn) g"

definition read_at_of :: "snapshot \<Rightarrow> read_at" where
  "read_at_of sn = \<lparr>ra_ts = sn_ts sn, ra_vt = sn_vt sn, ra_readable = sn_readable sn\<rparr>"

fun push_new :: "'a \<Rightarrow> 'a list \<Rightarrow> 'a list" where
  "push_new x xs = (if x \<in> set xs then xs else xs @ [x])"

definition subject_graphs ::
  "('d, 'm) env_scheme \<Rightarrow> timestamp \<Rightarrow> ('d, 's) store_scheme \<Rightarrow> snapshot \<Rightarrow> node_id \<Rightarrow>
    graph_id list res" where
  "subject_graphs E now st sn s =
    rbind (live_subject_graphs_at E now st (node_bytes s) (read_at_of sn)) (\<lambda>live.
      Inr (fold (\<lambda>(_, g) out. push_new g out) live []))"

definition all_subject_graphs ::
  "('d, 'm) env_scheme \<Rightarrow> timestamp \<Rightarrow> ('d, 's) store_scheme \<Rightarrow> snapshot \<Rightarrow> (node_id \<Rightarrow> bool) \<Rightarrow>
    (node_id \<times> graph_id list) list res" where
  "all_subject_graphs E now st sn keep =
    rbind (live_subject_graphs_at E now st [] (read_at_of sn)) (\<lambda>live.
      Inr (fold (\<lambda>(s, g) out.
        if keep s
        then hm_insert s (push_new g (case hm_get out s of Some gs \<Rightarrow> gs | None \<Rightarrow> [])) out
        else out) live []))"

end
