(* ===== verification/Stage_Effect.thy ===== *)
theory Stage_Effect
  imports Mvcc
begin

text \<open>
  What a staged batch does to the store: the eight orders receive exactly the staged quad versions,
  all at the transaction time of the batch; META, the dictionary and the change log are not
  touched; blobs written are decodable. From this follow the facts the properties of commit rest
  on: the index invariant is kept, and versions of other transaction times do not change.
\<close>


section \<open>Puts of quad versions\<close>

primrec op_cf :: "batch_op \<Rightarrow> string" where
  "op_cf (Put cf k v) = cf"
| "op_cf (Delete cf k) = cf"
| "op_cf (DeleteRange cf a b) = cf"

lemma apply_batch_other:
  "\<forall>op\<in>set ops. op_cf op \<noteq> cf \<Longrightarrow> apply_batch ops m cf = m cf"
proof (induction ops arbitrary: m)
  case (Cons op ops)
  have "apply_op op m cf = m cf" using Cons.prems by (cases op) auto
  then show ?case using Cons by simp
qed simp

definition put_quads :: "quad_order \<Rightarrow> staged_quad list \<Rightarrow> (bytes \<Rightarrow> bytes option) \<Rightarrow> bytes \<Rightarrow> bytes option" where
  "put_quads ord quads f = fold (\<lambda>(q, v) f. f(order_encode ord q \<mapsto> v)) quads f"

definition staged_value :: "staged_quad list \<Rightarrow> quad_key \<Rightarrow> bytes option" where
  "staged_value quads q = map_of (rev quads) q"

lemma put_quads_append: "put_quads ord (xs @ ys) f = put_quads ord ys (put_quads ord xs f)"
  by (simp add: put_quads_def)

lemma put_quads_at:
  "put_quads ord quads f (order_encode ord q) =
    (case staged_value quads q of Some v \<Rightarrow> Some v | None \<Rightarrow> f (order_encode ord q))"
proof (induction quads rule: rev_induct)
  case Nil
  show ?case by (simp add: put_quads_def staged_value_def)
next
  case (snoc x quads)
  obtain q' v where x: "x = (q', v)" by (cases x)
  have "put_quads ord (quads @ [x]) f = (put_quads ord quads f)(order_encode ord q' \<mapsto> v)"
    by (simp add: put_quads_append x) (simp add: put_quads_def)
  with snoc show ?case by (auto simp: x staged_value_def quad_codec.enc_inject)
qed

lemma put_quads_key:
  "put_quads ord quads f k = Some v \<Longrightarrow>
    f k = Some v \<or> (\<exists>q\<in>set (map fst quads). k = order_encode ord q)"
proof (induction quads rule: rev_induct)
  case Nil
  then show ?case by (simp add: put_quads_def)
next
  case (snoc x quads)
  obtain q' w where x: "x = (q', w)" by (cases x)
  have "put_quads ord (quads @ [x]) f = (put_quads ord quads f)(order_encode ord q' \<mapsto> w)"
    by (simp add: put_quads_append x) (simp add: put_quads_def)
  with snoc show ?case by (auto simp: x split: if_splits)
qed

definition order_cfs :: "string set" where
  "order_cfs = {''spog'', ''sopg'', ''psog'', ''posg'', ''ospg'', ''opsg'', ''gspo'', ''gpos''}"

lemma order_cf_in [simp]: "order_cf ord \<in> order_cfs"
  by (cases ord) (simp_all add: order_cfs_def)

lemma order_cf_inject: "order_cf a = order_cf b \<longleftrightarrow> a = b"
  by (cases a; cases b) simp_all

lemma batch_quad_apply:
  "apply_batch (batch_quad q v) m (order_cf ord) = (m (order_cf ord))(order_encode ord q \<mapsto> v)"
  by (cases ord) (simp_all add: batch_quad_def order_ALL_def)

lemma batch_quad_cfs: "op \<in> set (batch_quad q v) \<Longrightarrow> op_cf op \<in> order_cfs"
  by (auto simp: batch_quad_def)


section \<open>The effect of a batch\<close>

text \<open>The families a batch of writes may touch beside the orders.\<close>

definition side_cfs :: "string set" where
  "side_cfs = {cf_BLOB, cf_TRI, cf_EPA, cf_PEA, cf_EPO}"

definition blob_put :: "('d, 'm) env_scheme \<Rightarrow> batch_op \<Rightarrow> bool" where
  "blob_put E op \<longleftrightarrow> op_cf op = cf_BLOB \<longrightarrow>
    (\<exists>v bl. op = Put cf_BLOB (content_hash (xxh3_128 E) v) bl \<and> encode_blob E v = Inr bl)"

definition batch_ok ::
  "('d, 'm) env_scheme \<Rightarrow> timestamp \<Rightarrow> batch_op list \<Rightarrow> staged_quad list \<Rightarrow> bool" where
  "batch_ok E t batch quads \<longleftrightarrow>
    (\<forall>m ord. apply_batch batch m (order_cf ord) = put_quads ord quads (m (order_cf ord))) \<and>
    (\<forall>op\<in>set batch. op_cf op \<in> order_cfs \<union> side_cfs \<and> blob_put E op) \<and>
    (\<forall>(q, v)\<in>set quads. qk_tt q = t)"

lemma batch_ok_Nil: "batch_ok E t [] []"
  by (simp add: batch_ok_def put_quads_def)

lemma side_not_order: "cf \<in> side_cfs \<Longrightarrow> cf \<notin> order_cfs"
  by (auto simp: side_cfs_def order_cfs_def cf_defs)

lemma batch_ok_side:
  assumes "batch_ok E t batch quads" and "\<forall>op\<in>set ops. op_cf op \<in> side_cfs \<and> blob_put E op"
  shows "batch_ok E t (batch @ ops) quads"
proof -
  have "apply_batch ops m (order_cf ord) = m (order_cf ord)" for m ord
    by (rule apply_batch_other) (use assms(2) side_not_order order_cf_in in fastforce)
  with assms show ?thesis by (auto simp: batch_ok_def)
qed

lemma order_not_side: "cf \<in> order_cfs \<Longrightarrow> cf \<notin> side_cfs"
  using side_not_order by blast

lemma batch_ok_quad:
  assumes "batch_ok E t batch quads" and "qk_tt q = t"
  shows "batch_ok E t (batch @ batch_quad q v) (quads @ [(q, v)])"
proof -
  have "put_quads ord (quads @ [(q, v)]) f = (put_quads ord quads f)(order_encode ord q \<mapsto> v)" for ord f
    by (simp add: put_quads_append) (simp add: put_quads_def)
  moreover have "blob_put E op" if "op \<in> set (batch_quad q v)" for op
    using batch_quad_cfs [OF that] order_not_side by (auto simp: blob_put_def side_cfs_def)
  ultimately show ?thesis
    using assms batch_quad_cfs by (auto simp: batch_ok_def batch_quad_apply)
qed

definition stage_ok :: "('d, 'm) env_scheme \<Rightarrow> timestamp \<Rightarrow> stage \<Rightarrow> bool" where
  "stage_ok E t sg \<longleftrightarrow> batch_ok E t (sg_batch sg) (sg_quads sg)"

lemma stage_quad_ok: "stage_ok E t sg \<Longrightarrow> qk_tt q = t \<Longrightarrow> stage_ok E t (stage_quad q v sg)"
  by (simp add: stage_ok_def stage_quad_def batch_ok_quad)

lemma stage_batch_ok:
  "stage_ok E t sg \<Longrightarrow> \<forall>op\<in>set ops. op_cf op \<in> side_cfs \<and> blob_put E op \<Longrightarrow>
    stage_ok E t (sg\<lparr>sg_batch := sg_batch sg @ ops\<rparr>)"
  by (simp add: stage_ok_def batch_ok_side)

lemma encode_property_entry_batch:
  assumes "encode_property_entry E st batch v r = Inr (b, batch')"
  shows "\<exists>ops. batch' = batch @ ops \<and> (\<forall>op\<in>set ops. op_cf op \<in> side_cfs \<and> blob_put E op)"
  using assms
  by (auto simp: encode_property_entry_def side_cfs_def blob_put_def split: if_splits)

lemma side_puts:
  "batch_text_trigrams E st s p g text batch = Inr batch' \<Longrightarrow>
    \<exists>ops. batch' = batch @ ops \<and> (\<forall>op\<in>set ops. op_cf op \<in> side_cfs \<and> blob_put E op)"
  "batch_epa E st e p g t v batch = Inr batch' \<Longrightarrow>
    \<exists>ops. batch' = batch @ ops \<and> (\<forall>op\<in>set ops. op_cf op \<in> side_cfs \<and> blob_put E op)"
  "batch_epo E st e p ob g t v batch = Inr batch' \<Longrightarrow>
    \<exists>ops. batch' = batch @ ops \<and> (\<forall>op\<in>set ops. op_cf op \<in> side_cfs \<and> blob_put E op)"
  by (auto simp: batch_text_trigrams_def batch_epa_def batch_epo_def side_cfs_def blob_put_def
      cf_defs split: if_splits)

lemma stage_closings_ok:
  assumes "stage_closings E st s p g t ob at slot sg = Inr sg'" and "stage_ok E t sg"
  shows "stage_ok E t sg'"
proof -
  obtain opens where
    "rfold (close_step (\<lambda>other. \<lparr>qk_s = s, qk_p = p, qk_o = other, qk_g = g, qk_tt = t\<rparr>) ob at)
      (fold drain_step slot opens) sg = Inr sg'"
    using assms(1) by (auto simp: stage_closings_def)
  then show ?thesis
    by (rule rfold_invariant [where I = "stage_ok E t"])
      (auto simp: assms(2) close_step_def intro: stage_quad_ok split: if_splits prod.splits)
qed

lemma stage_value_ok:
  assumes "stage_value E st q v b slot sg = Inr sg'" and "stage_ok E (qk_tt q) sg"
  shows "stage_ok E (qk_tt q) sg'"
proof -
  define sg1 where "sg1 = stage_quad q b (sg\<lparr>sg_slots :=
    hm_insert (qk_s q, qk_p q, qk_g q) (slot @ [(qk_o q, b)]) (sg_slots sg)\<rparr>)"
  have ok: "stage_ok E (qk_tt q) sg1"
    unfolding sg1_def by (rule stage_quad_ok) (use assms(2) in \<open>simp_all add: stage_ok_def\<close>)
  with assms(1) show ?thesis
    unfolding stage_value_def sg1_def [symmetric] Let_def
    by (auto split: option.splits dest!: side_puts(1) intro: stage_batch_ok)
qed

lemma stage_property_ok:
  assumes "stage_property E w s p v r sg st = Inr sg'" and "stage_ok E (tt r) sg"
  shows "stage_ok E (tt r) sg'"
proof -
  let ?q = "\<lparr>qk_s = s, qk_p = p, qk_o = value_object (xxh3_128 E) v, qk_g = pw_graph w, qk_tt = tt r\<rparr>"
  obtain b batch1 where enc: "encode_property_entry E st (sg_batch sg) v r = Inr (b, batch1)"
    using assms(1) by (auto simp: stage_property_def Let_def)
  have ok1: "stage_ok E (tt r) (sg\<lparr>sg_batch := batch1\<rparr>)"
    using encode_property_entry_batch [OF enc] stage_batch_ok [OF assms(2)] by auto
  show ?thesis
  proof (cases "resolve (pw_mode w) (pw_triple w) = Replace")
    case True
    with assms(1) enc obtain sg2 where c:
      "stage_closings E st s p (pw_graph w) (tt r) (value_object (xxh3_128 E) v) (vt_start r)
        (staged_slot sg (s, p, pw_graph w)) (sg\<lparr>sg_batch := batch1\<rparr>) = Inr sg2"
      "stage_value E st ?q v b [] sg2 = Inr sg'"
      by (auto simp: stage_property_def Let_def)
    from stage_closings_ok [OF c(1) ok1] stage_value_ok [OF c(2)] show ?thesis by simp
  next
    case False
    with assms(1) enc have c:
      "stage_value E st ?q v b (staged_slot sg (s, p, pw_graph w)) (sg\<lparr>sg_batch := batch1\<rparr>) = Inr sg'"
      by (auto simp: stage_property_def Let_def)
    from stage_value_ok [OF c] ok1 show ?thesis by simp
  qed
qed

lemma stage_write_ok:
  assumes "stage_write E t w sg st = (Inr sg', st')" and "stage_ok E t sg"
  shows "stage_ok E t sg'"
proof -
  let ?r = "(triple_temporal (pw_triple w))\<lparr>tt := t\<rparr>"
  note step = assms(1) [unfolded stage_write_def Let_def sbind_Inr_iff slift_iff]
  show ?thesis
  proof (cases "pw_triple w")
    case Relation
    with step assms(2) show ?thesis by (auto intro: stage_quad_ok)
  next
    case (Property s n v r)
    with step have "\<exists>p. Inr sg' = stage_property E w s p v ?r sg st'" by auto
    then obtain p where "stage_property E w s p v ?r sg st' = Inr sg'" by metis
    from stage_property_ok [OF this] assms(2) show ?thesis by simp
  next
    case EdgeProperty
    with step show ?thesis
      by (auto dest!: side_puts(2) intro!: stage_batch_ok [OF assms(2)])
  next
    case EdgeRelation
    with step show ?thesis
      by (auto dest!: side_puts(3) intro!: stage_batch_ok [OF assms(2)])
  qed
qed

lemma smapM_stage_ok:
  "smapM (stage_write E t) ws sg st = (Inr sg', st') \<Longrightarrow> stage_ok E t sg \<Longrightarrow> stage_ok E t sg'"
proof (induction ws arbitrary: sg st)
  case (Cons w ws)
  then show ?case by (auto simp: sbind_Inr_iff dest: stage_write_ok)
qed (simp add: sret_def)

lemma stage_writes_ok:
  assumes "stage_writes E [] ws t st = (Inr sg, st')"
  shows "batch_ok E t (sg_batch sg) (sg_quads sg)"
proof -
  obtain st1 where "smapM (stage_write E t) ws \<lparr>sg_batch = [], sg_slots = [], sg_quads = []\<rparr> st1
      = (Inr sg, st')"
    using assms by (auto simp: stage_writes_def sbind_Inr_iff)
  then have "stage_ok E t sg"
    by (rule smapM_stage_ok) (simp add: stage_ok_def batch_ok_Nil)
  then show ?thesis by (simp add: stage_ok_def)
qed


section \<open>What interning leaves alone\<close>

definition only_preds :: "('d, 'm) env_scheme \<Rightarrow> 'd store \<Rightarrow> 'd store \<Rightarrow> bool" where
  "only_preds E st st' \<longleftrightarrow>
    (\<exists>d f r n. st' = st\<lparr>st_db := d, st_fwd := f, st_rev := r, st_next_pred := n\<rparr>) \<and>
    (\<forall>cf. cf \<noteq> cf_META \<longrightarrow> view E (st_db st') cf = view E (st_db st) cf) \<and>
    (\<forall>k. \<not> prefix META_PRED_PREFIX k \<and> \<not> prefix (as_bytes ''pid/'') k \<and> k \<noteq> META_PRED_CTR \<longrightarrow>
      view E (st_db st') cf_META k = view E (st_db st) cf_META k) \<and>
    (\<forall>n j. hm_get (st_fwd st) n = Some j \<longrightarrow> hm_get (st_fwd st') n = Some j)"

lemma only_preds_refl: "only_preds E st st"
proof -
  have "st = st\<lparr>st_db := st_db st, st_fwd := st_fwd st, st_rev := st_rev st,
    st_next_pred := st_next_pred st\<rparr>" by simp
  then have "\<exists>d f r n. st = st\<lparr>st_db := d, st_fwd := f, st_rev := r, st_next_pred := n\<rparr>" by blast
  then show ?thesis by (simp add: only_preds_def)
qed

lemma only_preds_trans:
  assumes "only_preds E a b" and "only_preds E b c"
  shows "only_preds E a c"
proof -
  obtain d f r n where b: "b = a\<lparr>st_db := d, st_fwd := f, st_rev := r, st_next_pred := n\<rparr>"
    using assms(1) by (auto simp: only_preds_def)
  obtain d' f' r' n' where c: "c = b\<lparr>st_db := d', st_fwd := f', st_rev := r', st_next_pred := n'\<rparr>"
    using assms(2) by (auto simp: only_preds_def)
  have "\<exists>d f r n. c = a\<lparr>st_db := d, st_fwd := f, st_rev := r, st_next_pred := n\<rparr>"
    by (intro exI [of _ d'] exI [of _ f'] exI [of _ r'] exI [of _ n']) (simp add: b c)
  with assms show ?thesis unfolding only_preds_def by metis
qed

lemma only_preds_fields:
  assumes "only_preds E st st'"
  shows "st_committed st' = st_committed st" "st_mode st' = st_mode st"
    "st_commits st' = st_commits st" "st_vocab st' = st_vocab st"
    "st_canonical st' = st_canonical st" "st_graph_fwd st' = st_graph_fwd st"
    "st_graph_rev st' = st_graph_rev st" "st_graph_by_node st' = st_graph_by_node st"
    "st_next_graph st' = st_next_graph st" "canonical_name st' = canonical_name st"
    "is_replica st' = is_replica st"
  using assms
  by (auto simp: only_preds_def canonical_name_def is_replica_def fun_eq_iff)

lemma only_preds_view:
  assumes "only_preds E st st'"
  shows "cf \<noteq> cf_META \<Longrightarrow> view E (st_db st') cf = view E (st_db st) cf"
    and "view E (st_db st') cf_META (META_GRAPH_PREFIX @ x) = view E (st_db st) cf_META (META_GRAPH_PREFIX @ x)"
    and "view E (st_db st') cf_META META_GRAPH_CTR = view E (st_db st) cf_META META_GRAPH_CTR"
  using assms by (auto simp: only_preds_def meta_consts)

lemma only_preds_graphs:
  assumes "only_preds E st st'" and "graph_table_ok E st"
  shows "graph_table_ok E st'"
  using assms(2) unfolding graph_table_ok_def only_preds_fields [OF assms(1)]
  by (auto intro: table_ok_cong simp: only_preds_view(2,3) [OF assms(1)])

lemma only_preds_dict:
  "only_preds E st st' \<Longrightarrow> dict_ok E (view E (st_db st)) \<Longrightarrow> dict_ok E (view E (st_db st'))"
  using only_preds_view(1) [of E st st' cf_IRI] by (simp add: dict_ok_def cf_defs)

definition names_ok :: "'d store \<Rightarrow> pending_write list \<Rightarrow> bool" where
  "names_ok st ws \<longleftrightarrow>
    (\<forall>w\<in>set ws. is_utf8 (canonical_name st (pred_str (triple_predicate (pw_triple w))))) \<and>
    length ws \<le> room_left (st_next_pred st)"

context kv_engine
begin

lemma intern_only_preds: "intern_predicate E pred st = (r, st') \<Longrightarrow> only_preds E st st'"
proof -
  assume a: "intern_predicate E pred st = (r, st')"
  note fr = intern_predicate_frame [OF a]
  have "\<exists>d f r n. st' = st\<lparr>st_db := d, st_fwd := f, st_rev := r, st_next_pred := n\<rparr>"
    by (intro exI [of _ "st_db st'"] exI [of _ "st_fwd st'"] exI [of _ "st_rev st'"]
        exI [of _ "st_next_pred st'"] store.equality) (simp_all add: fr)
  moreover have "hm_get (st_fwd st) n = Some j \<Longrightarrow> hm_get (st_fwd st') n = Some j" for n j
    using a by (cases rule: intern_predicate_cases) (auto simp: hm_get_insert)
  ultimately show ?thesis using fr unfolding only_preds_def by blast
qed

lemma stage_write_frame:
  assumes "stage_write E t w sg st = (r, st')"
  shows "only_preds E st st'"
proof -
  obtain r1 st1 where i: "intern_predicate E (pred_str (triple_predicate (pw_triple w))) st = (r1, st1)"
    by (cases "intern_predicate E (pred_str (triple_predicate (pw_triple w))) st")
  with assms have "st' = st1"
    by (auto simp: stage_write_def Let_def sbind_def slift_def split: sum.splits)
  with intern_only_preds [OF i] show ?thesis by simp
qed

lemma stage_write_preds:
  assumes "stage_write E t w sg st = (r, st')" and "pred_table_ok E st"
    and "is_utf8 (canonical_name st (pred_str (triple_predicate (pw_triple w))))"
    and "0 < room_left (st_next_pred st)"
  shows "pred_table_ok E st' \<and> room_left (st_next_pred st) \<le> Suc (room_left (st_next_pred st'))"
proof -
  obtain r1 st1 where i: "intern_predicate E (pred_str (triple_predicate (pw_triple w))) st = (r1, st1)"
    by (cases "intern_predicate E (pred_str (triple_predicate (pw_triple w))) st")
  with assms(1) have "st' = st1"
    by (auto simp: stage_write_def Let_def sbind_def slift_def split: sum.splits)
  moreover have "pred_table_ok E st1"
    using intern_predicate_ok [OF assms(2,3) _ i] assms(4) by (simp add: room_left_pos)
  moreover have "room_left (st_next_pred st) \<le> Suc (room_left (st_next_pred st1))"
    using i room_left_succ [of "st_next_pred st"] assms(4)
    by (cases rule: intern_predicate_cases) (simp_all add: room_left_pos)
  ultimately show ?thesis by simp
qed

lemma smapM_stage_frame:
  "smapM (stage_write E t) ws sg st = (r, st') \<Longrightarrow> only_preds E st st'"
proof (induction ws arbitrary: sg st)
  case Nil
  then show ?case by (simp add: only_preds_refl sret_def)
next
  case (Cons w ws)
  obtain r1 st1 where w: "stage_write E t w sg st = (r1, st1)" by (cases "stage_write E t w sg st")
  note o1 = stage_write_frame [OF w]
  show ?case
  proof (cases r1)
    case (Inl e)
    with Cons.prems w o1 show ?thesis by (simp add: sbind_def)
  next
    case (Inr sg1)
    with Cons.prems w have "smapM (stage_write E t) ws sg1 st1 = (r, st')" by (simp add: sbind_def)
    from only_preds_trans [OF o1 Cons.IH [OF this]] show ?thesis .
  qed
qed

lemma smapM_stage_preds:
  "smapM (stage_write E t) ws sg st = (r, st') \<Longrightarrow> pred_table_ok E st \<Longrightarrow> names_ok st ws \<Longrightarrow>
    pred_table_ok E st'"
proof (induction ws arbitrary: sg st)
  case (Cons w ws)
  obtain r1 st1 where w: "stage_write E t w sg st = (r1, st1)" by (cases "stage_write E t w sg st")
  have p: "pred_table_ok E st1 \<and> room_left (st_next_pred st) \<le> Suc (room_left (st_next_pred st1))"
    by (rule stage_write_preds [OF w Cons.prems(2)]) (use Cons.prems(3) in \<open>auto simp: names_ok_def\<close>)
  show ?case
  proof (cases r1)
    case (Inl e)
    with Cons.prems w p show ?thesis by (simp add: sbind_def)
  next
    case (Inr sg1)
    with Cons.prems w have "smapM (stage_write E t) ws sg1 st1 = (r, st')" by (simp add: sbind_def)
    moreover have "names_ok st1 ws"
      using Cons.prems(3) p only_preds_fields(10) [OF stage_write_frame [OF w]]
      by (auto simp: names_ok_def)
    ultimately show ?thesis using Cons.IH p by blast
  qed
qed (simp add: sret_def)

lemma smapM_stage_room:
  "smapM (stage_write E t) ws sg st = (r, st') \<Longrightarrow> pred_table_ok E st \<Longrightarrow> names_ok st ws \<Longrightarrow>
    room_left (st_next_pred st) \<le> length ws + room_left (st_next_pred st')"
proof (induction ws arbitrary: sg st)
  case (Cons w ws)
  obtain r1 st1 where w: "stage_write E t w sg st = (r1, st1)" by (cases "stage_write E t w sg st")
  have p: "pred_table_ok E st1 \<and> room_left (st_next_pred st) \<le> Suc (room_left (st_next_pred st1))"
    by (rule stage_write_preds [OF w Cons.prems(2)]) (use Cons.prems(3) in \<open>auto simp: names_ok_def\<close>)
  show ?case
  proof (cases r1)
    case (Inl e)
    with Cons.prems w p show ?thesis by (simp add: sbind_def)
  next
    case (Inr sg1)
    with Cons.prems w have "smapM (stage_write E t) ws sg1 st1 = (r, st')" by (simp add: sbind_def)
    moreover have "names_ok st1 ws"
      using Cons.prems(3) p only_preds_fields(10) [OF stage_write_frame [OF w]]
      by (auto simp: names_ok_def)
    ultimately show ?thesis using Cons.IH p by fastforce
  qed
qed (simp add: sret_def)

lemma order_handles_ok: "order_handles E st = Inr (map (\<lambda>_. ()) order_ALL)"
proof -
  have "cf_handle E (order_cf ord) st = Inr ()" for ord
    by (rule cf_handle_ok) (cases ord; simp add: cf_ALL_def)
  then show ?thesis by (simp add: order_handles_def rtraverse_map [symmetric])
qed

lemma stage_writes_smapM:
  "stage_writes E batch ws t st =
    smapM (stage_write E t) ws \<lparr>sg_batch = batch, sg_slots = [], sg_quads = []\<rparr> st"
proof -
  have "cf_handle E (order_cf Gspo) st = Inr ()" by (rule cf_handle_ok) (simp add: cf_ALL_def)
  then show ?thesis by (simp add: stage_writes_def sbind_def slift_def order_handles_ok)
qed

end

end
