(* ===== verification/Mvcc_Facts.thy ===== *)
theory Mvcc_Facts
  imports Stage_Effect
begin

text \<open>
  The properties of commit: the store invariant and its preservation by commit, what a commit
  changes in the index, which conflicts it reports, and what snapshots at earlier times see.
\<close>


section \<open>The store invariant\<close>

text \<open>
  No version is newer than the last commit time the oracle has given out, and that time is not
  negative.
\<close>

definition times_ok :: "('d, 'm) env_scheme \<Rightarrow> 'd store \<Rightarrow> bool" where
  "times_ok E st \<longleftrightarrow>
    Timestamp 0 \<le> st_committed st \<and>
    (\<forall>ids t b. version_at (view E (st_db st)) ids t = Some b \<longrightarrow> t \<le> st_committed st)"

definition store_ok :: "('d, 'm) env_scheme \<Rightarrow> 'd store \<Rightarrow> bool" where
  "store_ok E st \<longleftrightarrow>
    index_ok (view E (st_db st)) \<and> pred_table_ok E st \<and> graph_table_ok E st \<and>
    dict_ok E (view E (st_db st)) \<and> times_ok E st"

text \<open>What the caller owes: UTF-8 names (Rust strings), and id space for the new predicates.\<close>

definition tx_ok :: "'d store \<Rightarrow> transaction \<Rightarrow> bool" where
  "tx_ok st tx \<longleftrightarrow> names_ok st (pending_writes tx) \<and> (\<forall>iri\<in>set (tx_iris tx). is_utf8 iri)"

definition tx_empty :: "transaction \<Rightarrow> bool" where
  "tx_empty tx \<longleftrightarrow> tx_buffer tx = [] \<and> tx_iris tx = [] \<and> tx_ops tx = []"

definition change_op :: "timestamp \<Rightarrow> transaction \<Rightarrow> stage \<Rightarrow> batch_op list" where
  "change_op t tx sg =
    (if tx_ops tx = [] \<and> sg_quads sg = [] then []
     else [Put cf_CHG (ts_bytes t) (change_bytes (tx_author tx) (tx_ops tx) (sg_quads sg))])"

definition commit_time :: "timestamp \<Rightarrow> ('d, 's) store_scheme \<Rightarrow> timestamp" where
  "commit_time wall st = max (ts_succ (st_committed st)) wall"

lemma begin_commit_eq:
  "begin_commit wall st = (commit_time wall st, st\<lparr>st_committed := commit_time wall st\<rparr>)"
  by (simp add: begin_commit_def commit_time_def Let_def)

lemma ts_succ_greater:
  assumes "t < END_OF_TIME"
  shows "t < ts_succ t"
proof -
  have "sint (ts_us t) < 2 ^ 63 - 1"
    using assms by (simp add: less_timestamp_def END_OF_TIME_def)
  moreover have "- (2 ^ 63) \<le> sint (ts_us t)"
    using sint_range_size [of "ts_us t"] by (simp add: word_size)
  ultimately have "sint (ts_us t + 1) = sint (ts_us t) + 1"
    by (subst sint_word_ariths) (simp add: signed_take_bit_int_eq_self)
  then show ?thesis by (simp add: less_timestamp_def ts_succ_def)
qed

lemma commit_time_greater: "st_committed st < END_OF_TIME \<Longrightarrow> st_committed st < commit_time wall st"
  using ts_succ_greater [of "st_committed st"] by (simp add: commit_time_def less_max_iff_disj)

context kv_engine
begin

lemma batch_change_ok:
  "batch_change E st t (tx_author tx) (tx_ops tx) (sg_quads sg) batch = Inr (batch @ change_op t tx sg)"
proof -
  have "cf_handle E cf_CHG st = Inr ()" by (rule cf_handle_ok) (simp add: cf_ALL_def)
  then show ?thesis by (simp add: batch_change_def change_op_def)
qed

lemma commit_cases:
  assumes "dict_ok E (view E (st_db st))" and "\<forall>iri\<in>set (tx_iris tx). is_utf8 iri"
    and "commit E wall tx st = (r, st')"
  obtains (empty) "tx_empty tx" "r = Inr (tx_read_ts tx)" "st' = st"
  | (failed) e where "\<not> tx_empty tx" "r = Inl e"
      "only_preds E (st\<lparr>st_committed := commit_time wall st\<rparr>) st'"
      "\<exists>ws. smapM (stage_write E (commit_time wall st)) (pending_writes tx)
          \<lparr>sg_batch = [], sg_slots = [], sg_quads = []\<rparr> (st\<lparr>st_committed := commit_time wall st\<rparr>)
          = (ws, st') \<or> st' = st\<lparr>st_committed := commit_time wall st\<rparr>"
  | (committed) sg st2 puts p d where "\<not> tx_empty tx" "r = Inr (commit_time wall st)"
      "check_conflicts E (st\<lparr>st_committed := commit_time wall st\<rparr>) (tx_read_ts tx)
        (commit_time wall st) (pending_writes tx) = Inr ()"
      "smapM (stage_write E (commit_time wall st)) (pending_writes tx)
        \<lparr>sg_batch = [], sg_slots = [], sg_quads = []\<rparr> (st\<lparr>st_committed := commit_time wall st\<rparr>)
        = (Inr sg, st2)"
      "\<not> is_replica st"
      "dict_batch E (view E (st_db st2)) (sg_batch sg @ change_op (commit_time wall st) tx sg)
        (sg_batch sg @ change_op (commit_time wall st) tx sg @ puts, p)"
      "dict_puts E puts"
      "\<forall>iri\<in>set (tx_iris tx). needs_dictionary E iri \<longrightarrow>
        dict_entry (view E (st_db st2)) p (iri_to_node_id E iri) = Some iri"
      "st' = notify_commit (commit_time wall st) (st2\<lparr>st_db := d\<rparr>)"
      "view E d = apply_batch (sg_batch sg @ change_op (commit_time wall st) tx sg @ puts
        @ [Put cf_META META_ORACLE_CTR (ts_bytes (commit_time wall st))]) (view E (st_db st2))"
      "\<forall>n e. dict_entry (view E (st_db st2)) [] n = Some e \<longrightarrow>
        dict_entry (view E (st_db st2)) p n = Some e"
proof (cases "tx_empty tx")
  case True
  with assms(3) show thesis by (intro empty) (auto simp: commit_def tx_empty_def)
next
  case False
  let ?t = "commit_time wall st" and ?ws = "pending_writes tx"
  let ?st1 = "st\<lparr>st_committed := ?t\<rparr>" and ?sg0 = "\<lparr>sg_batch = [], sg_slots = [], sg_quads = []\<rparr>"
  have g: "cf_handle E ''gspo'' s = Inr ()" "cf_handle E cf_META s = Inr ()" for s
    by (rule cf_handle_ok; simp add: cf_ALL_def)+
  have body: "commit_body E tx ?t ?st1 = (r, st')"
    using assms(3) False by (auto simp: commit_def tx_empty_def begin_commit_eq)
  show thesis
  proof (cases "check_conflicts E ?st1 (tx_read_ts tx) ?t ?ws")
    case (Inl e)
    with body have "r = Inl e" "st' = ?st1"
      by (auto simp: commit_body_def Let_def sbind_def slift_def g)
    with False show thesis by (intro failed [of e]) (auto simp: only_preds_refl)
  next
    case (Inr u)
    obtain rs st2 where stg: "smapM (stage_write E ?t) ?ws ?sg0 ?st1 = (rs, st2)"
      by (cases "smapM (stage_write E ?t) ?ws ?sg0 ?st1")
    note op = smapM_stage_frame [OF stg]
    show thesis
    proof (cases rs)
      case (Inl e)
      with body Inr stg have "r = Inl e" "st' = st2"
        by (auto simp: commit_body_def Let_def sbind_def slift_def g stage_writes_smapM)
      with False op stg show thesis by (intro failed [of e]) auto
    next
      case sg: (Inr sg)
      let ?b = "sg_batch sg @ change_op ?t tx sg"
      let ?iris = "rfold (batch_iri E st2) (tx_iris tx) (?b, [])"
      have d2: "dict_ok E (view E (st_db st2))"
        by (rule only_preds_dict [OF op]) (use assms(1) in simp)
      show thesis
      proof (cases ?iris)
        case (Inl e)
        with body Inr stg sg have "r = Inl e" "st' = st2"
          by (auto simp: commit_body_def Let_def sbind_def slift_def g stage_writes_smapM batch_change_ok)
        with False op stg show thesis by (intro failed [of e]) auto
      next
        case iris: (Inr bp)
        obtain b p where bp: "bp = (b, p)" by (cases bp)
        note all = batch_iris_ok [OF d2 dict_batch_start assms(2) iris [unfolded bp]]
        then obtain puts where puts: "b = ?b @ puts" "dict_puts E puts"
          by (auto simp: dict_batch_def)
        let ?full = "b @ [Put cf_META META_ORACLE_CTR (ts_bytes ?t)]"
        have rest: "sbind (db_write E ?full) (\<lambda>_ s. (Inr ?t, notify_commit ?t s)) st2 = (r, st')"
          using body Inr stg sg iris bp
          by (simp add: commit_body_def Let_def sbind_def slift_def g stage_writes_smapM batch_change_ok)
        show thesis
        proof (cases "is_replica st2")
          case True
          with rest have "r = Inl read_only_err" "st' = st2"
            by (auto simp: sbind_def db_write_def)
          with False op stg show thesis by (intro failed [of read_only_err]) auto
        next
          case nr: False
          obtain d where d: "raw_write E ?full st2 = (Inr (), st2\<lparr>st_db := d\<rparr>)"
            "view E d = apply_batch ?full (view E (st_db st2))"
            using raw_writeE [of ?full st2] by metis
          have "r = Inr ?t" "st' = notify_commit ?t (st2\<lparr>st_db := d\<rparr>)"
            using rest nr d(1) by (auto simp: sbind_def db_write_def)
          moreover have "\<not> is_replica st"
            using nr only_preds_fields(11) [OF op] by (simp add: is_replica_def)
          ultimately show thesis
            using False Inr stg sg all puts d(2)
            by (intro committed [of sg st2 puts p d]) auto
        qed
      qed
    qed
  qed
qed

end


section \<open>The index after a commit\<close>

definition writes_at ::
  "timestamp \<Rightarrow> staged_quad list \<Rightarrow> contents \<Rightarrow> contents \<Rightarrow> bool" where
  "writes_at t quads m m' \<longleftrightarrow>
    (\<forall>(q, v)\<in>set quads. qk_tt q = t) \<and>
    (\<forall>ord. m' (order_cf ord) = put_quads ord quads (m (order_cf ord)))"

lemma writes_at_version:
  assumes "writes_at t quads m m'"
  shows "version_at m' ids u =
    (case staged_value quads (quad_of_ids ids u) of Some v \<Rightarrow> Some v | None \<Rightarrow> version_at m ids u)"
proof -
  have "m' (order_cf Spog) = put_quads Spog quads (m (order_cf Spog))"
    using assms unfolding writes_at_def by blast
  then show ?thesis by (simp only: version_at_def put_quads_at)
qed

lemma writes_at_old:
  assumes "writes_at t quads m m'" and "u \<noteq> t"
  shows "version_at m' ids u = version_at m ids u"
proof -
  have "staged_value quads (quad_of_ids ids u) = None"
  proof (rule ccontr)
    assume "staged_value quads (quad_of_ids ids u) \<noteq> None"
    then obtain v where "(quad_of_ids ids u, v) \<in> set quads"
      by (auto simp: staged_value_def dest: map_of_SomeD)
    with assms show False by (fastforce simp: writes_at_def)
  qed
  then show ?thesis by (simp add: writes_at_version [OF assms(1)])
qed

lemma writes_at_index:
  assumes "writes_at t quads m m'" and "index_ok m" and "Timestamp 0 \<le> t"
  shows "index_ok m'"
proof -
  have "m' (order_cf ord) (order_encode ord q) = m' (order_cf Spog) (order_encode Spog q)" for ord q
    using assms(1,2) unfolding writes_at_def index_ok_def by (metis put_quads_at)
  moreover have "\<exists>q. k = order_encode ord q \<and> Timestamp 0 \<le> qk_tt q"
    if "m' (order_cf ord) k = Some v" for ord k v
  proof -
    have "put_quads ord quads (m (order_cf ord)) k = Some v"
      using that assms(1) by (simp add: writes_at_def)
    then consider "m (order_cf ord) k = Some v" | q where "q \<in> fst ` set quads" "k = order_encode ord q"
      by (auto dest: put_quads_key)
    then show ?thesis
    proof cases
      case 1
      with assms(2) show ?thesis by (auto simp: index_ok_def)
    next
      case 2
      with assms(1,3) show ?thesis by (fastforce simp: writes_at_def)
    qed
  qed
  ultimately show ?thesis unfolding index_ok_def by blast
qed

text \<open>Reads below the commit time are not affected.\<close>

lemma writes_at_live:
  assumes "writes_at t quads m m'" and "ts < t"
  shows "live_at m' ts vt ids u b = live_at m ts vt ids u b"
proof -
  have "version_at m' ids v = version_at m ids v" if "v \<le> ts" for v
    by (rule writes_at_old [OF assms(1)]) (use that assms(2) in auto)
  then have "eligible m' ts vt ids w = eligible m ts vt ids w" for w
    by (cases w) (auto simp: eligible_def)
  then show ?thesis by (simp add: live_at_def governs_def)
qed

lemma notify_fields [simp]:
  "st_db (notify_commit t st) = st_db st" "st_committed (notify_commit t st) = st_committed st"
  "st_fwd (notify_commit t st) = st_fwd st" "st_rev (notify_commit t st) = st_rev st"
  "st_next_pred (notify_commit t st) = st_next_pred st"
  "st_graph_fwd (notify_commit t st) = st_graph_fwd st"
  "st_graph_rev (notify_commit t st) = st_graph_rev st"
  "st_graph_by_node (notify_commit t st) = st_graph_by_node st"
  "st_next_graph (notify_commit t st) = st_next_graph st"
  "st_inline_max (notify_commit t st) = st_inline_max st"
  "st_mode (notify_commit t st) = st_mode st" "st_vocab (notify_commit t st) = st_vocab st"
  "st_canonical (notify_commit t st) = st_canonical st"
  by (simp_all add: notify_commit_def)

lemma change_op_cf: "op \<in> set (change_op t tx sg) \<Longrightarrow> op_cf op = cf_CHG"
  by (auto simp: change_op_def split: if_splits)

lemma dict_puts_cf: "dict_puts X puts \<Longrightarrow> op \<in> set puts \<Longrightarrow> op_cf op = cf_IRI"
  by (auto simp: dict_puts_def)

lemma order_cfs_meta: "order_cf ord \<noteq> cf_META" "order_cf ord \<noteq> cf_IRI" "order_cf ord \<noteq> cf_CHG"
  "order_cf ord \<noteq> cf_BLOB"
  by (cases ord; simp add: cf_defs)+

lemma batch_ok_frame:
  assumes "batch_ok E t b quads" and "cf \<in> {cf_META, cf_IRI, cf_CHG}"
  shows "apply_batch b m cf = m cf"
proof (rule apply_batch_other, rule ballI)
  fix op assume "op \<in> set b"
  then have "op_cf op \<in> order_cfs \<union> side_cfs" using assms(1) by (simp add: batch_ok_def)
  with assms(2) show "op_cf op \<noteq> cf" by (auto simp: order_cfs_def side_cfs_def cf_defs)
qed

context kv_engine
begin

text \<open>The effect of a commit that goes through, family by family.\<close>

lemma commit_effect:
  assumes "smapM (stage_write E t) ws \<lparr>sg_batch = [], sg_slots = [], sg_quads = []\<rparr> st1 = (Inr sg, st2)"
    and "dict_puts E puts"
    and "view E d = apply_batch (sg_batch sg @ change_op t tx sg @ puts
        @ [Put cf_META META_ORACLE_CTR (ts_bytes t)]) (view E (st_db st2))"
  shows "writes_at t (sg_quads sg) (view E (st_db st1)) (view E d)"
    and "view E d cf_META = (view E (st_db st2) cf_META)(META_ORACLE_CTR \<mapsto> ts_bytes t)"
    and "view E d cf_IRI = apply_batch puts (view E (st_db st2)) cf_IRI"
    and "view E d cf_CHG = apply_batch (change_op t tx sg) (view E (st_db st1)) cf_CHG"
    and "view E d cf_BLOB = apply_batch (sg_batch sg) (view E (st_db st1)) cf_BLOB"
proof -
  have b: "batch_ok E t (sg_batch sg) (sg_quads sg)"
    using stage_writes_ok [of E ws t st1] assms(1) by (simp add: stage_writes_smapM)
  note op = smapM_stage_frame [OF assms(1)]
  let ?m2 = "view E (st_db st2)"
  let ?b = "apply_batch (sg_batch sg) ?m2"
  let ?bc = "apply_batch (change_op t tx sg) ?b"
  let ?bcp = "apply_batch puts ?bc"
  have v: "view E d = apply_op (Put cf_META META_ORACLE_CTR (ts_bytes t)) ?bcp"
    using assms(3) by simp
  have chg: "cf \<noteq> cf_CHG \<Longrightarrow> ?bc cf = ?b cf" for cf
    by (rule apply_batch_other) (auto dest: change_op_cf)
  have iri: "cf \<noteq> cf_IRI \<Longrightarrow> ?bcp cf = ?bc cf" for cf
    by (rule dict_puts_frame [OF assms(2)])
  have v2: "cf \<noteq> cf_META \<Longrightarrow> ?m2 cf = view E (st_db st1) cf" for cf
    by (rule only_preds_view(1) [OF op])
  have "view E d (order_cf ord) = put_quads ord (sg_quads sg) (view E (st_db st1) (order_cf ord))" for ord
  proof -
    have "view E d (order_cf ord) = ?b (order_cf ord)"
      unfolding v using iri [of "order_cf ord"] chg [of "order_cf ord"] order_cfs_meta [of ord] by simp
    also have "\<dots> = put_quads ord (sg_quads sg) (?m2 (order_cf ord))" using b by (simp add: batch_ok_def)
    finally show ?thesis using v2 order_cfs_meta by simp
  qed
  then show "writes_at t (sg_quads sg) (view E (st_db st1)) (view E d)"
    using b by (simp add: writes_at_def batch_ok_def)
  have "?b cf_META = ?m2 cf_META" by (rule batch_ok_frame [OF b]) simp
  then show "view E d cf_META = (?m2 cf_META)(META_ORACLE_CTR \<mapsto> ts_bytes t)"
    unfolding v using iri [of cf_META] chg [of cf_META] by (simp add: cf_defs)
  have "?b cf_IRI = ?m2 cf_IRI" by (rule batch_ok_frame [OF b]) simp
  then have "?bc cf_IRI = ?m2 cf_IRI" using chg [of cf_IRI] by (simp add: cf_defs)
  then have "?bcp cf_IRI = apply_batch puts ?m2 cf_IRI"
    by (rule apply_batch_local [of ?bc cf_IRI ?m2 puts])
  then show "view E d cf_IRI = apply_batch puts ?m2 cf_IRI" unfolding v by (simp add: cf_defs)
  have "?b cf_CHG = ?m2 cf_CHG" by (rule batch_ok_frame [OF b]) simp
  then have "?b cf_CHG = view E (st_db st1) cf_CHG" using v2 [of cf_CHG] by (simp add: cf_defs)
  then have "?bc cf_CHG = apply_batch (change_op t tx sg) (view E (st_db st1)) cf_CHG"
    by (rule apply_batch_local [of ?b cf_CHG "view E (st_db st1)" "change_op t tx sg"])
  then show "view E d cf_CHG = apply_batch (change_op t tx sg) (view E (st_db st1)) cf_CHG"
    unfolding v using iri [of cf_CHG] by (simp add: cf_defs)
  have "?m2 cf_BLOB = view E (st_db st1) cf_BLOB" using v2 [of cf_BLOB] by (simp add: cf_defs)
  then have "?b cf_BLOB = apply_batch (sg_batch sg) (view E (st_db st1)) cf_BLOB"
    by (rule apply_batch_local [of ?m2 cf_BLOB "view E (st_db st1)" "sg_batch sg"])
  then show "view E d cf_BLOB = apply_batch (sg_batch sg) (view E (st_db st1)) cf_BLOB"
    unfolding v using iri [of cf_BLOB] chg [of cf_BLOB] by (simp add: cf_defs)
qed

end

end
