(* ===== verification/Value_Facts.thy ===== *)
theory Value_Facts
  imports Mvcc_Facts
begin

text \<open>
  The values the index holds: every version is an encoded relation, an encoded value or a
  reference to a blob, under the object slot its value's hash defines; a reference has its blob;
  every predicate id is interned. Commit keeps this, so on a store that only commits have written
  every scan succeeds.
\<close>


section \<open>The value invariant\<close>

definition value_form :: "('d, 'm) env_scheme \<Rightarrow> node_id \<Rightarrow> bytes \<Rightarrow> bool" where
  "value_form E ob b \<longleftrightarrow>
    (\<exists>e r. b = encode_relation e r) \<or>
    (\<exists>v r. codec_ok E v \<and> ob = value_object (xxh3_128 E) v \<and>
      (encode_property E v r = Inr b \<or> b = encode_property_ref r))"

definition is_ref :: "bytes \<Rightarrow> bool" where
  "is_ref b \<longleftrightarrow> b \<noteq> [] \<and> hd b = DISC_PROPERTY_REF"

definition blob_form :: "('d, 'm) env_scheme \<Rightarrow> bytes \<Rightarrow> bytes \<Rightarrow> bool" where
  "blob_form E k bl \<longleftrightarrow>
    (\<exists>v. codec_ok E v \<and> k = content_hash (xxh3_128 E) v \<and> encode_blob E v = Inr bl)"

definition values_ok :: "('d, 'm) env_scheme \<Rightarrow> 'd store \<Rightarrow> bool" where
  "values_ok E st \<longleftrightarrow>
    (let m = view E (st_db st) in
     (\<forall>ids t b. version_at m ids t = Some b \<longrightarrow>
        value_form E (fst (snd (snd ids))) b \<and>
        (is_ref b \<longrightarrow> m cf_BLOB (node_bytes (fst (snd (snd ids)))) \<noteq> None) \<and>
        hm_get (st_rev st) (fst (snd ids)) \<noteq> None) \<and>
     (\<forall>k bl. m cf_BLOB k = Some bl \<longrightarrow> blob_form E k bl))"

lemma node_bytes_value_object [simp]: "node_bytes (value_object H v) = content_hash H v"
proof -
  have "value_object H v = node_id_from (content_hash H v)"
    by (simp add: value_object_def node_id_from_def)
  moreover have "length (content_hash H v) = 16" by (simp add: content_hash_def)
  ultimately show ?thesis by simp
qed

lemma encode_property_range:
  "encode_property E v r = Inr b \<Longrightarrow> \<exists>b'. encode_property E v r' = Inr b'"
  by (erule encode_property_cases) auto

lemma value_form_closed:
  assumes "value_form E ob b" and "with_vt_end b at = Inr closed"
  shows "value_form E ob closed \<and> is_ref closed = is_ref b"
proof -
  have r: "is_ref closed = is_ref b"
    using with_vt_end_correct(3,4) [OF assms(2)] assms(2)
    by (auto simp: is_ref_def with_vt_end_def split: list.splits)
  from assms(1) consider e r where "b = encode_relation e r"
    | v r where "codec_ok E v" "ob = value_object (xxh3_128 E) v" "encode_property E v r = Inr b"
    | v r where "codec_ok E v" "ob = value_object (xxh3_128 E) v" "b = encode_property_ref r"
    unfolding value_form_def by blast
  then have "value_form E ob closed"
  proof cases
    case 1
    with assms(2) show ?thesis by (auto simp: with_vt_end_encode_relation value_form_def)
  next
    case 2
    with assms(2) have "encode_property E v (r\<lparr>vt_end := at\<rparr>) = Inr closed"
      by (simp add: with_vt_end_encode_property)
    with 2 show ?thesis unfolding value_form_def by blast
  next
    case 3
    with assms(2) show ?thesis by (auto simp: with_vt_end_encode_property_ref value_form_def)
  qed
  with r show ?thesis by simp
qed


section \<open>Staged values\<close>

definition has_blob :: "contents \<Rightarrow> batch_op list \<Rightarrow> node_id \<Rightarrow> bool" where
  "has_blob m batch ob \<longleftrightarrow>
    m cf_BLOB (node_bytes ob) \<noteq> None \<or> (\<exists>bl. Put cf_BLOB (node_bytes ob) bl \<in> set batch)"

definition good :: "('d, 'm) env_scheme \<Rightarrow> contents \<Rightarrow> batch_op list \<Rightarrow> node_id \<times> bytes \<Rightarrow> bool" where
  "good E m batch = (\<lambda>(ob, b). value_form E ob b \<and> (is_ref b \<longrightarrow> has_blob m batch ob))"

lemma good_mono: "good E m batch x \<Longrightarrow> good E m (batch @ ops) x"
  by (auto simp: good_def has_blob_def)

lemma good_closed:
  "good E m batch (ob, b) \<Longrightarrow> with_vt_end b at = Inr closed \<Longrightarrow> good E m batch (ob, closed)"
  using value_form_closed [of E ob b at closed] by (auto simp: good_def)

definition stage_vals ::
  "('d, 'm) env_scheme \<Rightarrow> contents \<Rightarrow> (u32 \<Rightarrow> bool) \<Rightarrow> stage \<Rightarrow> bool" where
  "stage_vals E m known sg \<longleftrightarrow>
    (\<forall>(q, b)\<in>set (sg_quads sg). good E m (sg_batch sg) (qk_o q, b) \<and> known (qk_p q)) \<and>
    (\<forall>k xs. hm_get (sg_slots sg) k = Some xs \<longrightarrow> (\<forall>x\<in>set xs. good E m (sg_batch sg) x)) \<and>
    (\<forall>op\<in>set (sg_batch sg). op_cf op = cf_BLOB \<longrightarrow> (\<exists>k bl. op = Put cf_BLOB k bl \<and> blob_form E k bl))"

lemma stage_vals_batch:
  assumes "stage_vals E m known sg"
    and "\<forall>op\<in>set ops. op_cf op = cf_BLOB \<longrightarrow> (\<exists>k bl. op = Put cf_BLOB k bl \<and> blob_form E k bl)"
  shows "stage_vals E m known (sg\<lparr>sg_batch := sg_batch sg @ ops\<rparr>)"
  using assms good_mono by (fastforce simp: stage_vals_def)

lemma stage_vals_quad:
  assumes "stage_vals E m known sg" and "good E m (sg_batch sg) (qk_o q, b)" and "known (qk_p q)"
  shows "stage_vals E m known (stage_quad q b sg)"
proof -
  have "op_cf op \<noteq> cf_BLOB" if "op \<in> set (batch_quad q b)" for op
    using batch_quad_cfs [OF that] order_not_side by (auto simp: side_cfs_def)
  then have "stage_vals E m known (sg\<lparr>sg_batch := sg_batch sg @ batch_quad q b\<rparr>)"
    by (intro stage_vals_batch assms(1)) auto
  with assms(2,3) good_mono show ?thesis
    by (fastforce simp: stage_vals_def stage_quad_def)
qed

lemma encode_property_entry_good:
  assumes "encode_property_entry E st batch v r = Inr (b, batch')" and "codec_ok E v"
  shows "\<exists>ops. batch' = batch @ ops \<and> good E m (batch @ ops) (value_object (xxh3_128 E) v, b) \<and>
    (\<forall>op\<in>set ops. op_cf op = cf_BLOB \<longrightarrow> (\<exists>k bl. op = Put cf_BLOB k bl \<and> blob_form E k bl))"
proof -
  obtain inline where i: "encode_property E v r = Inr inline"
    using assms(1) by (auto simp: encode_property_entry_def)
  show ?thesis
  proof (cases "length inline - 17 \<le> st_inline_max st")
    case True
    then have "b = inline" "batch' = batch" using assms(1) i by (auto simp: encode_property_entry_def)
    moreover have "\<not> is_ref inline"
      using i by (elim encode_property_cases) (auto simp: is_ref_def disc_defs)
    ultimately show ?thesis using i assms(2) by (auto simp: good_def value_form_def)
  next
    case False
    then obtain bl where "encode_blob E v = Inr bl" "b = encode_property_ref r"
      "batch' = batch @ [Put cf_BLOB (content_hash (xxh3_128 E) v) bl]"
      using assms(1) i by (auto simp: encode_property_entry_def)
    with assms(2) show ?thesis
      by (auto simp: good_def value_form_def has_blob_def blob_form_def)
  qed
qed

text \<open>The stored versions a store offers to close.\<close>

definition stored_good :: "('d, 'm) env_scheme \<Rightarrow> contents \<Rightarrow> bool" where
  "stored_good E m \<longleftrightarrow>
    (\<forall>q b. m (order_cf Gspo) (order_encode Gspo q) = Some b \<longrightarrow> good E m [] (qk_o q, b))"

lemma values_stored_good:
  assumes "values_ok E st" and "index_ok (view E (st_db st))"
  shows "stored_good E (view E (st_db st))"
proof -
  have "good E (view E (st_db st)) [] (qk_o q, b)"
    if "view E (st_db st) (order_cf Gspo) (order_encode Gspo q) = Some b" for q b
  proof -
    have "version_at (view E (st_db st)) (quad_ids_of q) (qk_tt q) = Some b"
      using that index_ok_at [OF assms(2), of Gspo q] by simp
    with assms(1) have "value_form E (fst (snd (snd (quad_ids_of q)))) b \<and>
        (is_ref b \<longrightarrow> view E (st_db st) cf_BLOB (node_bytes (fst (snd (snd (quad_ids_of q))))) \<noteq> None)"
      unfolding values_ok_def Let_def by blast
    then show ?thesis by (simp add: good_def has_blob_def quad_ids_of_def)
  qed
  then show ?thesis by (simp add: stored_good_def)
qed


context kv_engine
begin

lemma open_step_good:
  assumes "rfold open_step items latest0 = Inr latest"
    and "\<And>q b. (order_encode Gspo q, b) \<in> set items \<Longrightarrow> G (qk_o q, b)"
    and "\<And>k b. (k, b) \<in> set items \<Longrightarrow> \<exists>q. k = order_encode Gspo q"
    and "\<forall>x\<in>set latest0. G x"
  shows "\<forall>x\<in>set latest. G x"
  using assms(1)
proof (rule rfold_invariant [where I = "\<lambda>l. \<forall>x\<in>set l. G x"])
  fix x l l' assume a: "x \<in> set items" "\<forall>x\<in>set l. G x" "open_step x l = Inr l'"
  obtain k b where kb: "x = (k, b)" by (cases x)
  then obtain q where "k = order_encode Gspo q" using a(1) assms(3) [of k b] by auto
  with kb have x: "x = (order_encode Gspo q, b)" by simp
  have "G (qk_o q, b)" using assms(2) a(1) x by blast
  with a(2,3) show "\<forall>x\<in>set l'. G x"
    by (auto simp: x open_step_def dest!: in_set_butlastD split: if_splits)
qed (rule assms(4))

lemma gspo_items:
  assumes "index_ok (view E d)"
  obtains items where "iter_prefix E d (order_cf Gspo) (order_prefix Gspo s p ob g) = Inr items"
    and "sorted_wrt (<) (map fst items)"
    and "\<And>k b. (k, b) \<in> set items \<longleftrightarrow> (\<exists>q. k = order_encode Gspo q \<and>
      version_at (view E d) (quad_ids_of q) (qk_tt q) = Some b \<and> selects Gspo s p ob g (quad_ids_of q))"
proof -
  obtain items where items: "iter_prefix E d (order_cf Gspo) (order_prefix Gspo s p ob g) = Inr items"
    "sorted_wrt (<) (map fst items)"
    "\<And>k v. (k, v) \<in> set items \<longleftrightarrow> view E d (order_cf Gspo) k = Some v \<and>
      prefix (order_prefix Gspo s p ob g) k"
    using iter_prefixE [of d "order_cf Gspo" "order_prefix Gspo s p ob g"] by metis
  have "(k, b) \<in> set items \<longleftrightarrow> (\<exists>q. k = order_encode Gspo q \<and>
      version_at (view E d) (quad_ids_of q) (qk_tt q) = Some b \<and> selects Gspo s p ob g (quad_ids_of q))"
    for k b
  proof -
    have "view E d (order_cf Gspo) k = Some b \<Longrightarrow> \<exists>q. k = order_encode Gspo q"
      using assms unfolding index_ok_def by blast
    moreover have "prefix (order_prefix Gspo s p ob g) (order_encode Gspo q)
        = selects Gspo s p ob g (quad_ids_of q)" for q
      using selects_prefix [of Gspo s p ob g "quad_ids_of q" "qk_tt q"] by simp
    ultimately show ?thesis
      using items(3) [of k b] index_ok_at [OF assms, of Gspo] by metis
  qed
  with items that show thesis by blast
qed

lemma open_values_good:
  assumes "index_ok (view E (st_db st))" and "stored_good E (view E (st_db st))"
    and "open_values E st s p g at = Inr opens" and "x \<in> set opens"
  shows "good E (view E (st_db st)) [] x"
proof -
  obtain items where items:
    "iter_prefix E (st_db st) (order_cf Gspo) (order_prefix Gspo (Some s) (Some p) None (Some g)) = Inr items"
    "\<And>k b. (k, b) \<in> set items \<longleftrightarrow> (\<exists>q. k = order_encode Gspo q \<and>
      version_at (view E (st_db st)) (quad_ids_of q) (qk_tt q) = Some b \<and>
      selects Gspo (Some s) (Some p) None (Some g) (quad_ids_of q))"
    using gspo_items [OF assms(1), of "Some s" "Some p" None "Some g"] by metis
  obtain latest where l: "rfold open_step items [] = Inr latest"
    "opens = filter (\<lambda>(_, b). is_open at b) latest"
    using assms(3) items(1) by (auto simp: open_values_def)
  have "\<forall>x\<in>set latest. good E (view E (st_db st)) [] x"
  proof (rule open_step_good [OF l(1)])
    fix q b assume "(order_encode Gspo q, b) \<in> set items"
    then have "version_at (view E (st_db st)) (quad_ids_of q) (qk_tt q) = Some b"
      using items(2) quad_codec.enc_inject by metis
    then have "view E (st_db st) (order_cf Gspo) (order_encode Gspo q) = Some b"
      using index_ok_at [OF assms(1), of Gspo q] by simp
    with assms(2) show "good E (view E (st_db st)) [] (qk_o q, b)"
      unfolding stored_good_def by blast
  qed (use items(2) in auto)
  with assms(4) l(2) show ?thesis by simp
qed

lemma drain_good:
  "\<forall>x\<in>set slot. G x \<Longrightarrow> \<forall>x\<in>set opens. G x \<Longrightarrow> \<forall>x\<in>set (fold drain_step slot opens). G x"
proof (induction slot arbitrary: opens)
  case (Cons y slot)
  have "\<forall>x\<in>set (drain_step y opens). G x"
    using Cons.prems by (auto simp: drain_step_def Let_def split: prod.splits option.splits)
  with Cons show ?case by simp
qed simp

lemma stage_closings_vals:
  assumes "stage_closings E st s p g t ob at slot sg = Inr sg'"
    and "stage_vals E (view E (st_db st)) known sg" and "known p"
    and "index_ok (view E (st_db st))" and "stored_good E (view E (st_db st))"
    and "\<forall>x\<in>set slot. good E (view E (st_db st)) (sg_batch sg) x"
  shows "stage_vals E (view E (st_db st)) known sg'"
proof -
  let ?m = "view E (st_db st)"
  let ?key = "\<lambda>other. \<lparr>qk_s = s, qk_p = p, qk_o = other, qk_g = g, qk_tt = t\<rparr>"
  obtain opens where o: "open_values E st s p g at = Inr opens"
    and f: "rfold (close_step ?key ob at) (fold drain_step slot opens) sg = Inr sg'"
    using assms(1) by (auto simp: stage_closings_def)
  have "\<forall>x\<in>set opens. good E ?m (sg_batch sg) x"
    using open_values_good [OF assms(4,5) o] good_mono [of E ?m "[]"] by fastforce
  then have all: "\<forall>x\<in>set (fold drain_step slot opens). good E ?m (sg_batch sg) x"
    by (rule drain_good [OF assms(6)])
  have "stage_vals E ?m known sg' \<and> (\<exists>ops. sg_batch sg' = sg_batch sg @ ops)"
    using f
  proof (rule rfold_invariant [where I = "\<lambda>u. stage_vals E ?m known u \<and> (\<exists>ops. sg_batch u = sg_batch sg @ ops)"])
    show "stage_vals E ?m known sg \<and> (\<exists>ops. sg_batch sg = sg_batch sg @ ops)" using assms(2) by simp
    fix x u u'
    assume x: "x \<in> set (fold drain_step slot opens)" and u: "stage_vals E ?m known u \<and> (\<exists>ops. sg_batch u = sg_batch sg @ ops)"
      and st: "close_step ?key ob at x u = Inr u'"
    obtain other b where xb: "x = (other, b)" by (cases x)
    show "stage_vals E ?m known u' \<and> (\<exists>ops. sg_batch u' = sg_batch sg @ ops)"
    proof (cases "other = ob")
      case True
      with st xb u show ?thesis by (simp add: close_step_def)
    next
      case False
      with st xb obtain closed where c: "with_vt_end b at = Inr closed" "u' = stage_quad (?key other) closed u"
        by (auto simp: close_step_def)
      have "good E ?m (sg_batch u) (other, b)" using all x xb u good_mono by force
      then have "good E ?m (sg_batch u) (other, closed)" by (rule good_closed [OF _ c(1)])
      then have "stage_vals E ?m known u'"
        unfolding c(2) by (intro stage_vals_quad) (use u assms(3) in auto)
      with u show ?thesis by (auto simp: c(2) stage_quad_def)
    qed
  qed
  then show ?thesis ..
qed

lemma stage_value_vals:
  assumes "stage_value E st q v b slot sg = Inr sg'" and "stage_vals E m known sg"
    and "good E m (sg_batch sg) (qk_o q, b)" and "known (qk_p q)"
    and "\<forall>x\<in>set slot. good E m (sg_batch sg) x"
  shows "stage_vals E m known sg'"
proof -
  let ?sg = "sg\<lparr>sg_slots := hm_insert (qk_s q, qk_p q, qk_g q) (slot @ [(qk_o q, b)]) (sg_slots sg)\<rparr>"
  have "stage_vals E m known ?sg"
    using assms(2,3,5) by (auto simp: stage_vals_def hm_get_insert)
  then have vals: "stage_vals E m known (stage_quad q b ?sg)"
    by (rule stage_vals_quad) (use assms(3,4) in simp_all)
  have tri: "op_cf op \<noteq> cf_BLOB"
    if "op \<in> set (map (\<lambda>tri. Put cf_TRI (encode_tri tri p g s) []) ts)" for op p g s ts
    using that by (auto simp: cf_defs)
  show ?thesis
  proof (cases "value_as_text v")
    case None
    with assms(1) vals show ?thesis by (simp add: stage_value_def Let_def)
  next
    case (Some str)
    show ?thesis
    proof (cases "length (as_bytes str) > TRIGRAM_MAX_TEXT_BYTES")
      case True
      with Some assms(1) vals show ?thesis by (auto simp: stage_value_def Let_def batch_text_trigrams_def)
    next
      case False
      let ?ops = "map (\<lambda>tri. Put cf_TRI (encode_tri tri (qk_p q) (qk_g q) (qk_s q)) []) (extract_trigrams str)"
      have "sg' = (stage_quad q b ?sg)\<lparr>sg_batch := sg_batch (stage_quad q b ?sg) @ ?ops\<rparr>"
        using False Some assms(1) by (auto simp: stage_value_def Let_def batch_text_trigrams_def)
      with stage_vals_batch [OF vals, of ?ops] tri show ?thesis by auto
    qed
  qed
qed

lemma staged_slot_good:
  "stage_vals E m known sg \<Longrightarrow> \<forall>x\<in>set (staged_slot sg k). good E m (sg_batch sg) x"
  by (cases "hm_get (sg_slots sg) k") (fastforce simp: stage_vals_def staged_slot_def)+

lemma stage_property_vals:
  assumes "stage_property E w s p v r sg st = Inr sg'"
    and "stage_vals E (view E (st_db st)) known sg" and "known p" and "codec_ok E v"
    and "index_ok (view E (st_db st))" and "stored_good E (view E (st_db st))"
  shows "stage_vals E (view E (st_db st)) known sg'"
proof -
  let ?m = "view E (st_db st)" and ?o = "value_object (xxh3_128 E) v" and ?g = "pw_graph w"
  let ?q = "\<lparr>qk_s = s, qk_p = p, qk_o = ?o, qk_g = ?g, qk_tt = tt r\<rparr>"
  let ?slot = "staged_slot sg (s, p, ?g)"
  obtain b batch1 where enc: "encode_property_entry E st (sg_batch sg) v r = Inr (b, batch1)"
    using assms(1) by (auto simp: stage_property_def Let_def)
  obtain ops where ops: "batch1 = sg_batch sg @ ops" "good E ?m (sg_batch sg @ ops) (?o, b)"
    "\<forall>op\<in>set ops. op_cf op = cf_BLOB \<longrightarrow> (\<exists>k bl. op = Put cf_BLOB k bl \<and> blob_form E k bl)"
    using encode_property_entry_good [OF enc assms(4)] by metis
  define sg1 where "sg1 = sg\<lparr>sg_batch := batch1\<rparr>"
  have v1: "stage_vals E ?m known sg1"
    unfolding sg1_def ops(1) by (rule stage_vals_batch [OF assms(2) ops(3)])
  have slot1: "\<forall>x\<in>set ?slot. good E ?m (sg_batch sg1) x"
    using staged_slot_good [OF v1, of "(s, p, ?g)"] by (simp add: staged_slot_def sg1_def)
  show ?thesis
  proof (cases "resolve (pw_mode w) (pw_triple w) = Replace")
    case True
    with assms(1) enc obtain sg2 where c:
      "stage_closings E st s p ?g (tt r) ?o (vt_start r) ?slot sg1 = Inr sg2"
      "stage_value E st ?q v b [] sg2 = Inr sg'"
      by (auto simp: stage_property_def Let_def sg1_def)
    have v2: "stage_vals E ?m known sg2"
      by (rule stage_closings_vals [OF c(1) v1 assms(3,5,6) slot1])
    have "\<exists>ops. sg_batch sg2 = sg_batch sg1 @ ops"
    proof -
      obtain opens where "rfold (close_step (\<lambda>other. \<lparr>qk_s = s, qk_p = p, qk_o = other, qk_g = ?g,
          qk_tt = tt r\<rparr>) ?o (vt_start r)) (fold drain_step ?slot opens) sg1 = Inr sg2"
        using c(1) by (auto simp: stage_closings_def)
      then show ?thesis
        by (rule rfold_invariant [where I = "\<lambda>u. \<exists>ops. sg_batch u = sg_batch sg1 @ ops"])
          (auto simp: close_step_def stage_quad_def split: if_splits prod.splits)
    qed
    then have "good E ?m (sg_batch sg2) (?o, b)"
      using good_mono [OF ops(2)] by (auto simp: sg1_def ops(1))
    with v2 assms(3) show ?thesis by (intro stage_value_vals [OF c(2)]) simp_all
  next
    case False
    with assms(1) enc have c: "stage_value E st ?q v b ?slot sg1 = Inr sg'"
      by (auto simp: stage_property_def Let_def sg1_def)
    show ?thesis
      by (rule stage_value_vals [OF c v1]) (use ops(2) slot1 assms(3) in \<open>simp_all add: sg1_def ops(1)\<close>)
  qed
qed

end

text \<open>Every value a transaction writes must be one the codec carries.\<close>

definition writes_codec_ok :: "'m ext_scheme \<Rightarrow> pending_write list \<Rightarrow> bool" where
  "writes_codec_ok X ws \<longleftrightarrow>
    (\<forall>w\<in>set ws. case pw_triple w of Property _ _ v _ \<Rightarrow> codec_ok X v
      | EdgeProperty _ _ v _ \<Rightarrow> codec_ok X v | _ \<Rightarrow> True)"

definition known_pred :: "('d, 's) store_scheme \<Rightarrow> u32 \<Rightarrow> bool" where
  "known_pred st p \<longleftrightarrow> hm_get (st_rev st) p \<noteq> None"

lemma stage_vals_cong:
  "m cf_BLOB = m' cf_BLOB \<Longrightarrow> (\<And>p. known p \<Longrightarrow> known' p) \<Longrightarrow>
    stage_vals E m known sg \<Longrightarrow> stage_vals E m' known' sg"
  by (fastforce simp: stage_vals_def good_def has_blob_def)

lemma only_preds_stored:
  assumes "only_preds E st st'"
  shows "index_ok (view E (st_db st)) \<Longrightarrow> index_ok (view E (st_db st'))"
    and "stored_good E (view E (st_db st)) \<Longrightarrow> stored_good E (view E (st_db st'))"
    and "version_at (view E (st_db st')) = version_at (view E (st_db st))"
    and "view E (st_db st') cf_BLOB = view E (st_db st) cf_BLOB"
proof -
  note v = only_preds_view(1) [OF assms]
  have o: "view E (st_db st') (order_cf ord) = view E (st_db st) (order_cf ord)" for ord
    by (rule v) (rule order_cfs_meta)
  show b: "view E (st_db st') cf_BLOB = view E (st_db st) cf_BLOB" by (rule v) (simp add: cf_defs)
  show "index_ok (view E (st_db st)) \<Longrightarrow> index_ok (view E (st_db st'))"
    unfolding index_ok_def o .
  show "stored_good E (view E (st_db st)) \<Longrightarrow> stored_good E (view E (st_db st'))"
    unfolding stored_good_def o good_def has_blob_def b .
  show "version_at (view E (st_db st')) = version_at (view E (st_db st))"
    unfolding version_at_def [abs_def] o ..
qed

lemma only_preds_known:
  assumes "only_preds E st st'" and "pred_table_ok E st" and "pred_table_ok E st'" and "known_pred st p"
  shows "known_pred st' p"
proof -
  obtain n where "hm_get (st_rev st) p = Some n" using assms(4) by (auto simp: known_pred_def)
  then have "hm_get (st_fwd st) n = Some p" using assms(2) by (simp add: pred_table_ok_def table_ok_def)
  then have "hm_get (st_fwd st') n = Some p" using assms(1) unfolding only_preds_def by blast
  then have "hm_get (st_rev st') p = Some n" using assms(3) by (simp add: pred_table_ok_def table_ok_def)
  then show ?thesis by (simp add: known_pred_def)
qed

context kv_engine
begin

lemma stage_write_vals:
  assumes "stage_write E t w sg st = (Inr sg', st')" and "pred_table_ok E st"
    and "is_utf8 (canonical_name st (pred_str (triple_predicate (pw_triple w))))"
    and "0 < room_left (st_next_pred st)" and "writes_codec_ok E [w]"
    and "stage_vals E (view E (st_db st)) (known_pred st) sg"
    and "index_ok (view E (st_db st))" and "stored_good E (view E (st_db st))"
  shows "stage_vals E (view E (st_db st')) (known_pred st') sg'"
proof -
  let ?r = "(triple_temporal (pw_triple w))\<lparr>tt := t\<rparr>" and ?m' = "view E (st_db st')"
  note step = assms(1) [unfolded stage_write_def Let_def sbind_Inr_iff slift_iff]
  note op = stage_write_frame [OF assms(1)]
  note keep = only_preds_stored [OF op]
  have tab: "pred_table_ok E st'" using stage_write_preds [OF assms(1-4)] by blast
  obtain p where p: "intern_predicate E (pred_str (triple_predicate (pw_triple w))) st = (Inr p, st')"
    using step by blast
  have known: "known_pred st' p"
    using intern_predicate_lookup(1) [OF p] tab
    by (auto simp: known_pred_def pred_table_ok_def table_ok_def)
  have sg: "stage_vals E ?m' (known_pred st') sg"
    by (rule stage_vals_cong [OF _ _ assms(6)])
      (use keep(4) only_preds_known [OF op assms(2) tab] in auto)
  show ?thesis
  proof (cases "pw_triple w")
    case (Relation s n ob e r)
    with step p have "sg' = stage_quad \<lparr>qk_s = s, qk_p = p, qk_o = ob, qk_g = pw_graph w, qk_tt = t\<rparr>
        (encode_relation e ?r) sg" by auto
    moreover have "\<not> is_ref (encode_relation e ?r)"
      by (simp add: is_ref_def encode_relation_def disc_defs)
    then have "good E ?m' (sg_batch sg) (ob, encode_relation e ?r)"
      unfolding good_def prod.case value_form_def by blast
    ultimately show ?thesis using known by (auto intro: stage_vals_quad [OF sg])
  next
    case (Property s n v r)
    with step p have "Inr sg' = stage_property E w s p v ?r sg st'" by auto
    then show ?thesis
      using stage_property_vals [of w s p v ?r sg st' sg' "known_pred st'"] sg known
        keep(1) [OF assms(7)] keep(2) [OF assms(8)] assms(5) Property
      by (simp add: writes_codec_ok_def)
  next
    case (EdgeProperty e n v r)
    with step p obtain b batch where "batch_epa E st' e p (pw_graph w) t b (sg_batch sg) = Inr batch"
      "sg' = sg\<lparr>sg_batch := batch\<rparr>" by auto
    then show ?thesis
      by (auto simp: batch_epa_def cf_defs intro!: stage_vals_batch [OF sg])
  next
    case (EdgeRelation e n ob r)
    with step p obtain batch where
      "batch_epo E st' e p ob (pw_graph w) t (encode_epo_value ?r) (sg_batch sg) = Inr batch"
      "sg' = sg\<lparr>sg_batch := batch\<rparr>" by auto
    then show ?thesis
      by (auto simp: batch_epo_def cf_defs intro!: stage_vals_batch [OF sg])
  qed
qed

lemma smapM_stage_vals:
  "smapM (stage_write E t) ws sg st = (Inr sg', st') \<Longrightarrow> pred_table_ok E st \<Longrightarrow> names_ok st ws \<Longrightarrow>
    writes_codec_ok E ws \<Longrightarrow> stage_vals E (view E (st_db st)) (known_pred st) sg \<Longrightarrow>
    index_ok (view E (st_db st)) \<Longrightarrow> stored_good E (view E (st_db st)) \<Longrightarrow>
    stage_vals E (view E (st_db st')) (known_pred st') sg'"
proof (induction ws arbitrary: sg st)
  case (Cons w ws)
  obtain sg1 st1 where w: "stage_write E t w sg st = (Inr sg1, st1)"
    and ws: "smapM (stage_write E t) ws sg1 st1 = (Inr sg', st')"
    using Cons.prems(1) by (auto simp: sbind_Inr_iff)
  have u: "is_utf8 (canonical_name st (pred_str (triple_predicate (pw_triple w))))"
    "0 < room_left (st_next_pred st)" using Cons.prems(3) by (auto simp: names_ok_def)
  note p = stage_write_preds [OF w Cons.prems(2) u]
  note keep = only_preds_stored [OF stage_write_frame [OF w]]
  have "names_ok st1 ws"
    using Cons.prems(3) p only_preds_fields(10) [OF stage_write_frame [OF w]]
    by (auto simp: names_ok_def)
  moreover have "stage_vals E (view E (st_db st1)) (known_pred st1) sg1"
    by (rule stage_write_vals [OF w Cons.prems(2) u _ Cons.prems(5-7)])
      (use Cons.prems(4) in \<open>simp add: writes_codec_ok_def\<close>)
  moreover have "writes_codec_ok E ws" using Cons.prems(4) by (simp add: writes_codec_ok_def)
  ultimately show ?case
    using Cons.IH [OF ws] p keep(1) [OF Cons.prems(6)] keep(2) [OF Cons.prems(7)] by blast
qed (simp add: sret_def)

text \<open>Commit keeps the store invariant.\<close>

lemma commit_store_ok:
  assumes "store_ok E st" and "tx_ok st tx" and "st_committed st < END_OF_TIME"
    and "Timestamp 0 \<le> wall" and "commit E wall tx st = (r, st')"
  shows "store_ok E st'"
proof -
  let ?t = "commit_time wall st"
  let ?st1 = "st\<lparr>st_committed := ?t\<rparr>"
  have inv: "index_ok (view E (st_db st))" "pred_table_ok E st" "graph_table_ok E st"
    "dict_ok E (view E (st_db st))" "times_ok E st"
    using assms(1) by (simp_all add: store_ok_def)
  have inv1: "pred_table_ok E ?st1" "graph_table_ok E ?st1" "names_ok ?st1 (pending_writes tx)"
    using inv(2,3) assms(2)
    by (auto simp: pred_table_ok_def graph_table_ok_def tx_ok_def names_ok_def canonical_name_def)
  have t0: "Timestamp 0 \<le> ?t" using assms(4) by (simp add: commit_time_def le_max_iff_disj)
  have tgt: "st_committed st < ?t" by (rule commit_time_greater [OF assms(3)])
  have u: "\<forall>iri\<in>set (tx_iris tx). is_utf8 iri" using assms(2) by (simp add: tx_ok_def)
  show ?thesis
    using inv(4) u assms(5)
  proof (cases rule: commit_cases)
    case empty
    with assms(1) show ?thesis by simp
  next
    case (failed e)
    note op = failed(3)
    have tab: "pred_table_ok E st'"
      using failed(4) smapM_stage_preds [OF _ inv1(1,3)] inv1(1) by blast
    have "times_ok E st'"
      using inv(5) tgt t0 only_preds_stored(3) [OF op] only_preds_fields(1) [OF op]
      by (fastforce simp: times_ok_def)
    with tab show ?thesis
      using only_preds_stored(1) [OF op] only_preds_graphs [OF op inv1(2)] only_preds_dict [OF op]
        inv(1,4) by (simp add: store_ok_def)
  next
    case (committed sg st2 puts p d)
    note op = smapM_stage_frame [OF committed(4)]
    note eff = commit_effect [OF committed(4,7,10)]
    have wr: "writes_at ?t (sg_quads sg) (view E (st_db st)) (view E d)" using eff(1) by simp
    have meta: "view E d cf_META k = view E (st_db st2) cf_META k" if "k \<noteq> META_ORACLE_CTR" for k
      using that by (simp add: eff(2))
    have "pred_table_ok E st2" by (rule smapM_stage_preds [OF committed(4) inv1(1,3)])
    then have "pred_table_ok E st'"
      unfolding pred_table_ok_def committed(9)
      by (simp, elim table_ok_cong) (auto simp: meta meta_consts)
    moreover have "graph_table_ok E st2" by (rule only_preds_graphs [OF op inv1(2)])
    then have "graph_table_ok E st'"
      unfolding graph_table_ok_def committed(9)
      by (auto simp: meta meta_consts elim!: table_ok_cong)
    moreover have "dict_ok E (view E (st_db st2))" by (rule only_preds_dict [OF op]) (use inv(4) in simp)
    then have "dict_ok E (apply_batch puts (view E (st_db st2)))" by (rule dict_puts_ok [OF committed(7)])
    then have "dict_ok E (view E (st_db st'))" by (simp add: dict_ok_def eff(3) committed(9))
    moreover have "index_ok (view E (st_db st'))"
      using writes_at_index [OF wr inv(1) t0] by (simp add: committed(9))
    moreover have "times_ok E st'"
    proof -
      have "u \<le> ?t" if v: "version_at (view E d) ids u = Some b" for ids u b
      proof (cases "u = ?t")
        case False
        then have "version_at (view E (st_db st)) ids u = Some b"
          using writes_at_old [OF wr] v by simp
        then show ?thesis using inv(5) tgt by (fastforce simp: times_ok_def)
      qed simp
      with t0 show ?thesis
        using only_preds_fields(1) [OF op] by (simp add: times_ok_def committed(9))
    qed
    ultimately show ?thesis by (simp add: store_ok_def)
  qed
qed

lemma batch_blobs:
  assumes "\<forall>op\<in>set batch. op_cf op = cf_BLOB \<longrightarrow> (\<exists>k bl. op = Put cf_BLOB k bl \<and> blob_form E k bl)"
    and "\<forall>k bl. m cf_BLOB k = Some bl \<longrightarrow> blob_form E k bl"
  shows "(\<forall>k bl. apply_batch batch m cf_BLOB k = Some bl \<longrightarrow> blob_form E k bl) \<and>
    (\<forall>k. m cf_BLOB k \<noteq> None \<or> (\<exists>bl. Put cf_BLOB k bl \<in> set batch) \<longrightarrow>
      apply_batch batch m cf_BLOB k \<noteq> None)"
  using assms
proof (induction batch arbitrary: m)
  case (Cons op batch)
  let ?m = "apply_op op m"
  show ?case
  proof (cases "op_cf op = cf_BLOB")
    case True
    then obtain k bl where op: "op = Put cf_BLOB k bl" "blob_form E k bl" using Cons.prems(1) by auto
    have "\<forall>k bl. ?m cf_BLOB k = Some bl \<longrightarrow> blob_form E k bl"
      using Cons.prems(2) op by auto
    note IH = Cons.IH [of ?m, OF _ this]
    have grow: "m cf_BLOB k' \<noteq> None \<or> (\<exists>bl. Put cf_BLOB k' bl \<in> set (op # batch)) \<Longrightarrow>
        ?m cf_BLOB k' \<noteq> None \<or> (\<exists>bl. Put cf_BLOB k' bl \<in> set batch)" for k'
      by (auto simp: op(1))
    show ?thesis unfolding apply_batch_simps(2) using IH grow Cons.prems(1)
      by (meson list.set_intros(2))
  next
    case False
    then have same: "?m cf_BLOB = m cf_BLOB" by (cases op) auto
    then have "\<forall>k bl. ?m cf_BLOB k = Some bl \<longrightarrow> blob_form E k bl" using Cons.prems(2) by simp
    note IH = Cons.IH [of ?m, OF _ this]
    have grow: "m cf_BLOB k' \<noteq> None \<or> (\<exists>bl. Put cf_BLOB k' bl \<in> set (op # batch)) \<Longrightarrow>
        ?m cf_BLOB k' \<noteq> None \<or> (\<exists>bl. Put cf_BLOB k' bl \<in> set batch)" for k'
      using False by (auto simp: same)
    show ?thesis unfolding apply_batch_simps(2) using IH grow Cons.prems(1)
      by (meson list.set_intros(2))
  qed
qed simp

lemma values_only_preds:
  assumes "only_preds E st st'" and "values_ok E st" and "pred_table_ok E st" and "pred_table_ok E st'"
  shows "values_ok E st'"
  using assms(2) only_preds_known [OF assms(1,3,4)]
  unfolding values_ok_def Let_def only_preds_stored(3,4) [OF assms(1)] known_pred_def by blast

lemma commit_values_ok:
  assumes "store_ok E st" and "values_ok E st" and "tx_ok st tx"
    and "writes_codec_ok E (pending_writes tx)" and "commit E wall tx st = (r, st')"
  shows "values_ok E st'"
proof -
  let ?t = "commit_time wall st"
  let ?st1 = "st\<lparr>st_committed := ?t\<rparr>" and ?m = "view E (st_db st)"
  have inv: "index_ok ?m" "pred_table_ok E st" "dict_ok E ?m"
    using assms(1) by (simp_all add: store_ok_def)
  have inv1: "pred_table_ok E ?st1" "names_ok ?st1 (pending_writes tx)" "values_ok E ?st1"
    using inv(2) assms(2,3)
    by (auto simp: pred_table_ok_def tx_ok_def names_ok_def canonical_name_def values_ok_def Let_def)
  have u: "\<forall>iri\<in>set (tx_iris tx). is_utf8 iri" using assms(3) by (simp add: tx_ok_def)
  show ?thesis
    using inv(3) u assms(5)
  proof (cases rule: commit_cases)
    case empty
    with assms(2) show ?thesis by simp
  next
    case (failed e)
    have "pred_table_ok E st'"
      using failed(4) smapM_stage_preds [OF _ inv1(1,2)] inv1(1) by blast
    then show ?thesis by (rule values_only_preds [OF failed(3) inv1(3,1)])
  next
    case (committed sg st2 puts p d)
    note op = smapM_stage_frame [OF committed(4)]
    note eff = commit_effect [OF committed(4,7,10)]
    have tab2: "pred_table_ok E st2" by (rule smapM_stage_preds [OF committed(4) inv1(1,2)])
    have sv: "stage_vals E (view E (st_db st2)) (known_pred st2) sg"
    proof (rule smapM_stage_vals [OF committed(4) inv1(1,2) assms(4)])
      show "stored_good E (view E (st_db ?st1))"
        using values_stored_good [OF inv1(3)] inv(1) by simp
    qed (use inv(1) in \<open>simp_all add: stage_vals_def\<close>)
    have b2: "view E (st_db st2) cf_BLOB = ?m cf_BLOB" using only_preds_stored(4) [OF op] by simp
    have e5: "view E d cf_BLOB = apply_batch (sg_batch sg) ?m cf_BLOB" using eff(5) by simp
    have puts_ok: "\<forall>op\<in>set (sg_batch sg). op_cf op = cf_BLOB \<longrightarrow>
        (\<exists>k bl. op = Put cf_BLOB k bl \<and> blob_form E k bl)"
      using sv unfolding stage_vals_def by blast
    have "\<forall>k bl. ?m cf_BLOB k = Some bl \<longrightarrow> blob_form E k bl"
      using assms(2) by (simp add: values_ok_def Let_def)
    note bl = batch_blobs [of "sg_batch sg" ?m, OF puts_ok this, folded e5]
    have "value_form E (fst (snd (snd ids))) b \<and>
        (is_ref b \<longrightarrow> view E d cf_BLOB (node_bytes (fst (snd (snd ids)))) \<noteq> None) \<and>
        known_pred st2 (fst (snd ids))"
      if v: "version_at (view E d) ids w = Some b" for ids w b
    proof (cases "staged_value (sg_quads sg) (quad_of_ids ids w)")
      case None
      then have "version_at ?m ids w = Some b"
        using v writes_at_version [OF eff(1), of ids w] by simp
      with assms(2) have "value_form E (fst (snd (snd ids))) b"
        "is_ref b \<longrightarrow> ?m cf_BLOB (node_bytes (fst (snd (snd ids)))) \<noteq> None" "known_pred ?st1 (fst (snd ids))"
        unfolding values_ok_def Let_def known_pred_def by auto
      with conjunct2 [OF bl] only_preds_known [OF op inv1(1) tab2] show ?thesis by blast
    next
      case (Some b')
      then have "(quad_of_ids ids w, b) \<in> set (sg_quads sg)"
        using v writes_at_version [OF eff(1), of ids w] by (auto simp: staged_value_def dest: map_of_SomeD)
      then have "good E (view E (st_db st2)) (sg_batch sg) (qk_o (quad_of_ids ids w), b)"
        "known_pred st2 (qk_p (quad_of_ids ids w))"
        using sv unfolding stage_vals_def by blast+
      moreover have "qk_o (quad_of_ids ids w) = fst (snd (snd ids))" "qk_p (quad_of_ids ids w) = fst (snd ids)"
        by (simp_all add: quad_of_ids_def split: prod.splits)
      ultimately show ?thesis using conjunct2 [OF bl] b2 unfolding good_def has_blob_def prod.case by auto
    qed
    then show ?thesis
      using conjunct1 [OF bl] by (auto simp: values_ok_def Let_def committed(9) known_pred_def)
  qed
qed

text \<open>On such a store nothing a scan meets fails to decode.\<close>

lemma values_rebuild:
  assumes "values_ok E st" and "version_at (view E (st_db st)) ids t = Some b"
  shows "\<exists>tr. rebuild E st ids t b = Inr tr"
proof -
  obtain s p ob g where ids: "ids = (s, p, ob, g)" by (cases ids)
  obtain name where name: "hm_get (st_rev st) p = Some name"
    and form: "value_form E ob b" and ref: "is_ref b \<longrightarrow> view E (st_db st) cf_BLOB (node_bytes ob) \<noteq> None"
    using assms unfolding values_ok_def Let_def ids by fastforce
  have pn: "predicate_string st p = Some name" using name by (simp add: predicate_string_def)
  from form consider e r where "b = encode_relation e r"
    | v r where "codec_ok E v" "encode_property E v r = Inr b"
    | r where "b = encode_property_ref r"
    unfolding value_form_def by blast
  then show ?thesis
  proof cases
    case 1
    then show ?thesis by (simp add: rebuild_def ids reconstruct_def pn)
  next
    case 2
    then show ?thesis by (simp add: rebuild_def ids reconstruct_def pn decode_encode_property)
  next
    case 3
    then have "is_ref b" by (simp add: is_ref_def encode_property_ref_def)
    with ref obtain bl where bl: "view E (st_db st) cf_BLOB (node_bytes ob) = Some bl" by auto
    with assms(1) obtain v where "codec_ok E v" "encode_blob E v = Inr bl"
      unfolding values_ok_def Let_def blob_form_def by blast
    then have "load_blob E ob st = Inr v"
      using bl by (simp add: load_blob_def db_get_ok cf_ALL_def decode_encode_blob)
    with 3 show ?thesis by (simp add: rebuild_def ids reconstruct_def pn)
  qed
qed

lemma scan_total:
  assumes "store_ok E st" and "values_ok E st"
  shows "\<exists>out. snapshot_scan_keyed E now st (order_cf ord) ord (order_prefix ord s p ob g) at graphs = Inr out"
proof -
  have "index_ok (view E (st_db st))" using assms(1) by (simp add: store_ok_def)
  moreover have "live_at (view E (st_db st)) ts vt ids t b \<Longrightarrow> \<exists>tr. rebuild E st ids t b = Inr tr" for ts vt ids t b
    using values_rebuild [OF assms(2)] by (auto simp: live_at_def governs_def eligible_def)
  ultimately show ?thesis using scan_keyed_ok [of st now ord s p ob g at graphs] by blast
qed

end

end
