(* ===== verification/Commit_Outcome.thy ===== *)
theory Commit_Outcome
  imports Value_Facts
begin

text \<open>
  How a commit ends: which conflicts the check reports, that staging does not fail on a store whose
  values are well-formed, and so that a commit fails only for a conflict, for an IRI that names a
  node another IRI has taken, or on a replica; and what earlier and later snapshots see.
\<close>


section \<open>Conflicts\<close>

text \<open>The quads a write claims: its own, or every value of its property when it replaces.\<close>

definition claims :: "'m ext_scheme \<Rightarrow> pending_write \<Rightarrow> u32 \<Rightarrow> quad_ids \<Rightarrow> bool" where
  "claims X w p ids \<longleftrightarrow>
    (case pw_triple w of
       Relation s _ ob _ _ \<Rightarrow> ids = (s, p, ob, pw_graph w)
     | Property s _ v _ \<Rightarrow>
         (if resolve (pw_mode w) (pw_triple w) = Replace
          then \<exists>ob. ids = (s, p, ob, pw_graph w)
          else ids = (s, p, value_object (xxh3_128 X) v, pw_graph w))
     | _ \<Rightarrow> False)"

definition conflicting ::
  "('d, 'm) env_scheme \<Rightarrow> 'd store \<Rightarrow> timestamp \<Rightarrow> timestamp \<Rightarrow> pending_write \<Rightarrow> bool" where
  "conflicting E st from_ts commit_ts w \<longleftrightarrow>
    (\<exists>p ids t b. predicate_id st (pred_str (triple_predicate (pw_triple w))) = Some p \<and>
      claims E w p ids \<and> version_at (view E (st_db st)) ids t = Some b \<and>
      from_ts < t \<and> t \<le> commit_ts)"

context kv_engine
begin

lemma conflict_prefix_selects:
  "conflict_prefix E w p = None \<Longrightarrow> \<not> claims E w p ids"
  "conflict_prefix E w p = Some pfx \<Longrightarrow>
    \<exists>s' p' ob' g'. pfx = order_prefix Gspo s' p' ob' g' \<and>
      (\<forall>ids. selects Gspo s' p' ob' g' ids \<longleftrightarrow> claims E w p ids)"
proof -
  show "conflict_prefix E w p = None \<Longrightarrow> \<not> claims E w p ids"
    by (auto simp: conflict_prefix_def claims_def Let_def split: triple.splits write_mode.splits)
  have sel: "selects Gspo (Some s) (Some i) (Some ob) (Some g) ids \<longleftrightarrow> ids = (s, i, ob, g)"
    "selects Gspo (Some s) (Some i) None (Some g) ids \<longleftrightarrow> (\<exists>ob. ids = (s, i, ob, g))" for s i ob g ids
    by (cases ids; auto simp: selects_def covered_slots_def quad_of_ids_def)+
  show "\<exists>s' p' ob' g'. pfx = order_prefix Gspo s' p' ob' g' \<and>
      (\<forall>ids. selects Gspo s' p' ob' g' ids \<longleftrightarrow> claims E w p ids)"
    if "conflict_prefix E w p = Some pfx"
  proof (cases "pw_triple w")
    case (Relation s n ob e r)
    with that have "pfx = order_prefix Gspo (Some s) (Some p) (Some ob) (Some (pw_graph w))"
      by (simp add: conflict_prefix_def Let_def)
    moreover have "selects Gspo (Some s) (Some p) (Some ob) (Some (pw_graph w)) ids \<longleftrightarrow> claims E w p ids"
      for ids by (simp add: sel claims_def Relation)
    ultimately show ?thesis by metis
  next
    case (Property s n v r)
    show ?thesis
    proof (cases "resolve (pw_mode w) (pw_triple w) = Replace")
      case True
      with that Property have "pfx = order_prefix Gspo (Some s) (Some p) None (Some (pw_graph w))"
        by (simp add: conflict_prefix_def Let_def)
      moreover have "selects Gspo (Some s) (Some p) None (Some (pw_graph w)) ids \<longleftrightarrow> claims E w p ids"
        for ids using True by (simp add: sel claims_def Property)
      ultimately show ?thesis by metis
    next
      case False
      with that Property have "pfx = order_prefix Gspo (Some s) (Some p)
          (Some (value_object (xxh3_128 E) v)) (Some (pw_graph w))"
        by (auto simp: conflict_prefix_def Let_def split: write_mode.splits)
      moreover have "selects Gspo (Some s) (Some p) (Some (value_object (xxh3_128 E) v)) (Some (pw_graph w)) ids
          \<longleftrightarrow> claims E w p ids"
        for ids using False by (simp add: sel claims_def Property)
      ultimately show ?thesis by metis
    qed
  qed (use that in \<open>simp_all add: conflict_prefix_def Let_def\<close>)
qed

lemma check_conflict_iff:
  assumes "index_ok (view E (st_db st))"
  shows "check_conflict E st w from_ts commit_ts =
    Inr (if conflicting E st from_ts commit_ts w
         then Some (triple_subject (pw_triple w), pred_str (triple_predicate (pw_triple w))) else None)"
proof (cases "predicate_id st (pred_str (triple_predicate (pw_triple w)))")
  case None
  then show ?thesis by (simp add: check_conflict_def conflicting_def)
next
  case (Some p)
  show ?thesis
  proof (cases "conflict_prefix E w p")
    case None
    with Some conflict_prefix_selects(1) [OF None] show ?thesis
      by (simp add: check_conflict_def conflicting_def)
  next
    case pfx: (Some pfx)
    from conflict_prefix_selects(2) [OF this] obtain s' p' ob' g' where
      pf: "pfx = order_prefix Gspo s' p' ob' g'"
      "\<And>ids. selects Gspo s' p' ob' g' ids \<longleftrightarrow> claims E w p ids" by blast
    obtain items where items: "iter_prefix E (st_db st) (order_cf Gspo) pfx = Inr items"
      "\<And>k b. (k, b) \<in> set items \<longleftrightarrow> (\<exists>q. k = order_encode Gspo q \<and>
        version_at (view E (st_db st)) (quad_ids_of q) (qk_tt q) = Some b \<and> claims E w p (quad_ids_of q))"
      using gspo_items [OF assms, of s' p' ob' g'] pf by metis
    have "(\<exists>(k, v)\<in>set items. key_tt k > from_ts \<and> key_tt k \<le> commit_ts) \<longleftrightarrow>
        conflicting E st from_ts commit_ts w"
    proof
      assume "\<exists>(k, v)\<in>set items. key_tt k > from_ts \<and> key_tt k \<le> commit_ts"
      then obtain k v where "(k, v) \<in> set items" "key_tt k > from_ts" "key_tt k \<le> commit_ts" by blast
      moreover from this(1) items(2) obtain q where "k = order_encode Gspo q"
        "version_at (view E (st_db st)) (quad_ids_of q) (qk_tt q) = Some v" "claims E w p (quad_ids_of q)"
        by blast
      ultimately show "conflicting E st from_ts commit_ts w"
        unfolding conflicting_def using Some by (metis key_tt_encode)
    next
      assume "conflicting E st from_ts commit_ts w"
      then obtain ids t b where "claims E w p ids"
        "version_at (view E (st_db st)) ids t = Some b" "from_ts < t" "t \<le> commit_ts"
        using Some by (auto simp: conflicting_def)
      then have "(order_encode Gspo (quad_of_ids ids t), b) \<in> set items"
        using items(2) by (metis quad_of_ids_of quad_of_ids_tt)
      then show "\<exists>(k, v)\<in>set items. key_tt k > from_ts \<and> key_tt k \<le> commit_ts"
        using \<open>from_ts < t\<close> \<open>t \<le> commit_ts\<close> by force
    qed
    then show ?thesis
      using Some pfx items(1) by (simp add: check_conflict_def)
  qed
qed

lemma check_conflicts_iff:
  assumes "index_ok (view E (st_db st))"
  shows "check_conflicts E st from_ts commit_ts ws = Inr () \<longleftrightarrow>
      (\<forall>w\<in>set ws. \<not> conflicting E st from_ts commit_ts w)"
    and "check_conflicts E st from_ts commit_ts ws = Inl e \<Longrightarrow>
      \<exists>w\<in>set ws. conflicting E st from_ts commit_ts w \<and>
        e = WriteConflict (triple_subject (pw_triple w)) (pred_str (triple_predicate (pw_triple w)))"
  by (induction ws) (auto simp: check_conflict_iff [OF assms] split: if_splits)

end


section \<open>Staging does not fail\<close>

lemma value_form_valid_time: "value_form E ob b \<Longrightarrow> valid_time b \<noteq> None"
  by (auto simp: value_form_def dest: valid_time_encode_property)

lemma encode_blob_total: "codec_ok X v \<Longrightarrow> \<exists>bl. encode_blob X v = Inr bl"
  using encode_property_total [of X v zero_range] by (auto simp: encode_blob_def)

context kv_engine
begin

lemma encode_property_entry_total:
  "codec_ok E v \<Longrightarrow> \<exists>x. encode_property_entry E st batch v r = Inr x"
proof -
  assume ok: "codec_ok E v"
  have "cf_handle E cf_BLOB st = Inr ()" by (rule cf_handle_ok) (simp add: cf_ALL_def)
  with encode_property_total [OF ok, of r] encode_blob_total [OF ok] show ?thesis
    by (auto simp: encode_property_entry_def)
qed

lemma open_values_total:
  assumes "index_ok (view E (st_db st))"
  shows "\<exists>opens. open_values E st s p g at = Inr opens"
proof -
  obtain items where items:
    "iter_prefix E (st_db st) (order_cf Gspo) (order_prefix Gspo (Some s) (Some p) None (Some g)) = Inr items"
    "\<And>k b. (k, b) \<in> set items \<Longrightarrow> \<exists>q. k = order_encode Gspo q"
    using gspo_items [OF assms, of "Some s" "Some p" None "Some g"] by metis
  have "\<exists>l'. rfold open_step items l = Inr l'" for l
    using items(2)
  proof (induction items arbitrary: l)
    case (Cons x items)
    obtain k b where x: "x = (k, b)" by (cases x)
    then obtain q where "k = order_encode Gspo q" using Cons.prems [of k b] by auto
    then have "\<exists>l1. open_step x l = Inr l1" by (auto simp: x open_step_def)
    then obtain l1 where "open_step x l = Inr l1" by blast
    moreover have "\<exists>l'. rfold open_step items l1 = Inr l'"
      by (rule Cons.IH) (use Cons.prems in auto)
    ultimately show ?case by simp
  qed simp
  then show ?thesis using items(1) by (auto simp: open_values_def)
qed

lemma stage_closings_total:
  assumes "index_ok (view E (st_db st))" and "stored_good E (view E (st_db st))"
    and "\<forall>x\<in>set slot. good E (view E (st_db st)) batch x"
  shows "\<exists>sg'. stage_closings E st s p g t ob at slot sg = Inr sg'"
proof -
  obtain opens where o: "open_values E st s p g at = Inr opens"
    using open_values_total [OF assms(1)] by blast
  have "\<forall>x\<in>set opens. good E (view E (st_db st)) batch x"
    using open_values_good [OF assms(1,2) o] good_mono [of E _ "[]" _ batch] by fastforce
  then have "\<forall>x\<in>set (fold drain_step slot opens). good E (view E (st_db st)) batch x"
    by (rule drain_good [OF assms(3)])
  then have valid: "\<forall>(other, b)\<in>set (fold drain_step slot opens). valid_time b \<noteq> None"
    using value_form_valid_time by (fastforce simp: good_def)
  have "\<exists>u'. rfold (close_step key ob at) xs u = Inr u'"
    if "\<forall>(other, b)\<in>set xs. valid_time b \<noteq> None" for key xs u
    using that
  proof (induction xs arbitrary: u)
    case (Cons x xs)
    obtain other b where x: "x = (other, b)" by (cases x)
    then obtain closed where "with_vt_end b at = Inr closed"
      using Cons.prems with_vt_end_iff [of b at] by auto
    then have "\<exists>u1. close_step key ob at x u = Inr u1" by (auto simp: x close_step_def)
    with Cons show ?case by auto
  qed simp
  with valid o show ?thesis by (simp add: stage_closings_def)
qed

lemma stage_value_total: "\<exists>sg'. stage_value E st q v b slot sg = Inr sg'"
proof -
  have "cf_handle E cf_TRI st = Inr ()" by (rule cf_handle_ok) (simp add: cf_ALL_def)
  then show ?thesis
    by (auto simp: stage_value_def Let_def batch_text_trigrams_def split: option.splits)
qed

lemma stage_property_total:
  assumes "stage_vals E (view E (st_db st)) known sg" and "codec_ok E v"
    and "index_ok (view E (st_db st))" and "stored_good E (view E (st_db st))"
  shows "\<exists>sg'. stage_property E w s p v r sg st = Inr sg'"
proof -
  obtain b batch1 where enc: "encode_property_entry E st (sg_batch sg) v r = Inr (b, batch1)"
    using encode_property_entry_total [OF assms(2)] by fastforce
  show ?thesis
  proof (cases "resolve (pw_mode w) (pw_triple w) = Replace")
    case True
    have "\<exists>sg2. stage_closings E st s p (pw_graph w) (tt r) (value_object (xxh3_128 E) v) (vt_start r)
        (staged_slot sg (s, p, pw_graph w)) (sg\<lparr>sg_batch := batch1\<rparr>) = Inr sg2"
      by (rule stage_closings_total [OF assms(3,4) staged_slot_good [OF assms(1)]])
    with True enc stage_value_total show ?thesis by (auto simp: stage_property_def Let_def)
  next
    case False
    with enc stage_value_total show ?thesis by (auto simp: stage_property_def Let_def)
  qed
qed

lemma stage_write_total:
  assumes "stage_write E t w sg st = (Inl e, st')" and "pred_table_ok E st"
    and "is_utf8 (canonical_name st (pred_str (triple_predicate (pw_triple w))))"
    and "0 < room_left (st_next_pred st)" and "writes_codec_ok E [w]"
    and "stage_vals E (view E (st_db st)) (known_pred st) sg"
    and "index_ok (view E (st_db st))" and "stored_good E (view E (st_db st))"
  shows "e = read_only_err \<and> is_replica st"
proof -
  let ?r = "(triple_temporal (pw_triple w))\<lparr>tt := t\<rparr>" and ?n = "pred_str (triple_predicate (pw_triple w))"
  obtain r1 st1 where i: "intern_predicate E ?n st = (r1, st1)" by (cases "intern_predicate E ?n st")
  show ?thesis
  proof (cases r1)
    case (Inl e')
    with assms(1) i have "e = e'" by (simp add: stage_write_def Let_def sbind_def)
    with i Inl show ?thesis by (cases rule: intern_predicate_cases) auto
  next
    case (Inr p)
    note op = intern_only_preds [OF i]
    note keep = only_preds_stored [OF op]
    have sv: "stage_vals E (view E (st_db st1)) (\<lambda>_. True) sg"
      by (rule stage_vals_cong [OF _ _ assms(6)]) (simp_all add: keep(4))
    have h: "cf_handle E cf_EPA st1 = Inr ()" "cf_handle E cf_PEA st1 = Inr ()"
      "cf_handle E cf_EPO st1 = Inr ()"
      by (rule cf_handle_ok; simp add: cf_ALL_def)+
    have "\<exists>sg'. fst (stage_write E t w sg st) = Inr sg'"
    proof (cases "pw_triple w")
      case (Property s n v r)
      have "codec_ok E v" using assms(5) Property by (simp add: writes_codec_ok_def)
      with stage_property_total [OF sv _ keep(1) [OF assms(7)] keep(2) [OF assms(8)]]
      obtain sg' where "stage_property E w s p v ?r sg st1 = Inr sg'" by metis
      with i Inr Property show ?thesis
        by (simp add: stage_write_def Let_def sbind_def slift_def)
    next
      case (EdgeProperty e n v r)
      then have "codec_ok E v" using assms(5) by (simp add: writes_codec_ok_def)
      from encode_property_total [OF this] obtain b where "encode_property E v ?r = Inr b" by blast
      with i Inr EdgeProperty h show ?thesis
        by (simp add: stage_write_def Let_def sbind_def slift_def batch_epa_def)
    qed (use i Inr h in \<open>simp_all add: stage_write_def Let_def sbind_def slift_def batch_epo_def\<close>)
    with assms(1) show ?thesis by simp
  qed
qed

lemma smapM_stage_total:
  "smapM (stage_write E t) ws sg st = (Inl e, st') \<Longrightarrow> pred_table_ok E st \<Longrightarrow> names_ok st ws \<Longrightarrow>
    writes_codec_ok E ws \<Longrightarrow> stage_vals E (view E (st_db st)) (known_pred st) sg \<Longrightarrow>
    index_ok (view E (st_db st)) \<Longrightarrow> stored_good E (view E (st_db st)) \<Longrightarrow>
    e = read_only_err \<and> is_replica st"
proof (induction ws arbitrary: sg st)
  case (Cons w ws)
  have u: "is_utf8 (canonical_name st (pred_str (triple_predicate (pw_triple w))))"
    "0 < room_left (st_next_pred st)" "writes_codec_ok E [w]" "writes_codec_ok E ws"
    using Cons.prems(3,4) by (auto simp: names_ok_def writes_codec_ok_def)
  obtain r1 st1 where w: "stage_write E t w sg st = (r1, st1)" by (cases "stage_write E t w sg st")
  show ?case
  proof (cases r1)
    case (Inl e1)
    with Cons.prems(1) w have "stage_write E t w sg st = (Inl e, st1)" by (simp add: sbind_def)
    from stage_write_total [OF this Cons.prems(2) u(1-3) Cons.prems(5-7)] show ?thesis .
  next
    case (Inr sg1)
    note w = w [unfolded Inr]
    have ws: "smapM (stage_write E t) ws sg1 st1 = (Inl e, st')"
      using Cons.prems(1) w by (simp add: sbind_def)
    note p = stage_write_preds [OF w Cons.prems(2) u(1,2)]
    note op = stage_write_frame [OF w]
    note keep = only_preds_stored [OF op]
    have "names_ok st1 ws"
      using Cons.prems(3) p only_preds_fields(10) [OF op] by (auto simp: names_ok_def)
    moreover have "stage_vals E (view E (st_db st1)) (known_pred st1) sg1"
      by (rule stage_write_vals [OF w Cons.prems(2) u(1-3) Cons.prems(5-7)])
    ultimately show ?thesis
      using Cons.IH [OF ws] p u(4) keep(1) [OF Cons.prems(6)] keep(2) [OF Cons.prems(7)]
        only_preds_fields(11) [OF op] by simp
  qed
qed (simp add: sret_def)

end


section \<open>Why a commit fails\<close>

text \<open>Two different IRIs that name one node, the second of them given to the transaction.\<close>

definition iri_clash :: "'m ext_scheme \<Rightarrow> string list \<Rightarrow> storage_error \<Rightarrow> bool" where
  "iri_clash X iris e \<longleftrightarrow>
    (\<exists>old new. new \<in> set iris \<and> needs_dictionary X new \<and> old \<noteq> new \<and>
      iri_to_node_id X old = iri_to_node_id X new \<and>
      e = IriCollision (iri_to_node_id X new) old new)"

definition pending_named :: "'m ext_scheme \<Rightarrow> (node_id \<times> string) list \<Rightarrow> bool" where
  "pending_named X p \<longleftrightarrow> (\<forall>n i. hm_get p n = Some i \<longrightarrow> iri_to_node_id X i = n)"

lemma dict_entry_named:
  assumes "dict_ok X m" and "pending_named X p" and "dict_entry m p n = Some i"
  shows "iri_to_node_id X i = n"
  using assms
  by (fastforce simp: dict_entry_def dict_ok_def pending_named_def split: option.splits)

context kv_engine
begin

lemma batch_iris_error:
  assumes "dict_ok E (view E (st_db st))"
  shows "pending_named E p \<Longrightarrow> rfold (batch_iri E st) iris (b, p) = Inl e \<Longrightarrow> iri_clash E iris e"
proof (induction iris arbitrary: b p)
  case (Cons iri iris)
  show ?case
  proof (cases "batch_iri E st iri (b, p)")
    case (Inl e')
    with Cons.prems(2) have "e' = e" by simp
    with Inl obtain old where "needs_dictionary E iri"
      "dict_entry (view E (st_db st)) p (iri_to_node_id E iri) = Some old" "old \<noteq> iri"
      "e = IriCollision (iri_to_node_id E iri) old iri"
      by (auto simp: batch_iri_eq [OF assms] Let_def split: if_splits option.splits)
    moreover from dict_entry_named [OF assms Cons.prems(1) this(2)]
    have "iri_to_node_id E old = iri_to_node_id E iri" .
    ultimately show ?thesis by (auto simp: iri_clash_def)
  next
    case (Inr bp)
    obtain b1 p1 where bp: "bp = (b1, p1)" by (cases bp)
    with Inr Cons.prems(1) have "pending_named E p1"
      by (auto simp: batch_iri_eq [OF assms] Let_def pending_named_def hm_get_insert
          split: if_splits option.splits)
    then have "iri_clash E iris e" by (rule Cons.IH) (use Inr bp Cons.prems(2) in simp)
    then show ?thesis by (auto simp: iri_clash_def)
  qed
qed simp

lemma conflicting_committed:
  "conflicting E (st\<lparr>st_committed := t\<rparr>) from_ts to_ts w = conflicting E st from_ts to_ts w"
  by (simp add: conflicting_def predicate_id_def canonical_name_def)

text \<open>A commit that fails has met a conflict, an IRI that clashes with another, or a replica.\<close>

lemma commit_error:
  assumes "store_ok E st" and "values_ok E st" and "tx_ok st tx"
    and "writes_codec_ok E (pending_writes tx)" and "commit E wall tx st = (Inl e, st')"
  shows "(\<exists>w\<in>set (pending_writes tx). conflicting E st (tx_read_ts tx) (commit_time wall st) w \<and>
      e = WriteConflict (triple_subject (pw_triple w)) (pred_str (triple_predicate (pw_triple w)))) \<or>
    iri_clash E (tx_iris tx) e \<or> e = read_only_err \<and> is_replica st"
proof -
  let ?t = "commit_time wall st" and ?ws = "pending_writes tx"
  let ?st1 = "st\<lparr>st_committed := ?t\<rparr>" and ?sg0 = "\<lparr>sg_batch = [], sg_slots = [], sg_quads = []\<rparr>"
  have inv: "index_ok (view E (st_db st))" "pred_table_ok E st" "dict_ok E (view E (st_db st))"
    using assms(1) by (simp_all add: store_ok_def)
  have inv1: "pred_table_ok E ?st1" "names_ok ?st1 ?ws" "values_ok E ?st1"
    using inv(2) assms(2,3)
    by (auto simp: pred_table_ok_def tx_ok_def names_ok_def canonical_name_def values_ok_def Let_def)
  have g: "cf_handle E ''gspo'' s = Inr ()" "cf_handle E cf_META s = Inr ()" for s
    by (rule cf_handle_ok; simp add: cf_ALL_def)+
  have body: "commit_body E tx ?t ?st1 = (Inl e, st')"
    using assms(5) by (auto simp: commit_def begin_commit_eq split: if_splits)
  show ?thesis
  proof (cases "check_conflicts E ?st1 (tx_read_ts tx) ?t ?ws")
    case (Inl e')
    with body have "e' = e" by (auto simp: commit_body_def Let_def sbind_def slift_def g)
    with check_conflicts_iff(2) [of ?st1, OF _ Inl] inv(1)
    show ?thesis by (simp add: conflicting_committed)
  next
    case (Inr u)
    obtain rs st2 where stg: "smapM (stage_write E ?t) ?ws ?sg0 ?st1 = (rs, st2)"
      by (cases "smapM (stage_write E ?t) ?ws ?sg0 ?st1")
    note op = smapM_stage_frame [OF stg]
    have replica: "is_replica st2 = is_replica st"
      using only_preds_fields(11) [OF op] by (simp add: is_replica_def)
    show ?thesis
    proof (cases rs)
      case (Inl e')
      with body Inr stg have "e' = e"
        by (auto simp: commit_body_def Let_def sbind_def slift_def g stage_writes_smapM)
      have "stored_good E (view E (st_db ?st1))"
        using values_stored_good [OF inv1(3)] inv(1) by simp
      then have "e' = read_only_err \<and> is_replica ?st1"
        by (intro smapM_stage_total [OF stg [unfolded Inl] inv1(1,2) assms(4)])
          (use inv(1) in \<open>simp_all add: stage_vals_def\<close>)
      with \<open>e' = e\<close> show ?thesis by (simp add: is_replica_def)
    next
      case sg: (Inr sg)
      let ?b = "sg_batch sg @ change_op ?t tx sg"
      have d2: "dict_ok E (view E (st_db st2))"
        by (rule only_preds_dict [OF op]) (use inv(3) in simp)
      show ?thesis
      proof (cases "rfold (batch_iri E st2) (tx_iris tx) (?b, [])")
        case (Inl e')
        with body Inr stg sg have "e' = e"
          by (auto simp: commit_body_def Let_def sbind_def slift_def g stage_writes_smapM batch_change_ok)
        with batch_iris_error [OF d2 _ Inl] show ?thesis by (simp add: pending_named_def)
      next
        case iris: (Inr bp)
        obtain b p where bp: "bp = (b, p)" by (cases bp)
        have rest: "sbind (db_write E (b @ [Put cf_META META_ORACLE_CTR (ts_bytes ?t)]))
            (\<lambda>_ s. (Inr ?t, notify_commit ?t s)) st2 = (Inl e, st')"
          using body Inr stg sg iris bp
          by (simp add: commit_body_def Let_def sbind_def slift_def g stage_writes_smapM batch_change_ok)
        have "is_replica st2"
        proof (rule ccontr)
          assume nr: "\<not> is_replica st2"
          obtain d where "raw_write E (b @ [Put cf_META META_ORACLE_CTR (ts_bytes ?t)]) st2
              = (Inr (), st2\<lparr>st_db := d\<rparr>)"
            using raw_writeE [of "b @ [Put cf_META META_ORACLE_CTR (ts_bytes ?t)]" st2] by metis
          with rest nr show False by (simp add: sbind_def db_write_def)
        qed
        with rest replica show ?thesis by (auto simp: sbind_def db_write_def)
      qed
    qed
  qed
qed


text \<open>A conflict is always reported, and nothing is written.\<close>

lemma commit_conflict:
  assumes "store_ok E st" and "w \<in> set (pending_writes tx)" and "\<not> tx_empty tx"
    and "conflicting E st (tx_read_ts tx) (commit_time wall st) w"
  shows "\<exists>s n. commit E wall tx st = (Inl (WriteConflict s n), st\<lparr>st_committed := commit_time wall st\<rparr>)"
proof -
  let ?t = "commit_time wall st" and ?st1 = "st\<lparr>st_committed := commit_time wall st\<rparr>"
  have ix: "index_ok (view E (st_db ?st1))" using assms(1) by (simp add: store_ok_def)
  have "check_conflicts E ?st1 (tx_read_ts tx) ?t (pending_writes tx) \<noteq> Inr ()"
    using check_conflicts_iff(1) [OF ix] assms(2,4) conflicting_committed by blast
  then obtain e where e: "check_conflicts E ?st1 (tx_read_ts tx) ?t (pending_writes tx) = Inl e"
    by (cases "check_conflicts E ?st1 (tx_read_ts tx) ?t (pending_writes tx)") auto
  have "cf_handle E ''gspo'' ?st1 = Inr ()" by (rule cf_handle_ok) (simp add: cf_ALL_def)
  with e have "commit E wall tx st = (Inl e, ?st1)"
    using assms(3)
    by (simp add: commit_def tx_empty_def begin_commit_eq commit_body_def Let_def sbind_def slift_def)
  with check_conflicts_iff(2) [OF ix e] show ?thesis by blast
qed

end

end
