(* ===== verification/Snapshots.thy ===== *)
theory Snapshots
  imports Commit_Outcome
begin

text \<open>
  What a commit leaves alone: the blobs it writes are those of its own values, so a snapshot at an
  earlier time reads the same quads and values before and after the commit; and what it adds: the
  last write to a quad is the version the commit time reads.
\<close>


section \<open>The blobs a batch writes\<close>

definition blob_puts :: "batch_op list \<Rightarrow> (bytes \<times> bytes) set" where
  "blob_puts b = {(k, bl). Put cf_BLOB k bl \<in> set b}"

definition write_blobs :: "('d, 'm) env_scheme \<Rightarrow> pending_write \<Rightarrow> (bytes \<times> bytes) set" where
  "write_blobs E w = {(content_hash (xxh3_128 E) v, bl) | s n v r bl.
    pw_triple w = Property s n v r \<and> encode_blob E v = Inr bl}"

lemma blob_puts_append [simp]: "blob_puts (a @ b) = blob_puts a \<union> blob_puts b"
  by (auto simp: blob_puts_def)

lemma blob_puts_other: "\<forall>op\<in>set b. op_cf op \<noteq> cf_BLOB \<Longrightarrow> blob_puts b = {}"
  by (auto simp: blob_puts_def)

lemma blob_puts_quad [simp]: "blob_puts (batch_quad q v) = {}"
  by (rule blob_puts_other) (auto dest!: batch_quad_cfs simp: order_cfs_def cf_defs)

lemma blob_puts_stage_quad [simp]: "blob_puts (sg_batch (stage_quad q v sg)) = blob_puts (sg_batch sg)"
  by (simp add: stage_quad_def)

lemma close_step_blobs:
  "close_step key ob at x u = Inr u' \<Longrightarrow> blob_puts (sg_batch u') = blob_puts (sg_batch u)"
  by (cases x; cases "fst x = ob"; cases "with_vt_end (snd x) at")
    (auto simp: close_step_def)

lemma stage_closings_blobs:
  assumes "stage_closings E st s p g t ob at slot sg = Inr sg'"
  shows "blob_puts (sg_batch sg') = blob_puts (sg_batch sg)"
proof -
  obtain opens where
    "rfold (close_step (\<lambda>other. \<lparr>qk_s = s, qk_p = p, qk_o = other, qk_g = g, qk_tt = t\<rparr>) ob at)
      (fold drain_step slot opens) sg = Inr sg'"
    using assms by (auto simp: stage_closings_def)
  then show ?thesis
    by (rule rfold_invariant [where I = "\<lambda>u. blob_puts (sg_batch u) = blob_puts (sg_batch sg)"])
      (simp_all add: close_step_blobs)
qed

lemma trigram_blobs:
  "batch_text_trigrams E st s p g text batch = Inr batch' \<Longrightarrow> blob_puts batch' = blob_puts batch"
  unfolding batch_text_trigrams_def blob_puts_def
  by (cases "length (as_bytes text) > TRIGRAM_MAX_TEXT_BYTES"; cases "cf_handle E cf_TRI st")
    (auto simp: cf_defs)

lemma stage_value_blobs:
  "stage_value E st q v b slot sg = Inr sg' \<Longrightarrow> blob_puts (sg_batch sg') = blob_puts (sg_batch sg)"
  by (auto simp: stage_value_def Let_def dest: trigram_blobs split: option.splits)

lemma encode_property_entry_blobs:
  "encode_property_entry E st batch v r = Inr (b, batch') \<Longrightarrow>
    blob_puts batch' \<subseteq> blob_puts batch \<union> {(content_hash (xxh3_128 E) v, bl) | bl. encode_blob E v = Inr bl}"
  by (auto simp: encode_property_entry_def blob_puts_def split: if_splits)

lemma stage_property_blobs:
  assumes "stage_property E w s p v r sg st = Inr sg'"
  shows "blob_puts (sg_batch sg') \<subseteq>
    blob_puts (sg_batch sg) \<union> {(content_hash (xxh3_128 E) v, bl) | bl. encode_blob E v = Inr bl}"
proof -
  obtain b batch1 where enc: "encode_property_entry E st (sg_batch sg) v r = Inr (b, batch1)"
    using assms by (auto simp: stage_property_def Let_def)
  let ?sg1 = "sg\<lparr>sg_batch := batch1\<rparr>"
  have "blob_puts (sg_batch sg') = blob_puts batch1"
  proof (cases "resolve (pw_mode w) (pw_triple w) = Replace")
    case True
    with assms enc obtain sg2 where
      "stage_closings E st s p (pw_graph w) (tt r) (value_object (xxh3_128 E) v) (vt_start r)
        (staged_slot sg (s, p, pw_graph w)) ?sg1 = Inr sg2"
      "stage_value E st \<lparr>qk_s = s, qk_p = p, qk_o = value_object (xxh3_128 E) v, qk_g = pw_graph w,
        qk_tt = tt r\<rparr> v b [] sg2 = Inr sg'"
      by (auto simp: stage_property_def Let_def)
    from stage_closings_blobs [OF this(1)] stage_value_blobs [OF this(2)] show ?thesis by simp
  next
    case False
    with assms enc have
      "stage_value E st \<lparr>qk_s = s, qk_p = p, qk_o = value_object (xxh3_128 E) v, qk_g = pw_graph w,
        qk_tt = tt r\<rparr> v b (staged_slot sg (s, p, pw_graph w)) ?sg1 = Inr sg'"
      by (auto simp: stage_property_def Let_def)
    from stage_value_blobs [OF this] show ?thesis by simp
  qed
  with encode_property_entry_blobs [OF enc] show ?thesis by simp
qed

lemma stage_write_blobs:
  assumes "stage_write E t w sg st = (Inr sg', st')"
  shows "blob_puts (sg_batch sg') \<subseteq> blob_puts (sg_batch sg) \<union> write_blobs E w"
proof -
  let ?r = "(triple_temporal (pw_triple w))\<lparr>tt := t\<rparr>"
  note step = assms [unfolded stage_write_def Let_def sbind_Inr_iff slift_iff]
  show ?thesis
  proof (cases "pw_triple w")
    case (Property s n v r)
    with step have "\<exists>p. Inr sg' = stage_property E w s p v ?r sg st'" by auto
    then obtain p where "stage_property E w s p v ?r sg st' = Inr sg'" by metis
    from stage_property_blobs [OF this] Property show ?thesis by (auto simp: write_blobs_def)
  next
    case EdgeProperty
    with step show ?thesis by (auto simp: batch_epa_def blob_puts_def cf_defs)
  next
    case EdgeRelation
    with step show ?thesis by (auto simp: batch_epo_def blob_puts_def cf_defs)
  qed (use step in auto)
qed

lemma smapM_stage_blobs:
  "smapM (stage_write E t) ws sg st = (Inr sg', st') \<Longrightarrow>
    blob_puts (sg_batch sg') \<subseteq> blob_puts (sg_batch sg) \<union> (\<Union>w\<in>set ws. write_blobs E w)"
proof (induction ws arbitrary: sg st)
  case (Cons w ws)
  then obtain sg1 st1 where "stage_write E t w sg st = (Inr sg1, st1)"
    "smapM (stage_write E t) ws sg1 st1 = (Inr sg', st')"
    by (auto simp: sbind_Inr_iff)
  from Cons.IH [OF this(2)] stage_write_blobs [OF this(1)] show ?case by auto
qed (simp add: sret_def)

text \<open>
  Writing a value again writes its blob again. When two values share a content hash (language tags
  that differ in case do), the later blob replaces the earlier one; \<open>blobs_agree\<close> excludes that.
\<close>

definition blobs_agree :: "('d, 'm) env_scheme \<Rightarrow> 'd store \<Rightarrow> pending_write list \<Rightarrow> bool" where
  "blobs_agree E st ws \<longleftrightarrow>
    (\<forall>w\<in>set ws. \<forall>(k, bl)\<in>write_blobs E w. \<forall>old. view E (st_db st) cf_BLOB k = Some old \<longrightarrow> old = bl)"

lemma apply_batch_blob_kept:
  assumes "\<forall>op\<in>set batch. op_cf op = cf_BLOB \<longrightarrow> (\<exists>k bl. op = Put cf_BLOB k bl)"
    and "\<And>bl'. (k, bl') \<in> blob_puts batch \<Longrightarrow> bl' = bl" and "m cf_BLOB k = Some bl"
  shows "apply_batch batch m cf_BLOB k = Some bl"
  using assms
proof (induction batch arbitrary: m)
  case (Cons op batch)
  have "apply_op op m cf_BLOB k = Some bl"
  proof (cases "op_cf op = cf_BLOB")
    case True
    then obtain k' bl' where op: "op = Put cf_BLOB k' bl'" using Cons.prems(1) by auto
    with Cons.prems(2) [of bl'] have "k' = k \<Longrightarrow> bl' = bl" by (simp add: blob_puts_def)
    with op Cons.prems(3) show ?thesis by auto
  next
    case False
    then show ?thesis using Cons.prems(3) by (cases op) auto
  qed
  moreover have "(k, bl') \<in> blob_puts batch \<Longrightarrow> bl' = bl" for bl'
    using Cons.prems(2) [of bl'] by (simp add: blob_puts_def)
  ultimately show ?case using Cons.IH [of "apply_op op m"] Cons.prems(1) by simp
qed simp


section \<open>What a commit keeps\<close>

context kv_engine
begin

lemma commit_frame:
  assumes "store_ok E st" and "tx_ok st tx" and "commit E wall tx st = (r, st')"
  shows "hm_get (st_fwd st) n = Some j \<Longrightarrow> hm_get (st_fwd st') n = Some j"
    and "canonical_name st' = canonical_name st"
    and "u \<noteq> commit_time wall st \<Longrightarrow>
      version_at (view E (st_db st')) ids u = version_at (view E (st_db st)) ids u"
    and "blobs_agree E st (pending_writes tx) \<Longrightarrow> view E (st_db st) cf_BLOB k = Some bl \<Longrightarrow>
      view E (st_db st') cf_BLOB k = Some bl"
proof -
  let ?t = "commit_time wall st" and ?m = "view E (st_db st)"
  have dict: "dict_ok E ?m" using assms(1) by (simp add: store_ok_def)
  have u: "\<forall>iri\<in>set (tx_iris tx). is_utf8 iri" using assms(2) by (simp add: tx_ok_def)
  have "(hm_get (st_fwd st) n = Some j \<longrightarrow> hm_get (st_fwd st') n = Some j) \<and>
      canonical_name st' = canonical_name st \<and>
      (u \<noteq> ?t \<longrightarrow> version_at (view E (st_db st')) ids u = version_at ?m ids u) \<and>
      (blobs_agree E st (pending_writes tx) \<longrightarrow> ?m cf_BLOB k = Some bl \<longrightarrow>
        view E (st_db st') cf_BLOB k = Some bl)"
    using dict u assms(3)
  proof (cases rule: commit_cases)
    case empty
    then show ?thesis by simp
  next
    case (failed e)
    note op = failed(3)
    have "view E (st_db st') (order_cf Spog) = ?m (order_cf Spog)"
      using only_preds_view(1) [OF op order_cfs_meta(1) [of Spog]] by simp
    moreover have "view E (st_db st') cf_BLOB = ?m cf_BLOB" using only_preds_stored(4) [OF op] by simp
    moreover have "hm_get (st_fwd st) n = Some j \<longrightarrow> hm_get (st_fwd st') n = Some j"
      using op by (simp add: only_preds_def)
    moreover have "canonical_name st' = canonical_name st"
      using only_preds_fields(10) [OF op] by (simp add: canonical_name_def fun_eq_iff)
    ultimately show ?thesis by (simp add: version_at_def)
  next
    case (committed sg st2 puts p d)
    note op = smapM_stage_frame [OF committed(4)]
    note eff = commit_effect [OF committed(4,7,10)]
    have wr: "writes_at ?t (sg_quads sg) ?m (view E d)" using eff(1) by simp
    have "batch_ok E ?t (sg_batch sg) (sg_quads sg)"
      using stage_writes_ok [of E "pending_writes tx" ?t "st\<lparr>st_committed := ?t\<rparr>"] committed(4)
      by (simp add: stage_writes_smapM)
    then have puts: "\<forall>op\<in>set (sg_batch sg). op_cf op = cf_BLOB \<longrightarrow> (\<exists>k bl. op = Put cf_BLOB k bl)"
      by (fastforce simp: batch_ok_def blob_put_def)
    have src: "blob_puts (sg_batch sg) \<subseteq> (\<Union>w\<in>set (pending_writes tx). write_blobs E w)"
      using smapM_stage_blobs [OF committed(4)] by (simp add: blob_puts_def)
    have "view E d cf_BLOB k = Some bl"
      if "blobs_agree E st (pending_writes tx)" "?m cf_BLOB k = Some bl"
    proof -
      have "apply_batch (sg_batch sg) ?m cf_BLOB k = Some bl"
      proof (rule apply_batch_blob_kept [of "sg_batch sg" k bl ?m, OF puts])
        fix bl' assume "(k, bl') \<in> blob_puts (sg_batch sg)"
        with src obtain w where w: "w \<in> set (pending_writes tx)" "(k, bl') \<in> write_blobs E w" by blast
        from bspec [OF bspec [OF that(1) [unfolded blobs_agree_def] w(1)] w(2)] that(2)
        show "bl' = bl" by simp
      qed (rule that(2))
      with eff(5) show ?thesis by simp
    qed
    moreover have "hm_get (st_fwd st) n = Some j \<longrightarrow> hm_get (st_fwd st') n = Some j"
      using op by (simp add: only_preds_def committed(9))
    moreover have "canonical_name st' = canonical_name st"
      using only_preds_fields(4,5) [OF op] by (simp add: canonical_name_def fun_eq_iff committed(9))
    ultimately show ?thesis using writes_at_old [OF wr] by (simp add: committed(9))
  qed
  then show "hm_get (st_fwd st) n = Some j \<Longrightarrow> hm_get (st_fwd st') n = Some j"
    and "canonical_name st' = canonical_name st"
    and "u \<noteq> ?t \<Longrightarrow> version_at (view E (st_db st')) ids u = version_at ?m ids u"
    and "blobs_agree E st (pending_writes tx) \<Longrightarrow> ?m cf_BLOB k = Some bl \<Longrightarrow>
      view E (st_db st') cf_BLOB k = Some bl"
    by blast+
qed


text \<open>Scans of a sound store do not fail.\<close>

lemma scan_scoped_total:
  assumes "store_ok E st" and "values_ok E st"
  shows "\<exists>out. scan_scoped_at E now st s pred ob scope at = Inr out"
proof -
  have "\<exists>out. snapshot_scan_keyed E now st (order_cf (fst (choose_order scope s p ob)))
      (fst (choose_order scope s p ob)) (snd (choose_order scope s p ob)) at scope = Inr out" for p
    using choose_order_prefix [of scope s p ob] scan_total [OF assms] by (metis snd_conv)
  then show ?thesis
    by (auto simp: scan_scoped_at_def Let_def split: option.splits prod.splits) (metis fst_conv snd_conv)+
qed

lemma rebuild_same:
  assumes "values_ok E st" and "version_at (view E (st_db st)) ids t = Some b"
    and "\<And>p n. hm_get (st_rev st) p = Some n \<Longrightarrow> hm_get (st_rev st') p = Some n"
    and "is_ref b \<Longrightarrow> view E (st_db st') cf_BLOB (node_bytes (fst (snd (snd ids))))
      = view E (st_db st) cf_BLOB (node_bytes (fst (snd (snd ids))))"
  shows "rebuild E st' ids t b = rebuild E st ids t b"
proof -
  obtain s p ob g where ids: "ids = (s, p, ob, g)" by (cases ids)
  obtain name where name: "hm_get (st_rev st) p = Some name"
    and form: "value_form E ob b"
    using assms(1,2) unfolding values_ok_def Let_def ids by fastforce
  have pn: "predicate_string st p = Some name" "predicate_string st' p = Some name"
    using name assms(3) by (simp_all add: predicate_string_def)
  from form consider e r where "b = encode_relation e r"
    | v r where "codec_ok E v" "encode_property E v r = Inr b"
    | r where "b = encode_property_ref r"
    unfolding value_form_def by blast
  then show ?thesis
  proof cases
    case 1
    then show ?thesis by (simp add: rebuild_def ids reconstruct_def pn)
  next
    case 2
    then show ?thesis by (simp add: rebuild_def ids reconstruct_def pn decode_encode_property)
  next
    case 3
    then have "is_ref b" by (simp add: is_ref_def encode_property_ref_def)
    with assms(4) ids have "view E (st_db st') cf_BLOB (node_bytes ob) = view E (st_db st) cf_BLOB (node_bytes ob)"
      by simp
    then have "load_blob E ob st' = load_blob E ob st"
      by (simp add: load_blob_def db_get_ok cf_ALL_def)
    with 3 show ?thesis by (simp add: rebuild_def ids reconstruct_def pn)
  qed
qed


lemma rebuild_kept:
  assumes "values_ok E st" and "version_at (view E (st_db st)) ids t = Some b"
    and "\<And>p n. hm_get (st_rev st) p = Some n \<Longrightarrow> hm_get (st_rev st') p = Some n"
    and "\<And>k bl. view E (st_db st) cf_BLOB k = Some bl \<Longrightarrow> view E (st_db st') cf_BLOB k = Some bl"
  shows "rebuild E st' ids t b = rebuild E st ids t b"
proof (rule rebuild_same [OF assms(1-3)])
  assume "is_ref b"
  with assms(1,2) obtain bl where "view E (st_db st) cf_BLOB (node_bytes (fst (snd (snd ids)))) = Some bl"
    unfolding values_ok_def Let_def by fastforce
  with assms(4) show "view E (st_db st') cf_BLOB (node_bytes (fst (snd (snd ids))))
      = view E (st_db st) cf_BLOB (node_bytes (fst (snd (snd ids))))" by simp
qed


lemma predicate_id_kept:
  assumes "pred_table_ok E st" and "pred_table_ok E st'" and "canonical_name st' = canonical_name st"
    and "\<And>n j. hm_get (st_fwd st) n = Some j \<Longrightarrow> hm_get (st_fwd st') n = Some j"
    and "hm_get (st_rev st) p \<noteq> None"
  shows "predicate_id st' name = Some p \<longleftrightarrow> predicate_id st name = Some p"
proof -
  obtain n where "hm_get (st_rev st) p = Some n" using assms(5) by auto
  then have n: "hm_get (st_fwd st) n = Some p" using assms(1) by (auto simp: pred_table_ok_def table_ok_def)
  have "hm_get (st_fwd st') m = Some p \<longleftrightarrow> hm_get (st_fwd st) m = Some p" for m
  proof
    assume "hm_get (st_fwd st') m = Some p"
    from table_inject [OF assms(2) [unfolded pred_table_ok_def] this assms(4) [OF n]] have "m = n" .
    with n show "hm_get (st_fwd st) m = Some p" by simp
  qed (rule assms(4))
  with assms(3) show ?thesis by (simp add: predicate_id_def)
qed

text \<open>A snapshot taken before a commit reads the same after it, whether the commit succeeds or not.\<close>

lemma commit_snapshot_stable:
  assumes "store_ok E st" and "values_ok E st" and "tx_ok st tx"
    and "writes_codec_ok E (pending_writes tx)" and "blobs_agree E st (pending_writes tx)"
    and "st_committed st < END_OF_TIME" and "Timestamp 0 \<le> wall"
    and "commit E wall tx st = (r, st')" and "ra_ts at \<le> st_committed st"
    and "scan_scoped_at E now st s pred ob scope at = Inr out"
  shows "\<exists>out'. scan_scoped_at E now st' s pred ob scope at = Inr out' \<and> set out' = set out"
proof -
  let ?m = "view E (st_db st)" and ?m' = "view E (st_db st')"
  have ok': "store_ok E st'" "values_ok E st'"
    using commit_store_ok [OF assms(1,3,6-8)] commit_values_ok [OF assms(1-4,8)] by blast+
  obtain out' where out': "scan_scoped_at E now st' s pred ob scope at = Inr out'"
    using scan_scoped_total [OF ok'] by blast
  note frame = commit_frame [OF assms(1,3,8)]
  have tabs: "pred_table_ok E st" "pred_table_ok E st'" "index_ok ?m" "index_ok ?m'"
    using assms(1) ok'(1) by (simp_all add: store_ok_def)
  have old: "version_at ?m' ids u = version_at ?m ids u" if "u \<le> ra_ts at" for ids u
    by (rule frame(3)) (use that assms(9) commit_time_greater [OF assms(6), of wall] in auto)
  have "eligible ?m' (ra_ts at) vt ids (vs, u, ve, b) = eligible ?m (ra_ts at) vt ids (vs, u, ve, b)"
    for vt ids vs u ve b
    by (cases "u \<le> ra_ts at") (simp_all add: eligible_def old)
  then have "eligible ?m' (ra_ts at) vt ids w = eligible ?m (ra_ts at) vt ids w" for vt ids w
    by (cases w) simp
  then have live: "live_at ?m' (ra_ts at) vt ids t b = live_at ?m (ra_ts at) vt ids t b" for vt ids t b
    by (simp add: live_at_def governs_def)
  have revs: "hm_get (st_rev st') p = Some n" if "hm_get (st_rev st) p = Some n" for p n
    using that frame(1) tabs(1,2) by (auto simp: pred_table_ok_def table_ok_def)
  have known: "version_at ?m ids t = Some b" if "live_at ?m (ra_ts at) vt ids t b" for vt ids t b
    using that by (auto simp: live_at_def governs_def eligible_def)
  have "(case pred of None \<Rightarrow> p = None | Some name \<Rightarrow> p = predicate_id st' name \<and> p \<noteq> None) \<and>
      slots_match s p ob (qs, qp, qo, g) \<and> in_scope at scope (qs, qp, qo, g) \<and>
      live_at ?m' (ra_ts at) (vt_or_now at now) (qs, qp, qo, g) t b \<and> reconstruct E st' qs qp qo t b = Inr tr
    \<longleftrightarrow> (case pred of None \<Rightarrow> p = None | Some name \<Rightarrow> p = predicate_id st name \<and> p \<noteq> None) \<and>
      slots_match s p ob (qs, qp, qo, g) \<and> in_scope at scope (qs, qp, qo, g) \<and>
      live_at ?m (ra_ts at) (vt_or_now at now) (qs, qp, qo, g) t b \<and> reconstruct E st qs qp qo t b = Inr tr"
    for p qs qp qo g t b tr
  proof (cases "live_at ?m (ra_ts at) (vt_or_now at now) (qs, qp, qo, g) t b \<and> slots_match s p ob (qs, qp, qo, g)")
    case True
    then have v: "version_at ?m (qs, qp, qo, g) t = Some b" using known by blast
    then have "hm_get (st_rev st) qp \<noteq> None"
      using assms(2) unfolding values_ok_def Let_def by fastforce
    from predicate_id_kept [OF tabs(1,2) frame(2) frame(1) this]
    have "predicate_id st' name = Some qp \<longleftrightarrow> predicate_id st name = Some qp" for name .
    moreover have "p = None \<or> p = Some qp"
      using True by (auto simp: slots_match_def slot_is_def split: option.splits)
    ultimately have "(case pred of None \<Rightarrow> p = None | Some name \<Rightarrow> p = predicate_id st' name \<and> p \<noteq> None)
        = (case pred of None \<Rightarrow> p = None | Some name \<Rightarrow> p = predicate_id st name \<and> p \<noteq> None)"
      by (cases pred) (auto dest: sym)
    moreover have "reconstruct E st' qs qp qo t b = reconstruct E st qs qp qo t b"
      using rebuild_kept [OF assms(2) v revs frame(4) [OF assms(5)]] by (simp add: rebuild_def)
    ultimately show ?thesis by (simp add: live)
  next
    case False
    then show ?thesis unfolding live by blast
  qed
  then have "(g, tr) \<in> set out' \<longleftrightarrow> (g, tr) \<in> set out" for g tr
    unfolding scan_scoped_set [OF tabs(4) out'] scan_scoped_set [OF tabs(3) assms(10)] by simp
  with out' show ?thesis by auto
qed

end

end
