(* ===== verification/Own_Writes.thy ===== *)
theory Own_Writes
  imports Snapshots
begin

text \<open>
  What a commit adds: its last property write is read back at the commit time, a \<open>Replace\<close> write
  closes the values it supersedes, the commit time is persisted, and the change log has the entry
  of the commit.
\<close>


section \<open>The last write of a batch\<close>

lemma smapM_snoc:
  "smapM f (xs @ [x]) a st = (Inr c, st') \<longleftrightarrow>
    (\<exists>b st1. smapM f xs a st = (Inr b, st1) \<and> f x b st1 = (Inr c, st'))"
proof (induction xs arbitrary: a st)
  case Nil
  show ?case by (auto simp: sbind_Inr_iff sret_def)
next
  case (Cons y xs)
  then show ?case by (auto simp: sbind_Inr_iff)
qed

lemma staged_value_snoc: "staged_value (quads @ [(q, b)]) q = Some b"
  by (simp add: staged_value_def)

text \<open>A batch grown by operations on other families than the blobs.\<close>

definition no_blob_after :: "batch_op list \<Rightarrow> batch_op list \<Rightarrow> bool" where
  "no_blob_after b b' \<longleftrightarrow> (\<exists>ops. b' = b @ ops \<and> (\<forall>op\<in>set ops. op_cf op \<noteq> cf_BLOB))"

lemma no_blob_after_refl [simp]: "no_blob_after b b"
  by (simp add: no_blob_after_def)

lemma no_blob_after_trans: "no_blob_after a b \<Longrightarrow> no_blob_after b c \<Longrightarrow> no_blob_after a c"
  by (fastforce simp: no_blob_after_def)

lemma no_blob_after_quad: "no_blob_after b (b @ batch_quad q v)"
  using batch_quad_cfs [of _ q v] by (fastforce simp: no_blob_after_def order_cfs_def cf_defs)

text \<open>\<open>stage_value\<close> writes the quad last, and no blob.\<close>

lemma trigrams_no_blob:
  "batch_text_trigrams E st s p g str batch = Inr batch' \<Longrightarrow> no_blob_after batch batch'"
  unfolding batch_text_trigrams_def no_blob_after_def
  by (cases "length (as_bytes str) > TRIGRAM_MAX_TEXT_BYTES"; cases "cf_handle E cf_TRI st")
    (auto simp: cf_defs)

lemma stage_value_last:
  assumes "stage_value E st q v b slot sg = Inr sg'"
  shows "sg_quads sg' = sg_quads sg @ [(q, b)]" and "no_blob_after (sg_batch sg) (sg_batch sg')"
proof -
  have "sg_quads sg' = sg_quads sg @ [(q, b)] \<and> no_blob_after (sg_batch sg) (sg_batch sg')"
  proof (cases "value_as_text v")
    case None
    with assms show ?thesis
      by (auto simp: stage_value_def Let_def stage_quad_def no_blob_after_quad)
  next
    case (Some str)
    with assms obtain batch' where t: "batch_text_trigrams E st (qk_s q) (qk_p q) (qk_g q) str
        (sg_batch sg @ batch_quad q b) = Inr batch'"
      "sg_quads sg' = sg_quads sg @ [(q, b)]" "sg_batch sg' = batch'"
      by (auto simp: stage_value_def Let_def stage_quad_def)
    from no_blob_after_trans [OF no_blob_after_quad trigrams_no_blob [OF t(1)]] t(2,3)
    show ?thesis by simp
  qed
  then show "sg_quads sg' = sg_quads sg @ [(q, b)]"
    and "no_blob_after (sg_batch sg) (sg_batch sg')" by blast+
qed

lemma close_step_no_blob:
  "close_step key ob at x u = Inr u' \<Longrightarrow> no_blob_after (sg_batch u) (sg_batch u')"
  by (cases x; cases "fst x = ob"; cases "with_vt_end (snd x) at")
    (auto simp: close_step_def stage_quad_def no_blob_after_quad)

lemma stage_closings_batch:
  assumes "stage_closings E st s p g t ob at slot sg = Inr sg'"
  shows "no_blob_after (sg_batch sg) (sg_batch sg')"
proof -
  obtain opens where
    "rfold (close_step (\<lambda>other. \<lparr>qk_s = s, qk_p = p, qk_o = other, qk_g = g, qk_tt = t\<rparr>) ob at)
      (fold drain_step slot opens) sg = Inr sg'"
    using assms by (auto simp: stage_closings_def)
  then show ?thesis
    by (rule rfold_invariant [where I = "\<lambda>u. no_blob_after (sg_batch sg) (sg_batch u)"])
      (simp, blast intro: no_blob_after_trans close_step_no_blob)
qed

definition last_entry ::
  "('d, 'm) env_scheme \<Rightarrow> quad_key \<Rightarrow> value \<Rightarrow> bitemporal_range \<Rightarrow> stage \<Rightarrow> bool" where
  "last_entry E q v r sg \<longleftrightarrow>
    (\<exists>quads b. sg_quads sg = quads @ [(q, b)] \<and>
      (encode_property E v r = Inr b \<or>
       b = encode_property_ref r \<and>
       (\<exists>bl pre ops. encode_blob E v = Inr bl \<and>
         sg_batch sg = pre @ Put cf_BLOB (content_hash (xxh3_128 E) v) bl # ops \<and>
         (\<forall>op\<in>set ops. op_cf op \<noteq> cf_BLOB))))"

lemma stage_property_last:
  assumes "stage_property E w s p v r sg st = Inr sg'"
  shows "last_entry E \<lparr>qk_s = s, qk_p = p, qk_o = value_object (xxh3_128 E) v, qk_g = pw_graph w,
    qk_tt = tt r\<rparr> v r sg'"
proof -
  let ?q = "\<lparr>qk_s = s, qk_p = p, qk_o = value_object (xxh3_128 E) v, qk_g = pw_graph w, qk_tt = tt r\<rparr>"
  obtain b batch1 where enc: "encode_property_entry E st (sg_batch sg) v r = Inr (b, batch1)"
    using assms by (auto simp: stage_property_def Let_def)
  let ?sg1 = "sg\<lparr>sg_batch := batch1\<rparr>"
  obtain sg2 slot where c: "stage_value E st ?q v b slot sg2 = Inr sg'"
    "no_blob_after batch1 (sg_batch sg2)"
  proof (cases "resolve (pw_mode w) (pw_triple w) = Replace")
    case True
    with assms enc obtain sg2 where
      "stage_closings E st s p (pw_graph w) (tt r) (value_object (xxh3_128 E) v) (vt_start r)
        (staged_slot sg (s, p, pw_graph w)) ?sg1 = Inr sg2"
      "stage_value E st ?q v b [] sg2 = Inr sg'"
      by (auto simp: stage_property_def Let_def)
    from that [OF this(2)] stage_closings_batch [OF this(1)] show thesis by simp
  next
    case False
    with assms enc have
      "stage_value E st ?q v b (staged_slot sg (s, p, pw_graph w)) ?sg1 = Inr sg'"
      by (auto simp: stage_property_def Let_def)
    from that [OF this] show thesis by simp
  qed
  from no_blob_after_trans [OF c(2) stage_value_last(2) [OF c(1)]] obtain ops where
    ops: "sg_batch sg' = batch1 @ ops" "\<forall>op\<in>set ops. op_cf op \<noteq> cf_BLOB"
    by (auto simp: no_blob_after_def)
  show ?thesis
  proof (cases "encode_property E v r = Inr b")
    case True
    with stage_value_last(1) [OF c(1)] show ?thesis by (auto simp: last_entry_def)
  next
    case False
    with enc obtain bl where "b = encode_property_ref r" "encode_blob E v = Inr bl"
      "batch1 = sg_batch sg @ [Put cf_BLOB (content_hash (xxh3_128 E) v) bl]"
      by (auto simp: encode_property_entry_def split: if_splits)
    with stage_value_last(1) [OF c(1)] ops show ?thesis unfolding last_entry_def
      by (intro exI [of _ "sg_quads sg2"] exI [of _ b]) auto
  qed
qed

context kv_engine
begin

lemma stage_write_last:
  assumes "stage_write E t w sg st = (Inr sg', st')" and "pw_triple w = Property s n v r"
  shows "\<exists>p. predicate_id st' (pred_str n) = Some p \<and>
    last_entry E \<lparr>qk_s = s, qk_p = p, qk_o = value_object (xxh3_128 E) v, qk_g = pw_graph w,
      qk_tt = t\<rparr> v (r\<lparr>tt := t\<rparr>) sg'"
proof -
  obtain p st1 where i: "intern_predicate E (pred_str n) st = (Inr p, st1)"
    "slift (stage_property E w s p v (r\<lparr>tt := t\<rparr>) sg) st1 = (Inr sg', st')"
    using assms by (auto simp: stage_write_def Let_def sbind_Inr_iff)
  then have "st' = st1" "stage_property E w s p v (r\<lparr>tt := t\<rparr>) sg st1 = Inr sg'"
    by (auto simp: slift_def)
  with intern_predicate_lookup(1) [OF i(1)] stage_property_last [of E w s p v "r\<lparr>tt := t\<rparr>" sg st1 sg']
  show ?thesis by (auto simp: predicate_id_eq)
qed


lemma apply_batch_last_put:
  "\<forall>op\<in>set ops. op_cf op \<noteq> cf \<Longrightarrow> apply_batch (pre @ Put cf k v # ops) m cf k = Some v"
  by (simp add: apply_batch_other)

text \<open>
  The last property write of a transaction is the version of its quad at the commit time; it decodes
  to the value written.
\<close>

lemma commit_last_write:
  assumes "store_ok E st" and "tx_ok st tx" and "codec_ok E v"
    and "pending_writes tx = ws @ [w]" and "pw_triple w = Property s n v r"
    and "commit E wall tx st = (Inr t, st')"
  shows "\<exists>p b. predicate_id st' (pred_str n) = Some p \<and>
    version_at (view E (st_db st')) (s, p, value_object (xxh3_128 E) v, pw_graph w) t = Some b \<and>
    valid_time b = Some (vt_start r, vt_end r) \<and>
    reconstruct E st' s p (value_object (xxh3_128 E) v) t b
      = Inr (Property s (Predicate (canonical_name st (pred_str n))) v (r\<lparr>tt := t\<rparr>))"
proof -
  let ?m = "view E (st_db st)"
  have dict: "dict_ok E ?m" and u: "\<forall>iri\<in>set (tx_iris tx). is_utf8 iri"
    using assms(1,2) by (simp_all add: store_ok_def tx_ok_def)
  show ?thesis
    using dict u assms(6)
  proof (cases rule: commit_cases)
    case empty
    then have "pending_writes tx = []" by (simp add: tx_empty_def pending_writes_def)
    with assms(4) show ?thesis by simp
  next
    case (failed e)
    then show ?thesis by simp
  next
    case (committed sg st2 puts p0 d)
    then have t: "t = commit_time wall st" by simp
    note op = smapM_stage_frame [OF committed(4)]
    note eff = commit_effect [OF committed(4,7,10)]
    have tab: "pred_table_ok E st'"
    proof -
      have "pred_table_ok E (st\<lparr>st_committed := commit_time wall st\<rparr>)"
        "names_ok (st\<lparr>st_committed := commit_time wall st\<rparr>) (pending_writes tx)"
        using assms(1,2)
        by (auto simp: store_ok_def pred_table_ok_def tx_ok_def names_ok_def canonical_name_def)
      then have "pred_table_ok E st2" by (rule smapM_stage_preds [OF committed(4)])
      moreover have "view E d cf_META k = view E (st_db st2) cf_META k" if "k \<noteq> META_ORACLE_CTR" for k
        using that by (simp add: eff(2))
      ultimately show ?thesis unfolding pred_table_ok_def committed(9)
        by (simp, elim table_ok_cong) (auto simp: meta_consts)
    qed
    obtain sg1 st1 where w: "stage_write E t w sg1 st1 = (Inr sg, st2)"
      using committed(4) unfolding assms(4) smapM_snoc t by blast
    from stage_write_last [OF this assms(5)] obtain p where p: "predicate_id st2 (pred_str n) = Some p"
      and last: "last_entry E \<lparr>qk_s = s, qk_p = p, qk_o = value_object (xxh3_128 E) v,
        qk_g = pw_graph w, qk_tt = t\<rparr> v (r\<lparr>tt := t\<rparr>) sg" by blast
    let ?ids = "(s, p, value_object (xxh3_128 E) v, pw_graph w)"
    have q: "\<lparr>qk_s = s, qk_p = p, qk_o = value_object (xxh3_128 E) v, qk_g = pw_graph w, qk_tt = t\<rparr>
        = quad_of_ids ?ids t" by (simp add: quad_of_ids_def)
    have p': "predicate_id st' (pred_str n) = Some p"
      using p by (cases "st_canonical st2") (simp_all add: predicate_id_eq committed(9) canonical_name_def)
    then have "hm_get (st_fwd st') (canonical_name st' (pred_str n)) = Some p" by (simp add: predicate_id_eq)
    then have name: "predicate_string st' p = Some (canonical_name st (pred_str n))"
      using tab commit_frame(2) [OF assms(1,2,6)]
      by (simp add: predicate_string_def pred_table_ok_def table_ok_def)
    from last obtain quads b where sq: "sg_quads sg = quads @ [(quad_of_ids ?ids t, b)]"
      and form: "encode_property E v (r\<lparr>tt := t\<rparr>) = Inr b \<or> b = encode_property_ref (r\<lparr>tt := t\<rparr>) \<and>
       (\<exists>bl pre ops. encode_blob E v = Inr bl \<and>
         sg_batch sg = pre @ Put cf_BLOB (content_hash (xxh3_128 E) v) bl # ops \<and>
         (\<forall>op\<in>set ops. op_cf op \<noteq> cf_BLOB))"
      unfolding last_entry_def q by blast
    have ver: "version_at (view E (st_db st')) ?ids t = Some b"
      using writes_at_version [OF eff(1), of ?ids t] by (simp add: sq staged_value_snoc committed(9))
    have "valid_time b = Some (vt_start r, vt_end r) \<and>
      reconstruct E st' s p (value_object (xxh3_128 E) v) t b
        = Inr (Property s (Predicate (canonical_name st (pred_str n))) v (r\<lparr>tt := t\<rparr>))"
      using form
    proof (elim disjE conjE exE)
      assume "encode_property E v (r\<lparr>tt := t\<rparr>) = Inr b"
      with decode_encode_property [OF assms(3) this] valid_time_encode_property [OF this]
      show ?thesis by (simp add: reconstruct_def name)
    next
      fix bl pre ops
      assume b: "b = encode_property_ref (r\<lparr>tt := t\<rparr>)" and bl: "encode_blob E v = Inr bl"
        and batch: "sg_batch sg = pre @ Put cf_BLOB (content_hash (xxh3_128 E) v) bl # ops"
        and ops: "\<forall>op\<in>set ops. op_cf op \<noteq> cf_BLOB"
      have "view E (st_db st') cf_BLOB (content_hash (xxh3_128 E) v) = Some bl"
        using eff(5) apply_batch_last_put [OF ops] by (simp add: committed(9) batch)
      then have "load_blob E (value_object (xxh3_128 E) v) st' = Inr v"
        using decode_encode_blob [OF assms(3) bl] by (simp add: load_blob_def db_get_ok cf_ALL_def)
      then show ?thesis by (simp add: reconstruct_def name b)
    qed
    with p' ver show ?thesis by blast
  qed
qed


section \<open>What a commit persists\<close>

text \<open>
  The commit time is in META, so that reopening does not give it out again; the transaction's IRIs
  are in the dictionary, and earlier entries stay.
\<close>

lemma commit_persists:
  assumes "store_ok E st" and "tx_ok st tx" and "\<not> tx_empty tx"
    and "commit E wall tx st = (Inr t, st')"
  shows "st_committed st' = t \<and> load_oracle_ts E (st_db st') = Inr t \<and>
    (\<forall>iri\<in>set (tx_iris tx). needs_dictionary E iri \<longrightarrow>
      iri_of E (iri_to_node_id E iri) st' = Inr (Some iri)) \<and>
    (\<forall>n iri. iri_of E n st = Inr (Some iri) \<longrightarrow> iri_of E n st' = Inr (Some iri))"
proof -
  let ?m = "view E (st_db st)"
  have dict: "dict_ok E ?m" and u: "\<forall>iri\<in>set (tx_iris tx). is_utf8 iri"
    using assms(1,2) by (simp_all add: store_ok_def tx_ok_def)
  show ?thesis
    using dict u assms(4)
  proof (cases rule: commit_cases)
    case (committed sg st2 puts p d)
    then have t: "t = commit_time wall st" by simp
    note op = smapM_stage_frame [OF committed(4)]
    note eff = commit_effect [OF committed(4,7,10)]
    let ?m2 = "view E (st_db st2)"
    have m2: "?m2 cf_IRI = ?m cf_IRI" using only_preds_view(1) [OF op, of cf_IRI] by (simp add: cf_defs)
    have d2: "dict_ok E ?m2" by (rule only_preds_dict [OF op]) (use dict in simp)
    have "dict_ok E (apply_batch puts ?m2)" by (rule dict_puts_ok [OF committed(7) d2])
    then have d': "dict_ok E (view E (st_db st'))" by (simp add: dict_ok_def eff(3) committed(9))
    have entry: "view E (st_db st') cf_IRI (node_bytes n) = map_option as_bytes (dict_entry ?m2 p n)" for n
    proof -
      obtain puts' where p': "puts' = puts" "\<And>n. apply_batch puts ?m2 cf_IRI (node_bytes n) =
          (case hm_get p n of Some i \<Rightarrow> Some (as_bytes i) | None \<Rightarrow> ?m2 cf_IRI (node_bytes n))"
        using committed(6) by (auto simp: dict_batch_def)
      have "map_option as_bytes (map_option bytes_str (?m2 cf_IRI (node_bytes n))) = ?m2 cf_IRI (node_bytes n)"
        using d2 by (cases "?m2 cf_IRI (node_bytes n)") (auto simp: dict_ok_def)
      with p'(2) show ?thesis
        by (simp add: dict_entry_def eff(3) committed(9) split: option.splits)
    qed
    have iri': "iri_of E n st' = Inr (dict_entry ?m2 p n)" for n
      unfolding iri_of_ok [OF d'] entry by (cases "dict_entry ?m2 p n") simp_all
    have keep: "dict_entry ?m2 p n = Some iri" if "iri_of E n st = Inr (Some iri)" for n iri
      using that committed(11) unfolding iri_of_ok [OF dict] by (simp add: dict_entry_def m2)
    show ?thesis
      using committed(8) keep t only_preds_fields(1) [OF op]
      by (simp add: iri' [unfolded committed(9)] load_oracle_ts_def db_get_ok cf_ALL_def eff(2) committed(9))
  qed (use assms(3) in auto)
qed

end

end
