(* ===== verification/Mvcc_Steps.thy ===== *)
theory Mvcc_Steps
  imports Own_Writes
begin

text \<open>
  Transactions side by side (\<open>TimestampOracle\<close> and \<open>Transaction\<close> of
  \<open>polargraph-storage/src/mvcc.rs\<close>). A commit is two steps: \<open>begin_commit\<close> takes the commit lock and
  publishes the commit time, the rest of \<open>commit\<close> checks, writes and releases the lock. \<open>begin\<close> reads
  the published time without the lock, so it can fall between the two. With \<open>strict\<close> set, \<open>begin\<close>
  waits for the lock: the relation under which snapshot isolation holds.
\<close>


section \<open>The step relation\<close>

text \<open>An active client carries the contents of the store when it began, as a ghost.\<close>

datatype client = Idle | Active transaction contents | Finished "timestamp res"

record 'd sys =
  sy_store :: "'d store"
  sy_lock :: "(nat \<times> timestamp) option"
  sy_clients :: "nat \<Rightarrow> client"

definition set_client :: "nat \<Rightarrow> client \<Rightarrow> 'd sys \<Rightarrow> 'd sys" where
  "set_client i c S = S\<lparr>sy_clients := (sy_clients S)(i := c)\<rparr>"

inductive step :: "('d, 'm) env_scheme \<Rightarrow> bool \<Rightarrow> 'd sys \<Rightarrow> 'd sys \<Rightarrow> bool"
  for E :: "('d, 'm) env_scheme" and strict :: bool where
  start: "sy_clients S i = Idle \<Longrightarrow> strict \<longrightarrow> sy_lock S = None \<Longrightarrow>
    step E strict S (set_client i (Active (begin_tx (sy_store S)) (view E (st_db (sy_store S)))) S)"
| buffer: "sy_clients S i = Active tx seen \<Longrightarrow> \<forall>t. sy_lock S \<noteq> Some (i, t) \<Longrightarrow>
    step E strict S (set_client i (Active (tx_insert_in tr g m tx) seen) S)"
| name_iri: "sy_clients S i = Active tx seen \<Longrightarrow> \<forall>t. sy_lock S \<noteq> Some (i, t) \<Longrightarrow>
    step E strict S (set_client i (Active (bind_iri iri tx) seen) S)"
| publish: "sy_clients S i = Active tx seen \<Longrightarrow> \<not> tx_empty tx \<Longrightarrow> sy_lock S = None \<Longrightarrow>
    tx_ok (sy_store S) tx \<Longrightarrow> st_committed (sy_store S) < END_OF_TIME \<Longrightarrow> Timestamp 0 \<le> wall \<Longrightarrow>
    begin_commit wall (sy_store S) = (t, st') \<Longrightarrow>
    step E strict S (S\<lparr>sy_store := st', sy_lock := Some (i, t)\<rparr>)"
| land: "sy_clients S i = Active tx seen \<Longrightarrow> sy_lock S = Some (i, t) \<Longrightarrow>
    commit_body E tx t (sy_store S) = (r, st') \<Longrightarrow>
    step E strict S (set_client i (Finished r) (S\<lparr>sy_store := st', sy_lock := None\<rparr>))"

inductive reach :: "('d, 'm) env_scheme \<Rightarrow> bool \<Rightarrow> 'd sys \<Rightarrow> 'd sys \<Rightarrow> bool"
  for E :: "('d, 'm) env_scheme" and strict :: bool and S0 :: "'d sys" where
  reach_init: "reach E strict S0 S0"
| reach_step: "reach E strict S0 S \<Longrightarrow> step E strict S S' \<Longrightarrow> reach E strict S0 S'"

inductive_cases stepE: "step E strict S S'"

definition fresh_sys :: "'d store \<Rightarrow> 'd sys" where
  "fresh_sys st = \<lparr>sy_store = st, sy_lock = None, sy_clients = (\<lambda>_. Idle)\<rparr>"

lemma set_client_fields [simp]:
  "sy_store (set_client i c S) = sy_store S" "sy_lock (set_client i c S) = sy_lock S"
  "sy_clients (set_client i c S) j = (if j = i then c else sy_clients S j)"
  by (simp_all add: set_client_def)

lemma tx_edit_read_ts [simp]:
  "tx_read_ts (tx_insert_in tr g m tx) = tx_read_ts tx" "tx_read_ts (bind_iri iri tx) = tx_read_ts tx"
  "tx_read_ts (begin_tx st) = st_committed st"
  by (simp_all add: tx_insert_in_def bind_iri_def begin_tx_def tx_new_def read_ts_def)

text \<open>Without anything in between, the two steps are \<open>commit\<close>.\<close>

lemma commit_two_steps:
  "\<not> tx_empty tx \<Longrightarrow>
    commit E wall tx st = commit_body E tx (commit_time wall st) (st\<lparr>st_committed := commit_time wall st\<rparr>)"
  by (auto simp: commit_def tx_empty_def begin_commit_eq)


section \<open>The invariant\<close>

text \<open>
  While the lock is held, the store is a sound one whose oracle has been advanced to the commit time
  of the holder.
\<close>

definition pending_ok :: "('d, 'm) env_scheme \<Rightarrow> 'd sys \<Rightarrow> nat \<Rightarrow> timestamp \<Rightarrow> bool" where
  "pending_ok E S i t \<longleftrightarrow>
    (\<exists>st0 wall tx seen. sy_clients S i = Active tx seen \<and> \<not> tx_empty tx \<and> store_ok E st0 \<and>
      tx_ok st0 tx \<and> st_committed st0 < END_OF_TIME \<and> Timestamp 0 \<le> wall \<and>
      t = commit_time wall st0 \<and> sy_store S = st0\<lparr>st_committed := t\<rparr>)"

definition sys_ok :: "('d, 'm) env_scheme \<Rightarrow> 'd sys \<Rightarrow> bool" where
  "sys_ok E S \<longleftrightarrow>
    (case sy_lock S of None \<Rightarrow> store_ok E (sy_store S) | Some (i, t) \<Rightarrow> pending_ok E S i t)"

text \<open>What an active client saw is what the store still holds up to its read time.\<close>

definition undisturbed :: "('d, 'm) env_scheme \<Rightarrow> 'd sys \<Rightarrow> timestamp \<Rightarrow> contents \<Rightarrow> bool" where
  "undisturbed E S ts seen \<longleftrightarrow>
    (\<forall>ids u. u \<le> ts \<longrightarrow>
      version_at (view E (st_db (sy_store S))) ids u = version_at seen ids u) \<and>
    (case sy_lock S of None \<Rightarrow> ts \<le> st_committed (sy_store S) | Some (i, t) \<Rightarrow> ts < t)"

definition isolated :: "('d, 'm) env_scheme \<Rightarrow> 'd sys \<Rightarrow> bool" where
  "isolated E S \<longleftrightarrow>
    (\<forall>j tx seen. sy_clients S j = Active tx seen \<longrightarrow> undisturbed E S (tx_read_ts tx) seen)"

lemma undisturbed_client [simp]: "undisturbed E (set_client i c S) = undisturbed E S"
  by (cases "sy_lock S") (auto simp: undisturbed_def fun_eq_iff)

lemma version_at_committed [simp]:
  "version_at (view E (st_db (st\<lparr>st_committed := t\<rparr>))) = version_at (view E (st_db st))"
  by simp

context kv_engine
begin

lemma write_commit:
  assumes "pending_ok E S i t" and "sy_clients S i = Active tx seen"
    and "commit_body E tx t (sy_store S) = (r, st')"
  obtains st0 wall where "store_ok E st0" and "tx_ok st0 tx" and "st_committed st0 < END_OF_TIME"
    and "Timestamp 0 \<le> wall" and "t = commit_time wall st0" and "commit E wall tx st0 = (r, st')"
    and "sy_store S = st0\<lparr>st_committed := t\<rparr>" and "\<not> tx_empty tx"
proof -
  from assms(1,2) obtain st0 wall where *: "store_ok E st0" "tx_ok st0 tx" "st_committed st0 < END_OF_TIME"
    "Timestamp 0 \<le> wall" "t = commit_time wall st0" "sy_store S = st0\<lparr>st_committed := t\<rparr>" "\<not> tx_empty tx"
    by (auto simp: pending_ok_def)
  moreover from * assms(3) have "commit E wall tx st0 = (r, st')" by (simp add: commit_two_steps)
  ultimately show thesis using that by blast
qed

lemma step_ok:
  assumes "step E strict S S'" and "sys_ok E S"
  shows "sys_ok E S'"
  using assms(1)
proof cases
  case (start i)
  with assms(2) show ?thesis
    by (auto simp: sys_ok_def pending_ok_def split: option.splits) metis
next
  case (buffer i tx seen tr g m)
  with assms(2) show ?thesis
    by (auto simp: sys_ok_def pending_ok_def split: option.splits) metis+
next
  case (name_iri i tx seen iri)
  with assms(2) show ?thesis
    by (auto simp: sys_ok_def pending_ok_def split: option.splits) metis+
next
  case (publish i tx seen wall t st')
  then have "store_ok E (sy_store S)" using assms(2) by (simp add: sys_ok_def)
  with publish show ?thesis
    by (auto simp: sys_ok_def pending_ok_def begin_commit_eq)
next
  case (land i tx seen t r st')
  then have "pending_ok E S i t" using assms(2) by (simp add: sys_ok_def)
  from write_commit [OF this land(2,4)] obtain st0 wall where
    "store_ok E st0" "tx_ok st0 tx" "st_committed st0 < END_OF_TIME"
    "Timestamp 0 \<le> wall" "commit E wall tx st0 = (r, st')" by metis
  from commit_store_ok [OF this] land show ?thesis by (simp add: sys_ok_def)
qed

lemma reach_ok: "reach E strict S0 S \<Longrightarrow> sys_ok E S0 \<Longrightarrow> sys_ok E S"
  by (induction rule: reach.induct) (auto intro: step_ok)


lemma commit_oracle:
  assumes "store_ok E st" and "tx_ok st tx" and "\<not> tx_empty tx" and "commit E wall tx st = (r, st')"
  shows "st_committed st' = commit_time wall st"
proof -
  have "dict_ok E (view E (st_db st))" "\<forall>iri\<in>set (tx_iris tx). is_utf8 iri"
    using assms(1,2) by (simp_all add: store_ok_def tx_ok_def)
  then show ?thesis
    using assms(4)
  proof (cases rule: commit_cases)
    case empty
    with assms(3) show ?thesis by simp
  next
    case (failed e)
    then show ?thesis using only_preds_fields(1) [OF failed(3)] by simp
  next
    case (committed sg st2 puts p d)
    then show ?thesis using only_preds_fields(1) [OF smapM_stage_frame [OF committed(4)]] by simp
  qed
qed


section \<open>Snapshot isolation when \<open>begin\<close> waits for the lock\<close>

lemma step_isolated:
  assumes "step E True S S'" and "sys_ok E S" and "isolated E S"
  shows "isolated E S'"
  using assms(1)
proof cases
  case (start i)
  with assms(3) show ?thesis by (auto simp: isolated_def undisturbed_def split: if_splits)
next
  case (buffer i tx seen tr g m)
  with assms(3) show ?thesis by (auto simp: isolated_def split: if_splits)
next
  case (name_iri i tx seen iri)
  with assms(3) show ?thesis by (auto simp: isolated_def split: if_splits)
next
  case (publish i tx seen wall t st')
  then have "st_committed (sy_store S) < t" "view E (st_db st') = view E (st_db (sy_store S))"
    using commit_time_greater [of "sy_store S" wall] by (auto simp: begin_commit_eq)
  then have "undisturbed E S ts seen' \<Longrightarrow> undisturbed E S' ts seen'" for ts seen'
    using publish by (auto simp: undisturbed_def)
  with publish assms(3) show ?thesis by (simp add: isolated_def)
next
  case (land i tx seen t r st')
  then have "pending_ok E S i t" using assms(2) by (simp add: sys_ok_def)
  from write_commit [OF this land(2,4)] obtain st0 wall where st0:
    "store_ok E st0" "tx_ok st0 tx" "t = commit_time wall st0" "commit E wall tx st0 = (r, st')"
    "sy_store S = st0\<lparr>st_committed := t\<rparr>" "\<not> tx_empty tx" by metis
  have old: "version_at (view E (st_db st')) ids u = version_at (view E (st_db (sy_store S))) ids u"
    if "u < t" for ids u
    using commit_frame(3) [OF st0(1,2,4), of u ids] that st0(3) by (simp add: st0(5))
  have t: "st_committed st' = t" using commit_oracle [OF st0(1,2,6,4)] st0(3) by simp
  have "undisturbed E S' ts seen'" if "undisturbed E S ts seen'" for ts seen'
  proof -
    from that land(3) have "ts < t"
      and same: "\<And>ids u. u \<le> ts \<Longrightarrow>
        version_at (view E (st_db (sy_store S))) ids u = version_at seen' ids u"
      by (simp_all add: undisturbed_def)
    have "version_at (view E (st_db st')) ids u = version_at seen' ids u" if "u \<le> ts" for ids u
      using old [of u ids] same [OF that, of ids] that \<open>ts < t\<close> by simp
    with \<open>ts < t\<close> t land(1) show ?thesis by (simp add: undisturbed_def)
  qed
  with assms(3) land(1) show ?thesis by (auto simp: isolated_def split: if_splits)
qed

lemma reach_isolated:
  "reach E True S0 S \<Longrightarrow> sys_ok E S0 \<Longrightarrow> isolated E S0 \<Longrightarrow> isolated E S"
  by (induction rule: reach.induct) (auto intro: step_isolated reach_ok)

text \<open>
  A commit that succeeds finds every quad it claims as its client saw it when it began: nothing was
  written to those quads in between.
\<close>

lemma land_claims:
  assumes "sys_ok E S" and "sy_clients S i = Active tx seen" and "sy_lock S = Some (i, t)"
    and "commit_body E tx t (sy_store S) = (Inr t', st')" and "w \<in> set (pending_writes tx)"
    and "predicate_id (sy_store S) (pred_str (triple_predicate (pw_triple w))) = Some p"
    and "claims E w p ids" and "version_at (view E (st_db (sy_store S))) ids u = Some b"
  shows "u \<le> tx_read_ts tx"
proof -
  have "pending_ok E S i t" using assms(1,3) by (simp add: sys_ok_def)
  from write_commit [OF this assms(2,4)] obtain st0 wall where st0:
    "store_ok E st0" "tx_ok st0 tx" "st_committed st0 < END_OF_TIME" "t = commit_time wall st0"
    "commit E wall tx st0 = (Inr t', st')"
    "sy_store S = st0\<lparr>st_committed := t\<rparr>" "\<not> tx_empty tx" by metis
  have ix: "index_ok (view E (st_db st0))" and dict: "dict_ok E (view E (st_db st0))"
    and times: "times_ok E st0" using st0(1) by (simp_all add: store_ok_def)
  have iris: "\<forall>iri\<in>set (tx_iris tx). is_utf8 iri" using st0(2) by (simp add: tx_ok_def)
  have "check_conflicts E (st0\<lparr>st_committed := t\<rparr>) (tx_read_ts tx) t (pending_writes tx) = Inr ()"
    using dict iris st0(5) by (cases rule: commit_cases) (use st0(4,7) in auto)
  then have "\<not> conflicting E (st0\<lparr>st_committed := t\<rparr>) (tx_read_ts tx) t w"
    using check_conflicts_iff(1) [of "st0\<lparr>st_committed := t\<rparr>"] ix assms(5) by simp
  moreover have "u \<le> t"
  proof -
    have "u \<le> st_committed st0" using times assms(8) unfolding times_ok_def st0(6) by auto
    then show ?thesis using commit_time_greater [OF st0(3), of wall] st0(4) by simp
  qed
  ultimately show ?thesis
    using assms(6-8) unfolding conflicting_def st0(6) by (metis not_le)
qed


end


section \<open>The window between publishing and writing\<close>

context kv_engine
begin

text \<open>A transaction that began at the latest commit time meets no conflict.\<close>

lemma latest_commit_ok:
  assumes "store_ok E st" and "values_ok E st" and "tx_ok st tx"
    and "writes_codec_ok E (pending_writes tx)" and "\<not> tx_empty tx" and "tx_iris tx = []"
    and "\<not> is_replica st" and "st_committed st \<le> tx_read_ts tx"
  shows "\<exists>st'. commit E wall tx st = (Inr (commit_time wall st), st')"
proof -
  obtain r st' where c: "commit E wall tx st = (r, st')" by (cases "commit E wall tx st")
  have "times_ok E st" using assms(1) by (simp add: store_ok_def)
  then have "\<not> conflicting E st (tx_read_ts tx) t w" for t w
    using assms(8) unfolding conflicting_def times_ok_def by (metis leD order_trans)
  then have "r \<noteq> Inl e" for e
    using commit_error [OF assms(1-4), of wall e st'] c assms(6,7) by (auto simp: iri_clash_def)
  then obtain t where "r = Inr t" by (cases r) auto
  moreover have "dict_ok E (view E (st_db st))" "\<forall>iri\<in>set (tx_iris tx). is_utf8 iri"
    using assms(1,6) by (simp_all add: store_ok_def)
  then have "r = Inr t \<Longrightarrow> t = commit_time wall st"
    using c by (cases rule: commit_cases) (use assms(5) in auto)
  ultimately show ?thesis using c by blast
qed

lemma commit_kept_fields:
  assumes "store_ok E st" and "tx_ok st tx" and "commit E wall tx st = (r, st')"
  shows "is_replica st' = is_replica st"
    and "room_left (st_next_pred st) \<le> length (pending_writes tx) + room_left (st_next_pred st')"
proof -
  let ?st1 = "st\<lparr>st_committed := commit_time wall st\<rparr>"
  have dict: "dict_ok E (view E (st_db st))" "\<forall>iri\<in>set (tx_iris tx). is_utf8 iri"
    using assms(1,2) by (simp_all add: store_ok_def tx_ok_def)
  have names: "pred_table_ok E ?st1" "names_ok ?st1 (pending_writes tx)"
    using assms(1,2)
    by (auto simp: store_ok_def pred_table_ok_def tx_ok_def names_ok_def canonical_name_def)
  have "is_replica st' = is_replica st \<and>
      room_left (st_next_pred st) \<le> length (pending_writes tx) + room_left (st_next_pred st')"
    using dict assms(3)
  proof (cases rule: commit_cases)
    case empty
    then show ?thesis by simp
  next
    case (failed e)
    have "room_left (st_next_pred st) \<le> length (pending_writes tx) + room_left (st_next_pred st')"
      using failed(4) smapM_stage_room [OF _ names] by fastforce
    then show ?thesis using only_preds_fields(11) [OF failed(3)] by (simp add: is_replica_def)
  next
    case (committed sg st2 puts p d)
    then show ?thesis
      using smapM_stage_room [OF committed(4) names]
        only_preds_fields(11) [OF smapM_stage_frame [OF committed(4)]]
      by (simp add: is_replica_def)
  qed
  then show "is_replica st' = is_replica st"
    and "room_left (st_next_pred st) \<le> length (pending_writes tx) + room_left (st_next_pred st')"
    by blast+
qed

text \<open>
  The code's \<open>begin\<close> does not wait: a client that begins between the two steps of another commit reads
  at a time whose writes are not there yet, and its own commit then replaces them unnoticed.
\<close>

lemma lost_update_run:
  assumes good: "store_ok E st" "values_ok E st" "\<not> is_replica st"
    and name: "is_utf8 (canonical_name st (pred_str n))" and room: "2 \<le> room_left (st_next_pred st)"
    and codec: "codec_ok E v" and tr: "tr = Property s n v r"
    and clock: "Timestamp 0 \<le> wall" "Timestamp 0 \<le> wall'" "st_committed st < END_OF_TIME"
      "commit_time wall st < END_OF_TIME"
  shows "\<exists>S S' tx seen t p b. reach E False (fresh_sys st) S \<and> step E False S S' \<and>
    sy_clients S 1 = Active tx seen \<and> sy_clients S' 1 = Finished (Inr t) \<and>
    pending_writes tx = [\<lparr>pw_triple = tr, pw_graph = g, pw_mode = m\<rparr>] \<and>
    predicate_id (sy_store S) (pred_str n) = Some p \<and>
    version_at (view E (st_db (sy_store S))) (s, p, value_object (xxh3_128 E) v, g) (tx_read_ts tx) = Some b \<and>
    version_at seen (s, p, value_object (xxh3_128 E) v, g) (tx_read_ts tx) = None"
proof -
  let ?w = "\<lparr>pw_triple = tr, pw_graph = g, pw_mode = m\<rparr>" and ?m0 = "view E (st_db st)"
  let ?t1 = "commit_time wall st"
  define tx1 where "tx1 = tx_insert_in tr g m (tx_new (st_committed st))"
  define tx2 where "tx2 = tx_insert_in tr g m (tx_new ?t1)"
  have pend: "pending_writes tx1 = [?w]" "pending_writes tx2 = [?w]"
    "\<not> tx_empty tx1" "\<not> tx_empty tx2" "tx_iris tx1 = []" "tx_iris tx2 = []"
    "tx_read_ts tx1 = st_committed st" "tx_read_ts tx2 = ?t1"
    by (simp_all add: tx1_def tx2_def tx_insert_in_def tx_new_def pending_writes_def tx_empty_def)
  have codec': "writes_codec_ok E [?w]" using codec tr by (simp add: writes_codec_ok_def)
  have tx1_ok: "tx_ok st tx1"
    using name room by (simp add: tx_ok_def names_ok_def pend tr)
  obtain st1 where c1: "commit E wall tx1 st = (Inr ?t1, st1)"
    using latest_commit_ok [OF good(1,2) tx1_ok _ pend(3,5) good(3), of wall] codec' pend by auto
  have ok1: "store_ok E st1" "values_ok E st1"
    using commit_store_ok [OF good(1) tx1_ok clock(3,1) c1]
      commit_values_ok [OF good(1,2) tx1_ok _ c1] codec' pend by auto
  have st1: "st_committed st1 = ?t1" "canonical_name st1 = canonical_name st" "\<not> is_replica st1"
    "1 \<le> room_left (st_next_pred st1)"
    using commit_oracle [OF good(1) tx1_ok pend(3) c1] commit_frame(2) [OF good(1) tx1_ok c1]
      commit_kept_fields [OF good(1) tx1_ok c1] good(3) room pend by auto
  have tx2_ok: "tx_ok st1 tx2"
    using name st1 by (simp add: tx_ok_def names_ok_def pend tr)
  obtain st2 where c2: "commit E wall' tx2 st1 = (Inr (commit_time wall' st1), st2)"
    using latest_commit_ok [OF ok1 tx2_ok _ pend(4,6) st1(3), of wall'] codec' pend st1(1) by auto
  obtain p b where p: "predicate_id st1 (pred_str n) = Some p"
    "version_at (view E (st_db st1)) (s, p, value_object (xxh3_128 E) v, g) ?t1 = Some b"
    using commit_last_write [OF good(1) tx1_ok codec, of "[]" ?w s n r wall ?t1 st1] pend(1) tr c1 by auto
  let ?S0 = "fresh_sys st"
  let ?S1 = "set_client 0 (Active (tx_new (st_committed st)) ?m0) ?S0"
  let ?S2 = "set_client 0 (Active tx1 ?m0) ?S1"
  let ?S3 = "?S2\<lparr>sy_store := st\<lparr>st_committed := ?t1\<rparr>, sy_lock := Some (0, ?t1)\<rparr>"
  let ?S4 = "set_client 1 (Active (tx_new ?t1) ?m0) ?S3"
  let ?S5 = "set_client 0 (Finished (Inr ?t1)) (?S4\<lparr>sy_store := st1, sy_lock := None\<rparr>)"
  let ?S6 = "set_client 1 (Active tx2 ?m0) ?S5"
  let ?t2 = "commit_time wall' st1"
  let ?S7 = "?S6\<lparr>sy_store := st1\<lparr>st_committed := ?t2\<rparr>, sy_lock := Some (1, ?t2)\<rparr>"
  let ?S8 = "set_client 1 (Finished (Inr ?t2)) (?S7\<lparr>sy_store := st2, sy_lock := None\<rparr>)"
  have begins: "begin_tx st = tx_new (st_committed st)" "begin_tx (st\<lparr>st_committed := ?t1\<rparr>) = tx_new ?t1"
    by (simp_all add: begin_tx_def read_ts_def)
  have "reach E False ?S0 ?S1"
    using reach_step [OF reach_init step.start [of ?S0 0 False E]] by (simp add: fresh_sys_def begins)
  moreover have "step E False ?S1 ?S2"
    unfolding tx1_def by (rule step.buffer) (simp_all add: fresh_sys_def)
  moreover have "step E False ?S2 ?S3"
    by (rule step.publish [of _ _ tx1 ?m0 wall])
      (use pend(3) tx1_ok clock in \<open>simp_all add: fresh_sys_def begin_commit_eq\<close>)
  moreover have "step E False ?S3 ?S4"
    using step.start [of ?S3 1 False E] by (simp add: fresh_sys_def begins)
  moreover have "step E False ?S4 ?S5"
    by (rule step.land [of _ _ tx1 ?m0])
      (use c1 pend(3) in \<open>simp_all add: commit_two_steps\<close>)
  moreover have "step E False ?S5 ?S6"
    unfolding tx2_def by (rule step.buffer) simp_all
  moreover have "step E False ?S6 ?S7"
    by (rule step.publish [of _ _ tx2 ?m0 wall'])
      (use pend(4) tx2_ok clock st1(1) in \<open>simp_all add: begin_commit_eq\<close>)
  ultimately have run: "reach E False ?S0 ?S7" by (meson reach_step)
  have land: "step E False ?S7 ?S8"
    by (rule step.land [of _ _ tx2 ?m0])
      (use c2 pend(4) in \<open>simp_all add: commit_two_steps\<close>)
  have "version_at ?m0 (s, p, value_object (xxh3_128 E) v, g) ?t1 = None"
  proof (rule ccontr)
    assume "version_at ?m0 (s, p, value_object (xxh3_128 E) v, g) ?t1 \<noteq> None"
    moreover have "times_ok E st" using good(1) by (simp add: store_ok_def)
    ultimately have "?t1 \<le> st_committed st" unfolding times_ok_def by blast
    with commit_time_greater [OF clock(3), of wall] show False by simp
  qed
  moreover have "predicate_id (st1\<lparr>st_committed := ?t2\<rparr>) (pred_str n) = Some p"
    using p(1) by (cases "st_canonical st1") (simp_all add: predicate_id_eq canonical_name_def)
  ultimately have final: "reach E False ?S0 ?S7 \<and> step E False ?S7 ?S8 \<and>
    sy_clients ?S7 1 = Active tx2 ?m0 \<and> sy_clients ?S8 1 = Finished (Inr ?t2) \<and>
    pending_writes tx2 = [?w] \<and> predicate_id (sy_store ?S7) (pred_str n) = Some p \<and>
    version_at (view E (st_db (sy_store ?S7))) (s, p, value_object (xxh3_128 E) v, g) (tx_read_ts tx2) = Some b \<and>
    version_at ?m0 (s, p, value_object (xxh3_128 E) v, g) (tx_read_ts tx2) = None"
    using run land p(2) pend by simp
  show ?thesis by ((rule exI)+, rule final)
qed

end

end
