(* ===== verification/Replace_Facts.thy ===== *)
theory Replace_Facts
  imports Own_Writes
begin

text \<open>
  A \<open>Replace\<close> write: the values it finds open are the newest version of every other value of its
  property, and each gets a version at the commit time that ends where the new value begins.
\<close>


section \<open>The open values\<close>

text \<open>The newest version of a quad, by transaction time.\<close>

definition newest :: "contents \<Rightarrow> quad_ids \<Rightarrow> bytes \<Rightarrow> bool" where
  "newest m ids b \<longleftrightarrow>
    (\<exists>u. version_at m ids u = Some b \<and> (\<forall>u'. version_at m ids u' \<noteq> None \<longrightarrow> u' \<le> u))"

text \<open>The last entry of every object, when the objects come in ascending order.\<close>

definition last_of :: "(quad_key \<times> bytes) list \<Rightarrow> node_id \<Rightarrow> bytes option" where
  "last_of xs ob = map_of (rev (map (\<lambda>(q, b). (qk_o q, b)) xs)) ob"

lemma last_of_snoc: "last_of (xs @ [(q, b)]) ob = (if ob = qk_o q then Some b else last_of xs ob)"
  by (simp add: last_of_def)

lemma last_of_in: "last_of xs ob = Some b \<Longrightarrow> \<exists>q. (q, b) \<in> set xs \<and> qk_o q = ob"
  by (auto simp: last_of_def dest!: map_of_SomeD)

lemma open_fold:
  "sorted (map (\<lambda>x. node_uuid (qk_o (fst x))) xs) \<Longrightarrow>
    \<exists>l. rfold open_step (map (\<lambda>(q, b). (order_encode Gspo q, b)) xs) [] = Inr l \<and>
      distinct (map fst l) \<and> (\<forall>ob b. (ob, b) \<in> set l \<longleftrightarrow> last_of xs ob = Some b) \<and>
      (xs \<noteq> [] \<longrightarrow> l \<noteq> [] \<and> fst (last l) = qk_o (fst (last xs)))"
proof (induction xs rule: rev_induct)
  case Nil
  show ?case by (simp add: last_of_def)
next
  case (snoc x xs)
  obtain q b where x: "x = (q, b)" by (cases x)
  from snoc.prems have "sorted (map (\<lambda>x. node_uuid (qk_o (fst x))) xs)"
    and asc: "\<And>y. y \<in> set xs \<Longrightarrow> node_uuid (qk_o (fst y)) \<le> node_uuid (qk_o q)"
    by (auto simp: x sorted_append)
  with snoc.IH obtain l where l: "rfold open_step (map (\<lambda>(q, b). (order_encode Gspo q, b)) xs) [] = Inr l"
    "distinct (map fst l)" "\<And>ob b. (ob, b) \<in> set l \<longleftrightarrow> last_of xs ob = Some b"
    "xs \<noteq> [] \<Longrightarrow> l \<noteq> [] \<and> fst (last l) = qk_o (fst (last xs))" by blast
  have new: "qk_o q \<notin> fst ` set l" if "l = [] \<or> fst (last l) \<noteq> qk_o q"
  proof
    assume "qk_o q \<in> fst ` set l"
    then obtain b' where b': "(qk_o q, b') \<in> set l" by auto
    with l(3) last_of_in obtain q' where q': "(q', b') \<in> set xs" "qk_o q' = qk_o q" by metis
    then have ne: "xs \<noteq> []" "l \<noteq> []" using b' by auto
    have "node_uuid (qk_o q') \<le> node_uuid (qk_o (fst (last xs)))"
      using \<open>sorted (map (\<lambda>x. node_uuid (qk_o (fst x))) xs)\<close> q'(1)
      by (cases xs rule: rev_cases) (fastforce simp: sorted_append)+
    moreover have "node_uuid (qk_o (fst (last xs))) \<le> node_uuid (qk_o q)"
      using asc ne(1) by simp
    ultimately have "qk_o (fst (last xs)) = qk_o q" using q'(2) by (simp add: node_id.expand)
    with that l(4) [OF ne(1)] show False by simp
  qed
  show ?case
  proof (cases "l \<noteq> [] \<and> fst (last l) = qk_o q")
    case True
    then obtain l' b' where l': "l = l' @ [(qk_o q, b')]" by (cases l rule: rev_cases) auto
    have "open_step (order_encode Gspo q, b) l = Inr (l' @ [(qk_o q, b)])"
      by (simp add: open_step_def l')
    moreover have "(ob, c) \<in> set (l' @ [(qk_o q, b)]) \<longleftrightarrow> last_of (xs @ [(q, b)]) ob = Some c" for ob c
      using l(2) l(3) [of ob c] by (auto simp: l' last_of_snoc image_iff)
    ultimately show ?thesis using l(1,2) by (auto simp: x rfold_append l')
  next
    case False
    then have "open_step (order_encode Gspo q, b) l = Inr (l @ [(qk_o q, b)])"
      by (auto simp: open_step_def)
    moreover have "(ob, c) \<in> set (l @ [(qk_o q, b)]) \<longleftrightarrow> last_of (xs @ [(q, b)]) ob = Some c" for ob c
      using new False l(3) [of ob c] by (auto simp: last_of_snoc image_iff)
    ultimately show ?thesis using l(1,2) new False by (auto simp: x rfold_append)
  qed
qed

lemma gspo_order:
  assumes "order_encode Gspo q < order_encode Gspo q'" and "qk_s q = qk_s q'" and "qk_p q = qk_p q'"
    and "qk_g q = qk_g q'" and "Timestamp 0 \<le> qk_tt q" and "Timestamp 0 \<le> qk_tt q'"
  shows "node_uuid (qk_o q) < node_uuid (qk_o q') \<or> qk_o q = qk_o q' \<and> qk_tt q < qk_tt q'"
proof -
  have "node_bytes (qk_o q) @ ts_bytes (qk_tt q) < node_bytes (qk_o q') @ ts_bytes (qk_tt q')"
    using assms(1) by (simp add: order_encode_def quad_tuple_def assms(2-4) append_less_iff)
  then show ?thesis
    by (simp add: append_less_iff ts_bytes_less_iff [OF assms(5,6)])
      (simp add: node_bytes_def uuid_bytes_def be_bytes_less_iff)
qed


lemma last_of_newest:
  assumes "sorted_wrt (\<lambda>x y. qk_o (fst x) = qk_o (fst y) \<longrightarrow> qk_tt (fst x) < qk_tt (fst y)) xs"
    and "last_of xs ob = Some b"
  shows "\<exists>q. (q, b) \<in> set xs \<and> qk_o q = ob \<and>
    (\<forall>q' b'. (q', b') \<in> set xs \<longrightarrow> qk_o q' = ob \<longrightarrow> qk_tt q' \<le> qk_tt q)"
  using assms
proof (induction xs rule: rev_induct)
  case Nil
  then show ?case by (simp add: last_of_def)
next
  case (snoc x xs)
  obtain q c where x: "x = (q, c)" by (cases x)
  have new: "qk_tt q' < qk_tt q" if "(q', b') \<in> set xs" "qk_o q' = qk_o q" for q' b'
    using snoc.prems(1) that by (fastforce simp: x sorted_wrt_append)
  show ?case
  proof (cases "ob = qk_o q")
    case True
    with snoc.prems(2) have "b = c" by (simp add: x last_of_snoc)
    with True new show ?thesis by (intro exI [of _ q]) (auto simp: x intro: order_less_imp_le)
  next
    case False
    with snoc show ?thesis by (fastforce simp: x last_of_snoc sorted_wrt_append)
  qed
qed

lemma last_of_exists: "(q, b) \<in> set xs \<Longrightarrow> \<exists>b'. last_of xs (qk_o q) = Some b'"
proof (induction xs rule: rev_induct)
  case (snoc x xs)
  obtain q' c where "x = (q', c)" by (cases x)
  with snoc show ?case by (auto simp: last_of_snoc)
qed simp

context kv_engine
begin

lemma open_values_spec:
  assumes "index_ok (view E (st_db st))"
  obtains opens where "open_values E st s p g at = Inr opens" and "distinct (map fst opens)"
    and "\<And>ob b. (ob, b) \<in> set opens \<longleftrightarrow> newest (view E (st_db st)) (s, p, ob, g) b \<and> is_open at b"
proof -
  let ?m = "view E (st_db st)" and ?e = "\<lambda>(q, b). (order_encode Gspo q, b)"
  obtain items where items:
    "iter_prefix E (st_db st) (order_cf Gspo) (order_prefix Gspo (Some s) (Some p) None (Some g)) = Inr items"
    "sorted_wrt (<) (map fst items)"
    "\<And>k b. (k, b) \<in> set items \<longleftrightarrow> (\<exists>q. k = order_encode Gspo q \<and>
      version_at ?m (quad_ids_of q) (qk_tt q) = Some b \<and>
      selects Gspo (Some s) (Some p) None (Some g) (quad_ids_of q))"
    by (rule gspo_items [OF assms, of "Some s" "Some p" None "Some g"]) (rule that, assumption+)
  have "\<forall>x\<in>set items. \<exists>y. x = ?e y"
  proof
    fix x assume "x \<in> set items"
    moreover obtain k b where "x = (k, b)" by (cases x)
    ultimately obtain q where "x = ?e (q, b)" using items(3) by auto
    then show "\<exists>y. x = ?e y" by blast
  qed
  then obtain qs where qs: "items = map ?e qs" using ex_map_conv [of items ?e] by blast
  have sel: "selects Gspo (Some s) (Some p) None (Some g) (quad_ids_of q) \<longleftrightarrow>
      qk_s q = s \<and> qk_p q = p \<and> qk_g q = g" for q
    by (auto simp: selects_def covered_slots_def quad_of_ids_def quad_ids_of_def)
  have mem: "(q, b) \<in> set qs \<longleftrightarrow> version_at ?m (quad_ids_of q) (qk_tt q) = Some b \<and>
      qk_s q = s \<and> qk_p q = p \<and> qk_g q = g" for q b
  proof -
    have "(order_encode Gspo q, b) \<in> set items \<longleftrightarrow> (q, b) \<in> set qs"
      unfolding qs by (auto simp: quad_codec.enc_inject intro: rev_image_eqI)
    then show ?thesis using items(3) [of "order_encode Gspo q" b]
      by (auto simp: sel quad_codec.enc_inject)
  qed
  have tt0: "Timestamp 0 \<le> qk_tt q" if "(q, b) \<in> set qs" for q b
  proof -
    have "?m (order_cf Gspo) (order_encode Gspo q) = Some b"
      using that mem index_ok_at [OF assms] by metis
    with assms show ?thesis unfolding index_ok_def by (metis quad_codec.enc_inject)
  qed
  have "sorted_wrt (\<lambda>x y. order_encode Gspo (fst x) < order_encode Gspo (fst y)) qs"
    using items(2) by (simp add: qs sorted_wrt_map case_prod_beta)
  then have ord: "sorted_wrt (\<lambda>x y. node_uuid (qk_o (fst x)) < node_uuid (qk_o (fst y)) \<or>
      qk_o (fst x) = qk_o (fst y) \<and> qk_tt (fst x) < qk_tt (fst y)) qs"
  proof (rule sorted_wrt_mono_rel [rotated])
    fix x y assume xy: "x \<in> set qs" "y \<in> set qs" "order_encode Gspo (fst x) < order_encode Gspo (fst y)"
    then have "(fst x, snd x) \<in> set qs" "(fst y, snd y) \<in> set qs" by simp_all
    with gspo_order [OF xy(3)] mem tt0 show "node_uuid (qk_o (fst x)) < node_uuid (qk_o (fst y)) \<or>
      qk_o (fst x) = qk_o (fst y) \<and> qk_tt (fst x) < qk_tt (fst y)" by metis
  qed
  then have "sorted (map (\<lambda>x. node_uuid (qk_o (fst x))) qs)"
    unfolding sorted_wrt_map by (rule sorted_wrt_mono_rel [rotated]) auto
  from open_fold [OF this] obtain l where l: "rfold open_step items [] = Inr l" "distinct (map fst l)"
    "\<And>ob b. (ob, b) \<in> set l \<longleftrightarrow> last_of qs ob = Some b"
    unfolding qs by blast
  have tts: "sorted_wrt (\<lambda>x y. qk_o (fst x) = qk_o (fst y) \<longrightarrow> qk_tt (fst x) < qk_tt (fst y)) qs"
    using ord by (rule sorted_wrt_mono_rel [rotated]) auto
  have ids: "(quad_of_ids (s, p, ob, g) u, b) \<in> set qs \<longleftrightarrow> version_at ?m (s, p, ob, g) u = Some b" for ob u b
    by (simp add: mem quad_of_ids_def quad_ids_of_def)
  have key_eq: "q = quad_of_ids (s, p, qk_o q, g) (qk_tt q)" if "(q, b) \<in> set qs" for q b
    using that by (simp add: mem quad_of_ids_def)
  have lastv: "last_of qs ob = Some b \<longleftrightarrow> newest ?m (s, p, ob, g) b" for ob b
  proof
    assume "last_of qs ob = Some b"
    from last_of_newest [OF tts this] obtain q where q: "(q, b) \<in> set qs" "qk_o q = ob"
      "\<And>q' b'. (q', b') \<in> set qs \<Longrightarrow> qk_o q' = ob \<Longrightarrow> qk_tt q' \<le> qk_tt q" by blast
    have "version_at ?m (s, p, ob, g) (qk_tt q) = Some b" using q(1,2) key_eq ids by metis
    moreover have "u' \<le> qk_tt q" if "version_at ?m (s, p, ob, g) u' \<noteq> None" for u'
    proof -
      from that obtain b' where "(quad_of_ids (s, p, ob, g) u', b') \<in> set qs" using ids by blast
      from q(3) [OF this] show ?thesis by (simp add: quad_of_ids_def)
    qed
    ultimately show "newest ?m (s, p, ob, g) b" unfolding newest_def by blast
  next
    assume "newest ?m (s, p, ob, g) b"
    then obtain u where u: "version_at ?m (s, p, ob, g) u = Some b"
      "\<And>u'. version_at ?m (s, p, ob, g) u' \<noteq> None \<Longrightarrow> u' \<le> u" unfolding newest_def by blast
    from u(1) have "(quad_of_ids (s, p, ob, g) u, b) \<in> set qs" using ids by blast
    from last_of_exists [OF this] obtain b' where b': "last_of qs ob = Some b'" by (auto simp: quad_of_ids_def)
    from last_of_newest [OF tts b'] obtain q where q: "(q, b') \<in> set qs" "qk_o q = ob"
      "\<And>q' b'. (q', b') \<in> set qs \<Longrightarrow> qk_o q' = ob \<Longrightarrow> qk_tt q' \<le> qk_tt q" by blast
    have v: "version_at ?m (s, p, ob, g) (qk_tt q) = Some b'" using q(1,2) key_eq ids by metis
    have "u \<le> qk_tt q" using q(3) [OF \<open>(quad_of_ids (s, p, ob, g) u, b) \<in> set qs\<close>] by (simp add: quad_of_ids_def)
    moreover have "qk_tt q \<le> u" by (rule u(2)) (simp add: v)
    ultimately show "last_of qs ob = Some b" using v u(1) b' by simp
  qed
  show thesis
  proof (rule that)
    show "open_values E st s p g at = Inr (filter (\<lambda>(_, b). is_open at b) l)"
      using items(1) l(1) by (simp add: open_values_def)
    show "distinct (map fst (filter (\<lambda>(_, b). is_open at b) l))"
      using l(2) by (simp add: distinct_map_filter)
  qed (auto simp: l(3) lastv)
qed


end


section \<open>The closing versions\<close>

lemma close_fold:
  "rfold (close_step key ob at) opens sg = Inr sg' \<Longrightarrow>
    (\<forall>other b. (other, b) \<in> set opens \<longrightarrow> other \<noteq> ob \<longrightarrow>
      (\<exists>closed. with_vt_end b at = Inr closed \<and> (key other, closed) \<in> set (sg_quads sg'))) \<and>
    (\<forall>q v. (q, v) \<in> set (sg_quads sg') \<longleftrightarrow> (q, v) \<in> set (sg_quads sg) \<or>
      (\<exists>other b. (other, b) \<in> set opens \<and> other \<noteq> ob \<and> q = key other \<and> with_vt_end b at = Inr v))"
proof (induction opens arbitrary: sg)
  case (Cons x opens)
  obtain other b where x: "x = (other, b)" by (cases x)
  from Cons.prems obtain sg1 where step: "close_step key ob at x sg = Inr sg1"
    and rest: "rfold (close_step key ob at) opens sg1 = Inr sg'" by auto
  note IH = Cons.IH [OF rest]
  show ?case
  proof (cases "other = ob")
    case True
    with step have "sg1 = sg" by (simp add: x close_step_def)
    with IH True show ?thesis by (auto simp: x)
  next
    case False
    with step obtain closed where closed: "with_vt_end b at = Inr closed"
      "sg_quads sg1 = sg_quads sg @ [(key other, closed)]"
      by (auto simp: x close_step_def stage_quad_def)
    have "(q, v) \<in> set (sg_quads sg') \<longleftrightarrow> (q, v) \<in> set (sg_quads sg) \<or>
      (\<exists>other b. (other, b) \<in> set (x # opens) \<and> other \<noteq> ob \<and> q = key other \<and> with_vt_end b at = Inr v)" for q v
      using IH False closed by (auto simp: x)
    with closed IH show ?thesis by (auto simp: x)
  qed
qed simp

lemma staged_value_unique:
  assumes "(q, v) \<in> set quads" and "\<And>v'. (q, v') \<in> set quads \<Longrightarrow> v' = v"
  shows "staged_value quads q = Some v"
proof -
  have "map_of (rev quads) q \<noteq> None" using assms(1) weak_map_of_SomeI [of q v "rev quads"] by simp
  then obtain v' where "map_of (rev quads) q = Some v'" by auto
  with assms(2) show ?thesis by (auto simp: staged_value_def dest: map_of_SomeD)
qed

context kv_engine
begin

text \<open>
  A transaction of one \<open>Replace\<close> write: every other value of the property that was still open at the
  start of the new one is closed there, by a version at the commit time.
\<close>

lemma commit_replaces:
  assumes "store_ok E st" and "tx_ok st tx" and "pending_writes tx = [w]"
    and "pw_triple w = Property s n v r" and "resolve (pw_mode w) (pw_triple w) = Replace"
    and "commit E wall tx st = (Inr t, st')"
    and "predicate_id st (pred_str n) = Some p" and "ob \<noteq> value_object (xxh3_128 E) v"
    and "newest (view E (st_db st)) (s, p, ob, pw_graph w) b" and "is_open (vt_start r) b"
  shows "\<exists>closed. with_vt_end b (vt_start r) = Inr closed \<and>
    version_at (view E (st_db st')) (s, p, ob, pw_graph w) t = Some closed \<and>
    map_option snd (valid_time closed) = Some (vt_start r)"
proof -
  let ?m = "view E (st_db st)" and ?sg0 = "\<lparr>sg_batch = [], sg_slots = [], sg_quads = []\<rparr>"
  have dict: "dict_ok E ?m" and u: "\<forall>iri\<in>set (tx_iris tx). is_utf8 iri" and ix: "index_ok ?m"
    using assms(1,2) by (simp_all add: store_ok_def tx_ok_def)
  show ?thesis
    using dict u assms(6)
  proof (cases rule: commit_cases)
    case empty
    with assms(3) show ?thesis by (simp add: tx_empty_def pending_writes_def)
  next
    case (failed e)
    then show ?thesis by simp
  next
    case (committed sg st2 puts p0 d)
    then have t: "t = commit_time wall st" by simp
    let ?st1 = "st\<lparr>st_committed := t\<rparr>"
    note op = smapM_stage_frame [OF committed(4)]
    note eff = commit_effect [OF committed(4,7,10)]
    have "stage_write E t w ?sg0 ?st1 = (Inr sg, st2)"
      using committed(4) by (auto simp: assms(3) t sbind_Inr_iff sret_def)
    then obtain p' where i: "intern_predicate E (pred_str n) ?st1 = (Inr p', st2)"
      and stp: "stage_property E w s p' v (r\<lparr>tt := t\<rparr>) ?sg0 st2 = Inr sg"
      by (auto simp: stage_write_def Let_def sbind_Inr_iff slift_def assms(4))
    have "canonical_name st2 = canonical_name st"
      using only_preds_fields(4,5) [OF op] by (simp add: canonical_name_def fun_eq_iff)
    then have p': "p' = p"
      using intern_predicate_lookup(1,2) [OF i] assms(7) by (simp add: predicate_id_eq)
    have ix2: "index_ok (view E (st_db st2))" "version_at (view E (st_db st2)) = version_at ?m"
      using only_preds_stored(1,3) [OF op] ix by (simp_all add: fun_eq_iff)
    let ?q = "\<lambda>other. \<lparr>qk_s = s, qk_p = p, qk_o = other, qk_g = pw_graph w, qk_tt = t\<rparr>"
    let ?v = "value_object (xxh3_128 E) v"
    obtain b0 batch1 sg2 where c: "stage_closings E st2 s p (pw_graph w) t ?v (vt_start r) []
        (?sg0\<lparr>sg_batch := batch1\<rparr>) = Inr sg2" "stage_value E st2 (?q ?v) v b0 [] sg2 = Inr sg"
      using stp assms(5) by (auto simp: stage_property_def Let_def p' staged_slot_def)
    obtain opens where opens: "open_values E st2 s p (pw_graph w) (vt_start r) = Inr opens"
      "distinct (map fst opens)"
      "\<And>ob b. (ob, b) \<in> set opens \<longleftrightarrow>
        newest (view E (st_db st2)) (s, p, ob, pw_graph w) b \<and> is_open (vt_start r) b"
      by (rule open_values_spec [OF ix2(1), of s p "pw_graph w" "vt_start r"]) (rule that, assumption+)
    have mem: "(ob, b) \<in> set opens"
      using opens(3) assms(9,10) by (simp add: newest_def ix2(2))
    have fold: "rfold (close_step ?q ?v (vt_start r)) opens (?sg0\<lparr>sg_batch := batch1\<rparr>) = Inr sg2"
      using c(1) opens(1) by (simp add: stage_closings_def)
    from close_fold [OF fold] mem assms(8) obtain closed where closed: "with_vt_end b (vt_start r) = Inr closed"
      "(?q ob, closed) \<in> set (sg_quads sg2)" by blast
    have "staged_value (sg_quads sg) (?q ob) = Some closed"
    proof (rule staged_value_unique)
      fix v' assume "(?q ob, v') \<in> set (sg_quads sg)"
      then have "(?q ob, v') \<in> set (sg_quads sg2)"
        using stage_value_last(1) [OF c(2)] assms(8) by auto
      then obtain b' where b': "(ob, b') \<in> set opens" "with_vt_end b' (vt_start r) = Inr v'"
        using close_fold [OF fold] by auto
      have "b' = b" using mem b'(1) opens(2) by (metis eq_key_imp_eq_value)
      with closed(1) b'(2) show "v' = closed" by simp
    qed (use closed(2) stage_value_last(1) [OF c(2)] in simp)
    moreover have "?q ob = quad_of_ids (s, p, ob, pw_graph w) t" by (simp add: quad_of_ids_def)
    ultimately have "version_at (view E (st_db st')) (s, p, ob, pw_graph w) t = Some closed"
      using writes_at_version [OF eff(1), of "(s, p, ob, pw_graph w)" t] by (simp add: committed(9))
    with closed(1) with_vt_end_correct(1) [OF closed(1)] show ?thesis by auto
  qed
qed

end

end
