(* ===== verification/Demo.thy ===== *)
theory Demo
  imports Mvcc_Steps Replace_Facts
begin

text \<open>
  A concrete instance of the parameters, on the log-structured engine of \<open>Env\<close>, and a small store:
  the inputs at which the properties are applied. The hash reads the bytes as a number, the JSON
  form is a tag and the bytes of the value, UUIDs are written as their sixteen bytes.
\<close>

definition demo_json :: "value \<Rightarrow> string + bytes" where
  "demo_json v = (case v of
     VNull \<Rightarrow> Inr [0]
   | VBool b \<Rightarrow> Inr [1, if b then 1 else 0]
   | VInt i \<Rightarrow> Inr (2 # be_bytes 8 i)
   | VText s \<Rightarrow> Inr (3 # as_bytes s)
   | _ \<Rightarrow> Inl ''unsupported'')"

definition demo_parse :: "bytes \<Rightarrow> string + value" where
  "demo_parse bs = (case bs of
     [] \<Rightarrow> Inl ''empty''
   | tag # rest \<Rightarrow>
       if tag = 0 then Inr VNull
       else if tag = 1 then Inr (VBool (rest = [1]))
       else if tag = 2 then Inr (VInt (from_be rest))
       else Inr (VText (bytes_str rest)))"

definition demo_ext :: ext where
  "demo_ext = \<lparr>xxh3_128 = (\<lambda>bs. of_nat (bytes_nat bs)),
     json_to_vec = demo_json, json_from_slice = demo_parse,
     uuid_parse = (\<lambda>s. if length s = 16 then Some (from_be (as_bytes s)) else None),
     uuid_fmt = (\<lambda>u. bytes_str (be_bytes 16 u)),
     parse_f64 = (\<lambda>_. None)\<rparr>"

abbreviation demo_env :: "ref_db env" where
  "demo_env \<equiv> ref_env demo_ext"

definition fresh_store :: "'d \<Rightarrow> 'd store" where
  "fresh_store d = \<lparr>st_db = d, st_committed = Timestamp 0, st_fwd = [], st_rev = [], st_next_pred = 1,
     st_graph_fwd = [], st_graph_rev = [], st_graph_by_node = [], st_next_graph = 1,
     st_inline_max = 256, st_mode = Primary, st_commits = Timestamp 0,
     st_vocab = vocabulary_default, st_canonical = True\<rparr>"

definition demo_store :: "ref_db store" where
  "demo_store = fresh_store []"

definition open_from :: "timestamp \<Rightarrow> bitemporal_range" where
  "open_from t = \<lparr>vt_start = t, vt_end = END_OF_TIME, tt = Timestamp 0\<rparr>"

definition demo_triple :: triple where
  "demo_triple = Property (NodeId 7) (Predicate ''x:n'') (VText ''ab'') (open_from (Timestamp 5))"

definition demo_tx :: transaction where
  "demo_tx = tx_insert demo_triple (begin_tx demo_store)"

definition demo_committed :: "timestamp res \<times> ref_db store" where
  "demo_committed = commit demo_env (Timestamp 100) demo_tx demo_store"


section \<open>The demo store meets the invariants\<close>

lemma view_fresh: "view demo_env [] cf k = None"
  by (simp add: log_view_def)

lemma demo_store_ok: "store_ok demo_env demo_store"
  unfolding store_ok_def index_ok_def pred_table_ok_def graph_table_ok_def dict_ok_def times_ok_def
    table_ok_def version_at_def demo_store_def fresh_store_def
  by (simp add: view_fresh del: view_ref)

lemma demo_values_ok: "values_ok demo_env demo_store"
  unfolding values_ok_def Let_def version_at_def demo_store_def fresh_store_def
  by (simp add: view_fresh del: view_ref)

lemma demo_tx_pending: "pending_writes demo_tx =
    [\<lparr>pw_triple = demo_triple, pw_graph = DEFAULT_GRAPH, pw_mode = Auto\<rparr>]"
  by (simp add: demo_tx_def tx_insert_def tx_insert_in_def begin_tx_def tx_new_def pending_writes_def)

lemma demo_tx_ok: "tx_ok demo_store demo_tx"
proof -
  have "is_utf8 ''x:n''" by code_simp
  moreover have "canonical_name demo_store ''x:n'' = ''x:n''" by code_simp
  moreover have "0 < room_left (st_next_pred demo_store)"
    by (simp add: room_left_def demo_store_def fresh_store_def)
  ultimately show ?thesis
    unfolding tx_ok_def names_ok_def demo_tx_pending
    by (simp add: demo_triple_def demo_tx_def tx_insert_def tx_insert_in_def begin_tx_def tx_new_def)
qed


lemma demo_engine: "kv_engine demo_env"
  by (rule ref.kv_engine_axioms)

lemma demo_faithful: "codec_ok demo_env (VText ''ab'')"
proof -
  have "demo_parse (3 # as_bytes ''ab'') = Inr (VText ''ab'')" by code_simp
  then show ?thesis
    by (simp add: codec_ok_def json_faithful_def demo_ext_def demo_json_def)
qed

lemma demo_codec_ok: "writes_codec_ok demo_env (pending_writes demo_tx)"
  using demo_faithful by (simp add: writes_codec_ok_def demo_tx_pending demo_triple_def)

lemma demo_time: "commit_time (Timestamp 100) demo_store = Timestamp 100"
  by (simp add: commit_time_def demo_store_def fresh_store_def ts_succ_def max_def less_eq_timestamp_def)

lemma demo_tx_fields: "\<not> tx_empty demo_tx" "tx_iris demo_tx = []" "tx_read_ts demo_tx = Timestamp 0"
  "st_committed demo_store = Timestamp 0" "\<not> is_replica demo_store" "Timestamp 0 < END_OF_TIME"
  "Timestamp 0 \<le> Timestamp 100"
  by (simp_all add: demo_tx_def tx_insert_def tx_insert_in_def begin_tx_def tx_new_def tx_empty_def
      demo_store_def fresh_store_def read_ts_def is_replica_def less_timestamp_def
      less_eq_timestamp_def END_OF_TIME_def)

definition demo_after :: "ref_db store" where
  "demo_after = snd demo_committed"

lemma demo_commit: "commit demo_env (Timestamp 100) demo_tx demo_store = (Inr (Timestamp 100), demo_after)"
proof -
  have "\<exists>st'. commit demo_env (Timestamp 100) demo_tx demo_store
      = (Inr (commit_time (Timestamp 100) demo_store), st')"
    by (rule ref.latest_commit_ok [OF demo_store_ok demo_values_ok demo_tx_ok demo_codec_ok])
      (simp_all add: demo_tx_fields)
  then show ?thesis by (auto simp: demo_time demo_after_def demo_committed_def)
qed

lemma demo_after_ok: "store_ok demo_env demo_after" "values_ok demo_env demo_after"
  using ref.commit_store_ok [OF demo_store_ok demo_tx_ok _ _ demo_commit]
    ref.commit_values_ok [OF demo_store_ok demo_values_ok demo_tx_ok demo_codec_ok demo_commit]
  by (simp_all add: demo_tx_fields)

lemma demo_blobs_agree: "blobs_agree demo_env demo_store (pending_writes demo_tx)"
  unfolding blobs_agree_def demo_store_def fresh_store_def
  by (simp add: view_fresh del: view_ref)



section \<open>A second transaction\<close>

text \<open>It replaces the value the first one wrote, once from the latest time and once from a stale one.\<close>

definition demo_new_triple :: triple where
  "demo_new_triple = Property (NodeId 7) (Predicate ''x:n'') (VText ''cd'') (open_from (Timestamp 6))"

definition demo_replace :: transaction where
  "demo_replace = tx_insert_in demo_new_triple DEFAULT_GRAPH Replace (tx_new (Timestamp 100))"

definition demo_stale :: transaction where
  "demo_stale = tx_insert_in demo_new_triple DEFAULT_GRAPH Replace (tx_new (Timestamp 0))"

lemma demo_replace_fields:
  "pending_writes demo_replace = [\<lparr>pw_triple = demo_new_triple, pw_graph = DEFAULT_GRAPH, pw_mode = Replace\<rparr>]"
  "pending_writes demo_stale = pending_writes demo_replace"
  "\<not> tx_empty demo_replace" "\<not> tx_empty demo_stale" "tx_iris demo_replace = []" "tx_iris demo_stale = []"
  "tx_read_ts demo_replace = Timestamp 100" "tx_read_ts demo_stale = Timestamp 0"
  by (simp_all add: demo_replace_def demo_stale_def tx_insert_in_def tx_new_def pending_writes_def
      tx_empty_def)

lemma demo_faithful_cd: "codec_ok demo_env (VText ''cd'')"
proof -
  have "demo_parse (3 # as_bytes ''cd'') = Inr (VText ''cd'')" by code_simp
  then show ?thesis
    by (simp add: codec_ok_def json_faithful_def demo_ext_def demo_json_def)
qed

lemma demo_after_fields: "st_committed demo_after = Timestamp 100" "\<not> is_replica demo_after"
  "canonical_name demo_after = canonical_name demo_store" "0 < room_left (st_next_pred demo_after)"
proof -
  show "st_committed demo_after = Timestamp 100"
    using ref.commit_oracle [OF demo_store_ok demo_tx_ok _ demo_commit] by (simp add: demo_tx_fields demo_time)
  show "\<not> is_replica demo_after" "canonical_name demo_after = canonical_name demo_store"
    using ref.commit_kept_fields(1) [OF demo_store_ok demo_tx_ok demo_commit]
      ref.commit_frame(2) [OF demo_store_ok demo_tx_ok demo_commit] demo_tx_fields by simp_all
  show "0 < room_left (st_next_pred demo_after)"
    using ref.commit_kept_fields(2) [OF demo_store_ok demo_tx_ok demo_commit]
    by (simp add: demo_tx_pending) (simp add: room_left_def demo_store_def fresh_store_def)
qed

lemma demo_replace_ok: "tx_ok demo_after demo_replace" "tx_ok demo_after demo_stale"
  "writes_codec_ok demo_env (pending_writes demo_replace)"
proof -
  have "is_utf8 (canonical_name demo_after ''x:n'')"
    using demo_tx_ok by (simp add: tx_ok_def names_ok_def demo_tx_pending demo_triple_def demo_after_fields)
  then show "tx_ok demo_after demo_replace" "tx_ok demo_after demo_stale"
    "writes_codec_ok demo_env (pending_writes demo_replace)"
    using demo_after_fields(4) demo_faithful_cd
    by (auto simp: tx_ok_def names_ok_def demo_replace_fields demo_new_triple_def writes_codec_ok_def)
qed

lemma demo_time2: "commit_time (Timestamp 200) demo_after = Timestamp 200"
  by (simp add: commit_time_def demo_after_fields ts_succ_def max_def less_eq_timestamp_def)

definition demo_replaced :: "ref_db store" where
  "demo_replaced = snd (commit demo_env (Timestamp 200) demo_replace demo_after)"

lemma demo_commit2:
  "commit demo_env (Timestamp 200) demo_replace demo_after = (Inr (Timestamp 200), demo_replaced)"
proof -
  have "\<exists>st'. commit demo_env (Timestamp 200) demo_replace demo_after
      = (Inr (commit_time (Timestamp 200) demo_after), st')"
    by (rule ref.latest_commit_ok [OF demo_after_ok demo_replace_ok(1,3)])
      (simp_all add: demo_replace_fields demo_after_fields)
  then show ?thesis by (auto simp: demo_time2 demo_replaced_def)
qed

abbreviation demo_object :: node_id where
  "demo_object \<equiv> value_object (xxh3_128 demo_env) (VText ''ab'')"

lemma demo_version:
  "\<exists>p b. predicate_id demo_after ''x:n'' = Some p \<and>
    version_at (view demo_env (st_db demo_after)) (NodeId 7, p, demo_object, DEFAULT_GRAPH) (Timestamp 100) = Some b \<and>
    newest (view demo_env (st_db demo_after)) (NodeId 7, p, demo_object, DEFAULT_GRAPH) b \<and>
    is_open (Timestamp 6) b"
proof -
  let ?m = "view demo_env (st_db demo_after)"
  obtain p b where p: "predicate_id demo_after ''x:n'' = Some p"
    "version_at ?m (NodeId 7, p, demo_object, DEFAULT_GRAPH) (Timestamp 100) = Some b"
    "valid_time b = Some (Timestamp 5, END_OF_TIME)"
    "reconstruct demo_env demo_after (NodeId 7) p demo_object (Timestamp 100) b
      = Inr (Property (NodeId 7) (Predicate (canonical_name demo_store ''x:n'')) (VText ''ab'')
          ((open_from (Timestamp 5))\<lparr>tt := Timestamp 100\<rparr>))"
    using ref.commit_last_write [OF demo_store_ok demo_tx_ok demo_faithful _ _ demo_commit,
        of "[]" _ "NodeId 7" "Predicate ''x:n''" "open_from (Timestamp 5)"]
    unfolding demo_tx_pending by (fastforce simp: demo_triple_def open_from_def)
  have "times_ok demo_env demo_after" using demo_after_ok(1) by (simp add: store_ok_def)
  then have "newest ?m (NodeId 7, p, demo_object, DEFAULT_GRAPH) b"
    unfolding newest_def times_ok_def demo_after_fields using p(2) by blast
  moreover have "b = [] \<or> hd b \<noteq> DISC_RELATION"
  proof (rule ccontr)
    assume "\<not> (b = [] \<or> hd b \<noteq> DISC_RELATION)"
    then obtain rest where "b = DISC_RELATION # rest" by (cases b) auto
    with p(4) show False
      by (auto simp: reconstruct_def decode_value_def ok_or_def split: if_splits option.splits)
  qed
  with p(3) have "is_open (Timestamp 6) b"
    by (simp add: is_open_def END_OF_TIME_def less_timestamp_def)
  ultimately show ?thesis using p(1,2) by blast
qed

lemma demo_conflict:
  "conflicting demo_env demo_after (tx_read_ts demo_stale) (commit_time (Timestamp 200) demo_after)
    \<lparr>pw_triple = demo_new_triple, pw_graph = DEFAULT_GRAPH, pw_mode = Replace\<rparr>"
proof -
  obtain p b where "predicate_id demo_after ''x:n'' = Some p"
    "version_at (view demo_env (st_db demo_after)) (NodeId 7, p, demo_object, DEFAULT_GRAPH) (Timestamp 100) = Some b"
    using demo_version by blast
  moreover have "Timestamp 0 < Timestamp 100" "Timestamp 100 \<le> Timestamp 200"
    by (simp_all add: less_timestamp_def less_eq_timestamp_def)
  ultimately show ?thesis
    unfolding conflicting_def demo_replace_fields demo_time2
    by (intro exI [of _ p] exI [of _ "(NodeId 7, p, demo_object, DEFAULT_GRAPH)"]
        exI [of _ "Timestamp 100"] exI [of _ b])
      (simp add: demo_new_triple_def claims_def resolve_def)
qed


lemma demo_xxh: "xxh3_128 demo_env bs = word_of_nat (bytes_nat bs)"
  by (simp add: ref_env_def demo_ext_def env.defs ext.defs)

lemma demo_objects_differ: "demo_object \<noteq> value_object (xxh3_128 demo_env) (VText ''cd'')"
proof
  have n: "bytes_nat (canonical_bytes (VText ''ab'')) = 6447364"
    "bytes_nat (canonical_bytes (VText ''cd'')) = 6578948"
    by (simp_all add: as_bytes_def char_byte_def)
  assume "demo_object = value_object (xxh3_128 demo_env) (VText ''cd'')"
  then have "content_hash (xxh3_128 demo_env) (VText ''ab'') = content_hash (xxh3_128 demo_env) (VText ''cd'')"
    by (metis node_bytes_value_object)
  then have "from_le (le_bytes 16 (word_of_nat 6447364 :: u128)) = (from_le (le_bytes 16 (word_of_nat 6578948 :: u128)) :: u128)"
    by (simp only: content_hash_def demo_xxh n)
  then show False by simp
qed


section \<open>A run of two clients\<close>

text \<open>Client 1 begins; client 0 begins, writes \<open>demo_triple\<close>, publishes and lands.\<close>

definition demo_sys :: "nat \<Rightarrow> ref_db sys" where
  "demo_sys k = (let m = view demo_env (st_db demo_store);
     s0 = fresh_sys demo_store;
     s1 = set_client 1 (Active (begin_tx demo_store) m) s0;
     s2 = set_client 0 (Active (begin_tx demo_store) m) s1;
     s3 = set_client 0 (Active demo_tx m) s2;
     s4 = s3\<lparr>sy_store := demo_store\<lparr>st_committed := Timestamp 100\<rparr>, sy_lock := Some (0, Timestamp 100)\<rparr>;
     s5 = set_client 0 (Finished (Inr (Timestamp 100))) (s4\<lparr>sy_store := demo_after, sy_lock := None\<rparr>)
   in [s0, s1, s2, s3, s4, s5] ! k)"

lemma demo_sys_simps:
  "demo_sys 0 = fresh_sys demo_store"
  "demo_sys (Suc 0) = set_client 1 (Active (begin_tx demo_store) (view demo_env (st_db demo_store))) (demo_sys 0)"
  "demo_sys 2 = set_client 0 (Active (begin_tx demo_store) (view demo_env (st_db demo_store))) (demo_sys (Suc 0))"
  "demo_sys 3 = set_client 0 (Active demo_tx (view demo_env (st_db demo_store))) (demo_sys 2)"
  "demo_sys 4 = (demo_sys 3)\<lparr>sy_store := demo_store\<lparr>st_committed := Timestamp 100\<rparr>,
    sy_lock := Some (0, Timestamp 100)\<rparr>"
  "demo_sys 5 = set_client 0 (Finished (Inr (Timestamp 100))) ((demo_sys 4)\<lparr>sy_store := demo_after, sy_lock := None\<rparr>)"
  by (simp_all add: demo_sys_def Let_def numeral_nat)

lemma demo_run: "k \<le> 5 \<Longrightarrow> reach demo_env strict (fresh_sys demo_store) (demo_sys k)"
proof -
  have 1: "step demo_env strict (demo_sys 0) (demo_sys (Suc 0))"
    using step.start [of "demo_sys 0" 1 strict demo_env] by (simp add: demo_sys_simps fresh_sys_def)
  have 2: "step demo_env strict (demo_sys (Suc 0)) (demo_sys 2)"
    using step.start [of "demo_sys (Suc 0)" 0 strict demo_env] by (simp add: demo_sys_simps fresh_sys_def)
  have 3: "step demo_env strict (demo_sys 2) (demo_sys 3)"
    using step.buffer [of "demo_sys 2" 0 "begin_tx demo_store" _ demo_env strict demo_triple DEFAULT_GRAPH Auto]
    by (simp add: demo_sys_simps fresh_sys_def demo_tx_def tx_insert_def)
  have 4: "step demo_env strict (demo_sys 3) (demo_sys 4)"
    unfolding demo_sys_simps(5)
    by (rule step.publish [of _ _ demo_tx "view demo_env (st_db demo_store)" "Timestamp 100"])
      (use demo_tx_ok demo_tx_fields demo_time in \<open>simp_all add: demo_sys_simps fresh_sys_def begin_commit_eq\<close>)
  have 5: "step demo_env strict (demo_sys 4) (demo_sys 5)"
    unfolding demo_sys_simps(6)
    by (rule step.land [of _ _ demo_tx "view demo_env (st_db demo_store)"])
      (use demo_commit demo_tx_fields commit_two_steps [of demo_tx demo_env "Timestamp 100" demo_store]
        in \<open>simp_all add: demo_sys_simps fresh_sys_def demo_time\<close>)
  note r0 = reach_init [of demo_env strict "fresh_sys demo_store", folded demo_sys_simps(1)]
  note r1 = reach_step [OF r0 1] and r2 = reach_step [OF reach_step [OF r0 1] 2]
  note r3 = reach_step [OF r2 3]
  note r4 = reach_step [OF r3 4]
  note r5 = reach_step [OF r4 5]
  assume "k \<le> 5"
  then consider "k = 0" | "k = Suc 0" | "k = 2" | "k = 3" | "k = 4" | "k = 5" by linarith
  then show ?thesis by cases (use r0 r1 r2 r3 r4 r5 in \<open>simp_all add: demo_sys_simps(1)\<close>)
qed

lemma demo_sys_fields:
  "sy_clients (demo_sys 5) 1 = Active (begin_tx demo_store) (view demo_env (st_db demo_store))"
  "sy_store (demo_sys 5) = demo_after"
  by (simp_all add: demo_sys_simps fresh_sys_def)


text \<open>A client that read the latest time begins, replaces the value and publishes.\<close>

definition demo_sys2 :: "ref_db sys" where
  "demo_sys2 = (set_client 0 (Active demo_replace (view demo_env (st_db demo_after))) (fresh_sys demo_after))
    \<lparr>sy_store := demo_after\<lparr>st_committed := Timestamp 200\<rparr>, sy_lock := Some (0, Timestamp 200)\<rparr>"

lemma demo_run2: "reach demo_env strict (fresh_sys demo_after) demo_sys2"
proof -
  let ?m = "view demo_env (st_db demo_after)"
  let ?s1 = "set_client 0 (Active (begin_tx demo_after) ?m) (fresh_sys demo_after)"
  let ?s2 = "set_client 0 (Active demo_replace ?m) (fresh_sys demo_after)"
  have 1: "step demo_env strict (fresh_sys demo_after) ?s1"
    using step.start [of "fresh_sys demo_after" 0 strict demo_env] by (simp add: fresh_sys_def)
  have "begin_tx demo_after = tx_new (Timestamp 100)"
    by (simp add: begin_tx_def read_ts_def demo_after_fields)
  then have 2: "step demo_env strict ?s1 ?s2"
    using step.buffer [of ?s1 0 "tx_new (Timestamp 100)" ?m demo_env strict demo_new_triple DEFAULT_GRAPH Replace]
    by (simp add: demo_replace_def set_client_def fresh_sys_def)
  have 3: "step demo_env strict ?s2 demo_sys2"
    unfolding demo_sys2_def
    by (rule step.publish [of _ _ demo_replace ?m "Timestamp 200"])
      (use demo_replace_ok demo_replace_fields demo_time2 in
        \<open>simp_all add: fresh_sys_def begin_commit_eq demo_after_fields demo_tx_fields
          less_timestamp_def less_eq_timestamp_def END_OF_TIME_def\<close>)
  show ?thesis
    by (rule reach_step [OF reach_step [OF reach_step [OF reach_init 1] 2] 3])
qed

lemma demo_sys2_fields:
  "sy_clients demo_sys2 0 = Active demo_replace (view demo_env (st_db demo_after))"
  "sy_lock demo_sys2 = Some (0, Timestamp 200)"
  "sy_store demo_sys2 = demo_after\<lparr>st_committed := Timestamp 200\<rparr>"
  "commit_body demo_env demo_replace (Timestamp 200) (sy_store demo_sys2) = (Inr (Timestamp 200), demo_replaced)"
  using demo_commit2 commit_two_steps [of demo_replace demo_env "Timestamp 200" demo_after]
  by (simp_all add: demo_sys2_def demo_replace_fields demo_time2)

end
