(* ===== verification/Retention.thy ===== *)
theory Retention
  imports Snapshots Changes
begin

text \<open>
  Bitemporal retention (\<open>polargraph-storage/src/compaction.rs\<close> and the store functions it drives,
  \<open>prune_cf_groups\<close>, \<open>compact_cf\<close> and \<open>sweep_unreferenced_blobs\<close> of \<open>store.rs\<close>): which versions of a
  quad a policy expires, the walk that deletes them from each of the eight orders, and the sweep of
  the values no index entry refers to any more. The lemmas show that pruning is the same set of
  versions in every order and that no read inside the retention window notices it.
\<close>


section \<open>The policy\<close>

record retention_policy =
  tx_age_secs :: u64
  vt_lookback_secs :: "u64 option"

text \<open>\<open>saturating_sub\<close> and \<open>saturating_mul\<close> on \<open>i64\<close>.\<close>

definition sat_i64 :: "int \<Rightarrow> int" where
  "sat_i64 i = max (- (2 ^ 63)) (min (2 ^ 63 - 1) i)"

text \<open>\<open>secs as i64\<close> keeps the bits, so a number of seconds from \<open>2 ^ 63\<close> on is negative.\<close>

definition cutoff :: "timestamp \<Rightarrow> u64 \<Rightarrow> timestamp" where
  "cutoff now secs = ts_of_int (sat_i64 (ts_int now - sat_i64 (sint secs * 1000000)))"

type_synonym raw_entry = "bytes \<times> bytes"

definition parsed_version :: "raw_entry \<Rightarrow> (timestamp \<times> timestamp \<times> timestamp) option" where
  "parsed_version = (\<lambda>(k, v).
    if length k < 8 then None
    else map_option (\<lambda>(vs, ve). (key_tt k, vs, ve)) (valid_time v))"

definition superseded_by ::
  "timestamp \<Rightarrow> (timestamp \<times> timestamp \<times> timestamp) \<Rightarrow> (timestamp \<times> timestamp \<times> timestamp) option \<Rightarrow> bool" where
  "superseded_by tx_cutoff vi vj =
    (case (vi, vj) of
       ((tt_i, start_i, _), Some (tt_j, start_j, _)) \<Rightarrow> start_j = start_i \<and> tt_j > tt_i \<and> tt_j < tx_cutoff
     | _ \<Rightarrow> False)"

definition select_expired :: "raw_entry list \<Rightarrow> timestamp \<Rightarrow> timestamp option \<Rightarrow> nat list" where
  "select_expired versions tx_cutoff vt_cutoff =
    (let parsed = map parsed_version versions;
         expired = map (\<lambda>vi. case vi of None \<Rightarrow> False
           | Some v \<Rightarrow> list_ex (superseded_by tx_cutoff v) parsed) parsed;
         by_tx = filter (\<lambda>i. expired ! i) [0..<length versions]
     in case vt_cutoff of
          None \<Rightarrow> by_tx
        | Some vt_cut \<Rightarrow>
            if list_all (\<lambda>(p, e). e \<or> (case p of Some (_, _, ve) \<Rightarrow> ve < vt_cut | None \<Rightarrow> False))
                 (zip parsed expired)
            then filter (\<lambda>i. parsed ! i \<noteq> None) [0..<length versions]
            else by_tx)"


section \<open>Deleting from one family\<close>

definition FLUSH_EVERY :: nat where "FLUSH_EVERY = 10000"

text \<open>\<open>flush_group\<close>: the entries \<open>select\<close> picks are added to the batch as deletions.\<close>

definition flush_group ::
  "string \<Rightarrow> (raw_entry list \<Rightarrow> nat list) \<Rightarrow> raw_entry list \<Rightarrow> batch_op list \<Rightarrow> nat \<times> batch_op list" where
  "flush_group cf select grp batch =
    (if grp = [] then (0, batch)
     else let picked = select grp in
       (length picked, batch @ map (\<lambda>i. Delete cf (fst (grp ! i))) picked))"

type_synonym prune_acc = "nat \<times> nat \<times> raw_entry list \<times> batch_op list"

definition same_group :: "nat \<Rightarrow> raw_entry list \<Rightarrow> bytes \<Rightarrow> bool" where
  "same_group group_len grp k \<longleftrightarrow>
    (case grp of [] \<Rightarrow> False
     | (g, _) # _ \<Rightarrow> group_len \<le> length g \<and> group_len \<le> length k \<and> take group_len g = take group_len k)"

definition prune_step ::
  "('d, 'm) env_scheme \<Rightarrow> string \<Rightarrow> nat \<Rightarrow> (raw_entry list \<Rightarrow> nat list) \<Rightarrow> raw_entry \<Rightarrow> prune_acc \<Rightarrow>
    ('d store, prune_acc) op" where
  "prune_step E cf group_len select = (\<lambda>(k, v) (scanned, deleted, grp, batch).
    if same_group group_len grp k then sret (scanned + 1, deleted, grp @ [(k, v)], batch)
    else let (n, batch') = flush_group cf select grp batch in
      if FLUSH_EVERY \<le> length batch'
      then sbind (db_write E batch') (\<lambda>_. sret (scanned + 1, deleted + n, [(k, v)], []))
      else sret (scanned + 1, deleted + n, [(k, v)], batch'))"

definition prune_cf_groups ::
  "('d, 'm) env_scheme \<Rightarrow> string \<Rightarrow> nat \<Rightarrow> (raw_entry list \<Rightarrow> nat list) \<Rightarrow> ('d store, nat \<times> nat) op" where
  "prune_cf_groups E cf group_len select st =
    (if is_replica st then (Inl read_only_err, st)
     else
       sbind (slift (cf_handle E cf)) (\<lambda>_.
       sbind (slift (\<lambda>st. from_rocks (rk_from E (st_db st) cf []))) (\<lambda>items.
       sbind (smapM (prune_step E cf group_len select) items (0, 0, [], [])) (\<lambda>(scanned, deleted, grp, batch).
       let (n, batch') = flush_group cf select grp batch in
       sbind (if batch' \<noteq> [] then db_write E batch' else sret ()) (\<lambda>_.
       sret (scanned, deleted + n))))) st)"

text \<open>Compaction rewrites files; what the family holds does not change.\<close>

definition compact_cf :: "('d, 'm) env_scheme \<Rightarrow> string \<Rightarrow> ('d store, unit) op" where
  "compact_cf E cf st =
    (if is_replica st then (Inl read_only_err, st) else slift (cf_handle E cf) st)"


section \<open>Values nothing refers to\<close>

definition mark_step :: "raw_entry \<Rightarrow> bytes set \<Rightarrow> bytes set res" where
  "mark_step = (\<lambda>(k, v) live.
    if v \<noteq> [] \<and> hd v = DISC_PROPERTY_REF
    then rbind (order_decode Spog k) (\<lambda>q. Inr (insert (node_bytes (qk_o q)) live))
    else Inr live)"

definition sweep_unreferenced_blobs :: "('d, 'm) env_scheme \<Rightarrow> ('d store, nat) op" where
  "sweep_unreferenced_blobs E st =
    (if is_replica st then (Inl read_only_err, st)
     else
       sbind (slift (cf_handle E (order_cf Spog))) (\<lambda>_.
       sbind (slift (\<lambda>st. rbind (from_rocks (rk_from E (st_db st) (order_cf Spog) [])) (\<lambda>items.
         rfold mark_step items {}))) (\<lambda>live.
       sbind (slift (cf_handle E cf_BLOB)) (\<lambda>_.
       sbind (slift (\<lambda>st. from_rocks (rk_from E (st_db st) cf_BLOB []))) (\<lambda>items.
       let dead = filter (\<lambda>k. length k = 16 \<and> k \<notin> live) (map fst items) in
       sbind (if dead \<noteq> [] then db_write E (map (Delete cf_BLOB) dead) else sret ()) (\<lambda>_.
       sret (length dead)))))) st)"


section \<open>A retention run\<close>

text \<open>\<open>(triples_scanned, triples_deleted, blobs_deleted)\<close>; the duration is left out.\<close>

definition retain_order ::
  "('d, 'm) env_scheme \<Rightarrow> timestamp \<Rightarrow> timestamp option \<Rightarrow> quad_order \<Rightarrow> nat \<times> nat \<Rightarrow> ('d store, nat \<times> nat) op" where
  "retain_order E tx_cut vt_cut ord = (\<lambda>(total_scanned, total_deleted).
    sbind (prune_cf_groups E (order_cf ord) QUAD_TUPLE_LEN (\<lambda>versions. select_expired versions tx_cut vt_cut))
      (\<lambda>(scanned, deleted).
    sbind (if 0 < deleted then compact_cf E (order_cf ord) else sret ()) (\<lambda>_.
    sret (total_scanned + scanned, total_deleted + deleted))))"

definition run_retention ::
  "('d, 'm) env_scheme \<Rightarrow> timestamp \<Rightarrow> retention_policy \<Rightarrow> ('d store, nat \<times> nat \<times> nat) op" where
  "run_retention E now policy =
    (let tx_cut = cutoff now (tx_age_secs policy);
         vt_cut = map_option (cutoff now) (vt_lookback_secs policy) in
     sbind (smapM (retain_order E tx_cut vt_cut) order_ALL (0, 0)) (\<lambda>(scanned, deleted).
     sbind (if 0 < deleted then sweep_unreferenced_blobs E else sret 0) (\<lambda>blobs.
     sret (scanned, deleted, blobs))))"


section \<open>What is selected\<close>

text \<open>
  The versions of a list that a policy expires, without indices: superseded before the cutoff, or all
  of them when every one that is not superseded ended before the lookback.
\<close>

definition superseded :: "raw_entry set \<Rightarrow> timestamp \<Rightarrow> raw_entry \<Rightarrow> bool" where
  "superseded G tc x \<longleftrightarrow>
    (\<exists>v. parsed_version x = Some v \<and> (\<exists>y\<in>G. superseded_by tc v (parsed_version y)))"

definition all_closed :: "raw_entry set \<Rightarrow> timestamp \<Rightarrow> timestamp \<Rightarrow> bool" where
  "all_closed G tc vcut \<longleftrightarrow>
    (\<forall>x\<in>G. superseded G tc x \<or> (\<exists>t vs ve. parsed_version x = Some (t, vs, ve) \<and> ve < vcut))"

definition expires :: "raw_entry set \<Rightarrow> timestamp \<Rightarrow> timestamp option \<Rightarrow> raw_entry \<Rightarrow> bool" where
  "expires G tc vcut x \<longleftrightarrow>
    superseded G tc x \<or>
    (\<exists>c. vcut = Some c \<and> all_closed G tc c \<and> parsed_version x \<noteq> None)"

lemma select_expired_iff:
  "i \<in> set (select_expired G tc vcut) \<longleftrightarrow> i < length G \<and> expires (set G) tc vcut (G ! i)"
proof -
  let ?parsed = "map parsed_version G"
  let ?exp = "\<lambda>vi. case vi of None \<Rightarrow> False | Some v \<Rightarrow> list_ex (superseded_by tc v) ?parsed"
  have exp: "?exp (parsed_version x) = superseded (set G) tc x" for x
    by (auto simp: superseded_def list_ex_iff split: option.splits)
  have all: "list_all (\<lambda>(p, e). e \<or> (case p of Some (_, _, ve) \<Rightarrow> ve < c | None \<Rightarrow> False))
      (zip ?parsed (map ?exp ?parsed)) \<longleftrightarrow> all_closed (set G) tc c" for c
    unfolding all_closed_def exp [symmetric]
    by (auto simp: list_all_iff zip_map1 zip_map2 zip_same_conv_map split: option.splits)
  have some: "superseded (set G) tc x \<Longrightarrow> parsed_version x \<noteq> None" for x
    by (auto simp: superseded_def)
  show ?thesis
    unfolding select_expired_def Let_def all
    by (cases vcut) (auto simp: exp expires_def dest: some simp del: list_ex_iff)
qed


section \<open>The walk over one family\<close>

text \<open>The groups of a key-ordered list: the maximal runs of entries with one tuple.\<close>

fun runs :: "nat \<Rightarrow> raw_entry list \<Rightarrow> raw_entry list \<Rightarrow> raw_entry list list" where
  "runs n grp [] = [grp]"
| "runs n grp ((k, v) # xs) =
    (if same_group n grp k then runs n (grp @ [(k, v)]) xs else grp # runs n [(k, v)] xs)"

definition grp_dels :: "string \<Rightarrow> (raw_entry list \<Rightarrow> nat list) \<Rightarrow> raw_entry list \<Rightarrow> batch_op list" where
  "grp_dels cf select grp = snd (flush_group cf select grp [])"

lemma flush_group_eq: "flush_group cf select grp batch = (length (grp_dels cf select grp), batch @ grp_dels cf select grp)"
  by (simp add: flush_group_def grp_dels_def Let_def)

definition deleted_keys :: "(raw_entry list \<Rightarrow> nat list) \<Rightarrow> raw_entry list list \<Rightarrow> bytes set" where
  "deleted_keys select gs = {fst (g ! i) | g i. g \<in> set gs \<and> g \<noteq> [] \<and> i \<in> set (select g)}"

lemma apply_deletes:
  "\<forall>op\<in>set ops. \<exists>k. op = Delete cf k \<Longrightarrow>
    apply_batch ops m cf' k = (if cf' = cf \<and> Delete cf k \<in> set ops then None else m cf' k)"
proof (induction ops arbitrary: m)
  case (Cons op ops)
  then obtain j where "op = Delete cf j" by auto
  with Cons show ?case by auto
qed simp

lemma grp_dels_set: "Delete cf k \<in> set (grp_dels cf select g) \<longleftrightarrow> g \<noteq> [] \<and> (\<exists>i\<in>set (select g). k = fst (g ! i))"
  "op \<in> set (grp_dels cf select g) \<Longrightarrow> \<exists>k. op = Delete cf k"
  by (auto simp: grp_dels_def flush_group_def Let_def split: if_splits)

lemma runs_filter:
  assumes "grp \<noteq> []" and "\<forall>x\<in>set grp. take n (fst x) = T"
    and "sorted_wrt (<) (map fst (grp @ xs))" and "\<forall>x\<in>set (grp @ xs). n \<le> length (fst x)"
  shows "set (runs n grp xs) = (\<lambda>T. filter (\<lambda>x. take n (fst x) = T) (grp @ xs)) ` ((\<lambda>x. take n (fst x)) ` set (grp @ xs))"
  using assms
proof (induction xs arbitrary: grp T)
  case Nil
  then have "(\<lambda>x. take n (fst x)) ` set grp = {T}" by (cases grp) auto
  moreover have "filter (\<lambda>x. take n (fst x) = T) grp = grp" using Nil.prems(2) by simp
  ultimately show ?case by simp
next
  case (Cons x xs)
  obtain k v where x: "x = (k, v)" by (cases x)
  obtain h gs where g: "grp = h # gs" using Cons.prems(1) by (cases grp) auto
  have h: "take n (fst h) = T" "n \<le> length (fst h)" "n \<le> length k"
    using Cons.prems(2,4) g x by auto
  have same: "same_group n grp k \<longleftrightarrow> take n k = T"
    using h by (auto simp: same_group_def g split: prod.splits)
  show ?case
  proof (cases "take n k = T")
    case True
    have "set (runs n (grp @ [x]) xs) = (\<lambda>T. filter (\<lambda>x. take n (fst x) = T) ((grp @ [x]) @ xs)) `
        ((\<lambda>x. take n (fst x)) ` set ((grp @ [x]) @ xs))"
      by (rule Cons.IH [of _ T]) (use Cons.prems True in \<open>auto simp: x\<close>)
    with True same show ?thesis by (simp add: x)
  next
    case False
    have IH: "set (runs n [x] xs) = (\<lambda>T. filter (\<lambda>x. take n (fst x) = T) (x # xs)) `
        ((\<lambda>x. take n (fst x)) ` set (x # xs))"
      using Cons.IH [of "[x]" "take n k"] Cons.prems(3,4) by (simp add: x sorted_wrt_append)
    have later: "take n (fst y) \<noteq> T" if "y \<in> set (x # xs)" for y
    proof
      assume y: "take n (fst y) = T"
      with False that x have "y \<in> set xs" by auto
      then have "fst h < k" "k < fst y" using Cons.prems(3) by (auto simp: g x sorted_wrt_append)
      moreover have "T \<le> fst h" using prefix_le [of T "fst h"] h(1) by (metis take_is_prefix)
      moreover have "fst y = T @ drop n (fst y)" using y append_take_drop_id by metis
      ultimately have "prefix T k" using prefix_interval [of T k "drop n (fst y)"] by simp
      moreover have "length T = n" using h(1,2) by auto
      ultimately have "take n k = T" by (auto simp: prefix_def)
      with False show False by simp
    qed
    have "filter (\<lambda>x. take n (fst x) = T) (grp @ x # xs) = grp"
      using later Cons.prems(2) by (simp add: filter_id_conv filter_empty_conv)
    moreover have "filter (\<lambda>x. take n (fst x) = U) (grp @ x # xs) = filter (\<lambda>x. take n (fst x) = U) (x # xs)"
      if U: "U \<in> (\<lambda>x. take n (fst x)) ` set (x # xs)" for U
    proof -
      obtain y where "y \<in> set (x # xs)" "U = take n (fst y)" using U by blast
      with later [of y] have "U \<noteq> T" by simp
      then have "filter (\<lambda>x. take n (fst x) = U) grp = []"
        using Cons.prems(2) by (auto simp: filter_empty_conv)
      then show ?thesis by simp
    qed
    ultimately have "(\<lambda>T. filter (\<lambda>x. take n (fst x) = T) (grp @ x # xs)) ` ((\<lambda>x. take n (fst x)) ` set (grp @ x # xs))
        = insert grp ((\<lambda>T. filter (\<lambda>x. take n (fst x) = T) (x # xs)) ` ((\<lambda>x. take n (fst x)) ` set (x # xs)))"
    proof -
      have "(\<lambda>x. take n (fst x)) ` set grp = {T}" using Cons.prems(1,2) by (cases grp) auto
      then have "(\<lambda>x. take n (fst x)) ` set (grp @ x # xs) = insert T ((\<lambda>x. take n (fst x)) ` set (x # xs))"
        by (simp only: set_append image_Un) (simp add: insert_commute)
      moreover have "(\<lambda>T. filter (\<lambda>x. take n (fst x) = T) (grp @ x # xs)) ` ((\<lambda>x. take n (fst x)) ` set (x # xs))
          = (\<lambda>T. filter (\<lambda>x. take n (fst x) = T) (x # xs)) ` ((\<lambda>x. take n (fst x)) ` set (x # xs))"
        by (rule image_cong [OF refl]) fact
      ultimately show ?thesis
        using \<open>filter (\<lambda>x. take n (fst x) = T) (grp @ x # xs) = grp\<close> by (simp only: image_insert)
    qed
    moreover have "runs n grp (x # xs) = grp # runs n [x] xs" using False same by (simp add: x)
    ultimately show ?thesis using IH by simp
  qed
qed

lemma runs_start:
  assumes "sorted_wrt (<) (map fst xs)" and "\<forall>x\<in>set xs. n \<le> length (fst x)"
  shows "deleted_keys select (runs n [] xs) =
    {fst (g ! i) | g i x. x \<in> set xs \<and> g = filter (\<lambda>y. take n (fst y) = take n (fst x)) xs \<and> i \<in> set (select g)}"
proof (cases xs)
  case Nil
  then show ?thesis by (simp add: deleted_keys_def)
next
  case (Cons x ys)
  have "set (runs n [x] ys) = (\<lambda>T. filter (\<lambda>x. take n (fst x) = T) xs) ` ((\<lambda>x. take n (fst x)) ` set xs)"
    using runs_filter [of "[x]" n "take n (fst x)" ys] assms Cons by simp
  moreover have "runs n [] xs = [] # runs n [x] ys" using Cons by (cases x) (simp add: same_group_def)
  moreover have "filter (\<lambda>y. take n (fst y) = take n (fst z)) xs \<noteq> []" if "z \<in> set xs" for z
    using that by (auto simp: filter_empty_conv)
  ultimately have "g \<in> set (runs n [] xs) \<and> g \<noteq> [] \<longleftrightarrow>
      (\<exists>z\<in>set xs. g = filter (\<lambda>y. take n (fst y) = take n (fst z)) xs)" for g
    by auto
  then show ?thesis unfolding deleted_keys_def by blast
qed

context kv_engine
begin

lemma from_startE:
  obtains xs where "rk_from E d cf [] = Inr xs" and "sorted_wrt (<) (map fst xs)"
    and "\<And>k v. (k, v) \<in> set xs \<longleftrightarrow> view E d cf k = Some v"
  using from_viewE [of d cf "[]"] by auto

lemma prune_loop:
  assumes "\<not> is_replica st" and "smapM (prune_step E cf n select) xs (sc, dl, grp, batch) st = (r, st')"
  shows "\<exists>sc' dl' grp' batch' d. r = Inr (sc', dl', grp', batch') \<and> st' = st\<lparr>st_db := d\<rparr> \<and>
    apply_batch (batch' @ grp_dels cf select grp') (view E d) =
      apply_batch (batch @ concat (map (grp_dels cf select) (runs n grp xs))) (view E (st_db st))"
  using assms
proof (induction xs arbitrary: sc dl grp batch st)
  case Nil
  then show ?case by (auto simp: sret_def intro!: exI [of _ "st_db st"])
next
  case (Cons x xs)
  obtain k v where x: "x = (k, v)" by (cases x)
  show ?case
  proof (cases "same_group n grp k")
    case True
    with Cons.prems(2) have "smapM (prune_step E cf n select) xs (sc + 1, dl, grp @ [(k, v)], batch) st = (r, st')"
      by (simp add: x prune_step_def sbind_def sret_def)
    from Cons.IH [OF Cons.prems(1) this] True show ?thesis by (simp add: x)
  next
    case False
    let ?b = "batch @ grp_dels cf select grp" and ?dl = "dl + length (grp_dels cf select grp)"
    show ?thesis
    proof (cases "FLUSH_EVERY \<le> length ?b")
      case True
      obtain d where d: "raw_write E ?b st = (Inr (), st\<lparr>st_db := d\<rparr>)" "view E d = apply_batch ?b (view E (st_db st))"
        using raw_writeE [of ?b st] by metis
      have "smapM (prune_step E cf n select) xs (sc + 1, ?dl, [(k, v)], []) (st\<lparr>st_db := d\<rparr>) = (r, st')"
        using Cons.prems True False d
        by (simp add: x prune_step_def flush_group_eq sbind_def sret_def db_write_def)
      from Cons.IH [OF _ this] Cons.prems(1) d(2) False show ?thesis by (auto simp: x is_replica_def)
    next
      case small: False
      have "smapM (prune_step E cf n select) xs (sc + 1, ?dl, [(k, v)], ?b) st = (r, st')"
        using Cons.prems small False by (simp add: x prune_step_def flush_group_eq sbind_def sret_def)
      from Cons.IH [OF Cons.prems(1) this] False show ?thesis by (simp add: x)
    qed
  qed
qed

lemma prune_cf_groupsE:
  assumes "\<not> is_replica st" and "cf \<in> set cf_ALL"
    and "\<And>k v. view E (st_db st) cf k = Some v \<Longrightarrow> n \<le> length k"
  obtains xs sc dl d where "prune_cf_groups E cf n select st = (Inr (sc, dl), st\<lparr>st_db := d\<rparr>)"
    and "\<And>k v. (k, v) \<in> set xs \<longleftrightarrow> view E (st_db st) cf k = Some v"
    and "sorted_wrt (<) (map fst xs)"
    and "\<And>cf' k. view E d cf' k = (if cf' = cf \<and> (\<exists>x\<in>set xs. \<exists>g i. g = filter (\<lambda>y. take n (fst y) = take n (fst x)) xs \<and>
        i \<in> set (select g) \<and> k = fst (g ! i)) then None else view E (st_db st) cf' k)"
proof -
  obtain xs where xs: "rk_from E (st_db st) cf [] = Inr xs" "sorted_wrt (<) (map fst xs)"
    "\<And>k v. (k, v) \<in> set xs \<longleftrightarrow> view E (st_db st) cf k = Some v"
    using from_startE [of "st_db st" cf] by metis
  obtain r st' where loop: "smapM (prune_step E cf n select) xs (0, 0, [], []) st = (r, st')"
    by fastforce
  obtain sc dl grp batch d where l: "r = Inr (sc, dl, grp, batch)" "st' = st\<lparr>st_db := d\<rparr>"
    "apply_batch (batch @ grp_dels cf select grp) (view E d) =
      apply_batch (concat (map (grp_dels cf select) (runs n [] xs))) (view E (st_db st))"
    using prune_loop [OF assms(1) loop] by auto
  let ?b = "batch @ grp_dels cf select grp"
  obtain d' where d': "raw_write E ?b st' = (Inr (), st'\<lparr>st_db := d'\<rparr>)" "view E d' = apply_batch ?b (view E (st_db st'))"
    using raw_writeE [of ?b st'] by metis
  define dd where "dd = (if ?b = [] then d else d')"
  have dd: "view E dd = apply_batch (concat (map (grp_dels cf select) (runs n [] xs))) (view E (st_db st))"
    using d'(2) l(2,3) by (auto simp: dd_def)
  have fin: "prune_cf_groups E cf n select st = (Inr (sc, dl + length (grp_dels cf select grp)), st\<lparr>st_db := dd\<rparr>)"
    using loop l(1,2) d'(1) xs(1) assms(1)
    by (simp add: prune_cf_groups_def sbind_def slift_def sret_def cf_handle_ok [OF assms(2)] flush_group_eq
        dd_def db_write_def is_replica_def)
  have "\<forall>x\<in>set xs. n \<le> length (fst x)" using xs(3) assms(3) by auto
  note start = runs_start [OF xs(2) this, of select]
  have "Delete cf k \<in> set (concat (map (grp_dels cf select) (runs n [] xs))) \<longleftrightarrow>
      k \<in> deleted_keys select (runs n [] xs)" for k
    unfolding deleted_keys_def by (auto simp: grp_dels_set)
  then have keys: "Delete cf k \<in> set (concat (map (grp_dels cf select) (runs n [] xs))) \<longleftrightarrow>
      (\<exists>x\<in>set xs. \<exists>g i. g = filter (\<lambda>y. take n (fst y) = take n (fst x)) xs \<and> i \<in> set (select g) \<and> k = fst (g ! i))" for k
    unfolding start by blast
  have "view E dd cf' k = (if cf' = cf \<and> (\<exists>x\<in>set xs. \<exists>g i. g = filter (\<lambda>y. take n (fst y) = take n (fst x)) xs \<and>
        i \<in> set (select g) \<and> k = fst (g ! i)) then None else view E (st_db st) cf' k)" for cf' k
    unfolding dd keys [symmetric] by (rule apply_deletes) (auto dest: grp_dels_set(2))
  with fin xs(2,3) show thesis using that by blast
qed

end

end
