(* ===== verification/Retention_Facts.thy ===== *)
theory Retention_Facts
  imports Retention
begin

text \<open>
  Retention keeps the store sound and every read inside its window the same: the versions a policy
  expires are the same in the eight orders (\<open>drops\<close>), none of them governs a quad at a transaction
  time from the cutoff on, unless the whole quad had ended before the valid-time lookback, and the
  sweep keeps every value an index entry still refers to.
\<close>


section \<open>The versions that go\<close>

definition shadowed :: "contents \<Rightarrow> timestamp \<Rightarrow> quad_ids \<Rightarrow> timestamp \<Rightarrow> bool" where
  "shadowed m tc ids t \<longleftrightarrow>
    (\<exists>b vs ve u b' ve'. version_at m ids t = Some b \<and> valid_time b = Some (vs, ve) \<and>
      version_at m ids u = Some b' \<and> valid_time b' = Some (vs, ve') \<and> t < u \<and> u < tc)"

definition ended :: "contents \<Rightarrow> timestamp \<Rightarrow> timestamp \<Rightarrow> quad_ids \<Rightarrow> bool" where
  "ended m tc c ids \<longleftrightarrow>
    (\<forall>t b. version_at m ids t = Some b \<longrightarrow>
      shadowed m tc ids t \<or> (\<exists>vs ve. valid_time b = Some (vs, ve) \<and> ve < c))"

definition drops :: "contents \<Rightarrow> timestamp \<Rightarrow> timestamp option \<Rightarrow> quad_ids \<Rightarrow> timestamp \<Rightarrow> bool" where
  "drops m tc vc ids t \<longleftrightarrow>
    shadowed m tc ids t \<or>
    (\<exists>c b. vc = Some c \<and> ended m tc c ids \<and> version_at m ids t = Some b \<and> valid_time b \<noteq> None)"

definition entries :: "quad_order \<Rightarrow> contents \<Rightarrow> quad_ids \<Rightarrow> raw_entry set" where
  "entries ord m ids = {(order_encode ord (quad_of_ids ids t), b) | t b. version_at m ids t = Some b}"

lemma parsed_entry:
  "parsed_version (order_encode ord (quad_of_ids ids t), b) = map_option (\<lambda>(vs, ve). (t, vs, ve)) (valid_time b)"
  by (simp add: parsed_version_def)

lemma superseded_by_entry:
  "superseded_by tc (t, vs, ve) (map_option (Pair u) x) \<longleftrightarrow>
    (\<exists>ve'. x = Some (vs, ve') \<and> t < u \<and> u < tc)"
  by (cases x) (auto simp: superseded_by_def)

lemma entries_Ex:
  "(\<exists>y\<in>entries ord m ids. P y) \<longleftrightarrow>
    (\<exists>u b. version_at m ids u = Some b \<and> P (order_encode ord (quad_of_ids ids u), b))"
  unfolding entries_def by blast

lemma entries_All:
  "(\<forall>y\<in>entries ord m ids. P y) \<longleftrightarrow>
    (\<forall>u b. version_at m ids u = Some b \<longrightarrow> P (order_encode ord (quad_of_ids ids u), b))"
  unfolding entries_def by blast

lemma superseded_entry:
  assumes "version_at m ids t = Some b"
  shows "superseded (entries ord m ids) tc (order_encode ord (quad_of_ids ids t), b) \<longleftrightarrow> shadowed m tc ids t"
proof (cases "valid_time b")
  case None
  with assms show ?thesis by (simp add: superseded_def shadowed_def parsed_entry)
next
  case (Some r)
  obtain vs ve where r: "r = (vs, ve)" by (cases r)
  have "superseded (entries ord m ids) tc (order_encode ord (quad_of_ids ids t), b) \<longleftrightarrow>
      (\<exists>u b' ve'. version_at m ids u = Some b' \<and> valid_time b' = Some (vs, ve') \<and> t < u \<and> u < tc)"
    by (simp add: superseded_def parsed_entry Some r entries_Ex superseded_by_entry)
  also have "\<dots> \<longleftrightarrow> shadowed m tc ids t"
    unfolding shadowed_def using assms Some r by simp
  finally show ?thesis .
qed

lemma expires_entry:
  assumes "version_at m ids t = Some b"
  shows "expires (entries ord m ids) tc vc (order_encode ord (quad_of_ids ids t), b) \<longleftrightarrow> drops m tc vc ids t"
proof -
  have p: "(\<exists>t' vs ve. parsed_version (order_encode ord (quad_of_ids ids u), b) = Some (t', vs, ve) \<and> ve < c) \<longleftrightarrow>
      (\<exists>vs ve. valid_time b = Some (vs, ve) \<and> ve < c)" for u b c
    by (cases "valid_time b") (auto simp: parsed_entry)
  have "all_closed (entries ord m ids) tc c \<longleftrightarrow> ended m tc c ids" for c
    unfolding all_closed_def ended_def entries_All p using superseded_entry by blast
  then show ?thesis
    using assms by (simp add: expires_def drops_def superseded_entry parsed_entry)
qed

lemma tuple_ids: "quad_tuple ord (quad_of_ids ids t) = quad_tuple ord (quad_of_ids ids' u) \<longleftrightarrow> ids = ids'"
proof
  obtain s p ob g where ids': "ids' = (s, p, ob, g)" by (cases ids')
  have tt: "quad_tuple ord (quad_of_ids ids' u) = quad_tuple ord (quad_of_ids ids' t)"
    unfolding ids' by (cases ord) (simp_all add: quad_tuple_def quad_of_ids_def)
  assume "quad_tuple ord (quad_of_ids ids t) = quad_tuple ord (quad_of_ids ids' u)"
  then have "quad_of_ids ids t = quad_of_ids ids' t"
    using quad_codec.tuple_version_inject [of ord "quad_of_ids ids t" "quad_of_ids ids' t"] by (simp add: tt)
  then show "ids = ids'" by (metis quad_of_ids_of)
next
  obtain s p ob g where ids': "ids' = (s, p, ob, g)" by (cases ids')
  show "ids = ids' \<Longrightarrow> quad_tuple ord (quad_of_ids ids t) = quad_tuple ord (quad_of_ids ids' u)"
    unfolding ids' by (cases ord) (simp_all add: quad_tuple_def quad_of_ids_def)
qed

lemma order_encode_ids: "order_encode ord (quad_of_ids ids t) = order_encode ord (quad_of_ids ids' u) \<longleftrightarrow> ids = ids' \<and> t = u"
  using quad_codec.enc_inject [of ord] by (metis quad_of_ids_of quad_of_ids_tt)

definition pruned_order :: "contents \<Rightarrow> timestamp \<Rightarrow> timestamp option \<Rightarrow> quad_order \<Rightarrow> bytes \<Rightarrow> bytes option" where
  "pruned_order m tc vc ord k =
    (if \<exists>ids t. k = order_encode ord (quad_of_ids ids t) \<and> drops m tc vc ids t then None else m (order_cf ord) k)"

text \<open>The keys the walk deletes from an order are the versions that go.\<close>

lemma picked_keys:
  assumes ix: "index_ok m" and xs: "\<And>k v. (k, v) \<in> set xs \<longleftrightarrow> m (order_cf ord) k = Some v"
  shows "(\<exists>x\<in>set xs. \<exists>g i. g = filter (\<lambda>y. take QUAD_TUPLE_LEN (fst y) = take QUAD_TUPLE_LEN (fst x)) xs \<and>
      i \<in> set (select_expired g tc vc) \<and> k = fst (g ! i)) \<longleftrightarrow>
    (\<exists>ids t. k = order_encode ord (quad_of_ids ids t) \<and> drops m tc vc ids t)"
proof -
  have at: "(order_encode ord (quad_of_ids ids t), b) \<in> set xs \<longleftrightarrow> version_at m ids t = Some b" for ids t b
    using index_ok_at [OF ix, of ord "quad_of_ids ids t"] by (simp add: xs)
  have form: "\<exists>ids t b. x = (order_encode ord (quad_of_ids ids t), b) \<and> version_at m ids t = Some b"
    if x: "x \<in> set xs" for x
  proof -
    obtain k v where kv: "x = (k, v)" by (cases x)
    with x have "m (order_cf ord) k = Some v" by (simp add: xs)
    with ix obtain q where "k = order_encode ord q" unfolding index_ok_def by blast
    then have "x = (order_encode ord (quad_of_ids (quad_ids_of q) (qk_tt q)), v)" by (simp add: kv)
    with x at show ?thesis by blast
  qed
  have pre: "take QUAD_TUPLE_LEN (order_encode ord (quad_of_ids ids t)) = quad_tuple ord (quad_of_ids ids t)" for ids t
    using quad_codec.take_tuple [of ord "quad_of_ids ids t"] by (simp add: QUAD_TUPLE_LEN_def QUAD_KEY_LEN_def)
  have grp: "set (filter (\<lambda>y. take QUAD_TUPLE_LEN (fst y) = take QUAD_TUPLE_LEN (order_encode ord (quad_of_ids ids t))) xs)
      = entries ord m ids" for ids t
  proof -
    have "y \<in> set xs \<and> take QUAD_TUPLE_LEN (fst y) = quad_tuple ord (quad_of_ids ids t) \<longleftrightarrow> y \<in> entries ord m ids" for y
    proof
      assume y: "y \<in> set xs \<and> take QUAD_TUPLE_LEN (fst y) = quad_tuple ord (quad_of_ids ids t)"
      then obtain ids' u b where "y = (order_encode ord (quad_of_ids ids' u), b)" "version_at m ids' u = Some b"
        using form by blast
      with y show "y \<in> entries ord m ids" by (auto simp: pre tuple_ids entries_def)
    next
      assume "y \<in> entries ord m ids"
      then show "y \<in> set xs \<and> take QUAD_TUPLE_LEN (fst y) = quad_tuple ord (quad_of_ids ids t)"
        by (auto simp: entries_def at pre tuple_ids)
    qed
    then show ?thesis by (auto simp: pre)
  qed
  have pick: "(\<exists>i. i \<in> set (select_expired g tc vc) \<and> k = fst (g ! i)) \<longleftrightarrow>
      (\<exists>y\<in>set g. expires (set g) tc vc y \<and> k = fst y)" for g
    unfolding select_expired_iff by (metis in_set_conv_nth)
  have "(\<exists>x\<in>set xs. \<exists>g i. g = filter (\<lambda>y. take QUAD_TUPLE_LEN (fst y) = take QUAD_TUPLE_LEN (fst x)) xs \<and>
      i \<in> set (select_expired g tc vc) \<and> k = fst (g ! i)) \<longleftrightarrow>
    (\<exists>x\<in>set xs. \<exists>y\<in>set (filter (\<lambda>y. take QUAD_TUPLE_LEN (fst y) = take QUAD_TUPLE_LEN (fst x)) xs).
      expires (set (filter (\<lambda>y. take QUAD_TUPLE_LEN (fst y) = take QUAD_TUPLE_LEN (fst x)) xs)) tc vc y \<and> k = fst y)"
    using pick by blast
  also have "\<dots> \<longleftrightarrow> (\<exists>ids t b. version_at m ids t = Some b \<and>
      (\<exists>y\<in>entries ord m ids. expires (entries ord m ids) tc vc y \<and> k = fst y))"
    (is "?l \<longleftrightarrow> ?r")
  proof
    assume ?l
    then obtain x y where x: "x \<in> set xs"
      and y: "y \<in> set (filter (\<lambda>y. take QUAD_TUPLE_LEN (fst y) = take QUAD_TUPLE_LEN (fst x)) xs)"
        "expires (set (filter (\<lambda>y. take QUAD_TUPLE_LEN (fst y) = take QUAD_TUPLE_LEN (fst x)) xs)) tc vc y" "k = fst y"
      by blast
    obtain ids t b where i: "x = (order_encode ord (quad_of_ids ids t), b)" "version_at m ids t = Some b"
      using form [OF x] by blast
    from y have "y \<in> entries ord m ids" "expires (entries ord m ids) tc vc y"
      unfolding i(1) fst_conv grp by blast+
    with i(2) y(3) show ?r by blast
  next
    assume ?r
    then obtain ids t b y where i: "version_at m ids t = Some b"
      "y \<in> entries ord m ids" "expires (entries ord m ids) tc vc y" "k = fst y" by blast
    show ?l
    proof (rule bexI [of _ "(order_encode ord (quad_of_ids ids t), b)"])
      show "(order_encode ord (quad_of_ids ids t), b) \<in> set xs" using i(1) at by blast
    qed (unfold fst_conv grp, use i(2-4) in blast)
  qed
  also have "\<dots> \<longleftrightarrow> (\<exists>ids t. k = order_encode ord (quad_of_ids ids t) \<and> drops m tc vc ids t)"
  proof -
    have "(\<exists>y\<in>entries ord m ids. expires (entries ord m ids) tc vc y \<and> k = fst y) \<longleftrightarrow>
        (\<exists>t. k = order_encode ord (quad_of_ids ids t) \<and> drops m tc vc ids t)" for ids
    proof -
      have "\<exists>b. version_at m ids t = Some b" if "drops m tc vc ids t" for t
        using that by (auto simp: drops_def shadowed_def)
      moreover have "(\<exists>y\<in>entries ord m ids. expires (entries ord m ids) tc vc y \<and> k = fst y) \<longleftrightarrow>
          (\<exists>u b. version_at m ids u = Some b \<and> drops m tc vc ids u \<and> k = order_encode ord (quad_of_ids ids u))"
        unfolding entries_Ex fst_conv using expires_entry by blast
      ultimately show ?thesis by blast
    qed
    moreover have "\<exists>t b. version_at m ids t = Some b" if "drops m tc vc ids t" for ids t
      using that by (auto simp: drops_def shadowed_def)
    ultimately show ?thesis by blast
  qed
  finally show ?thesis .
qed


section \<open>A run over the eight orders\<close>

definition pruned :: "contents \<Rightarrow> timestamp \<Rightarrow> timestamp option \<Rightarrow> quad_order set \<Rightarrow> contents \<Rightarrow> bool" where
  "pruned m tc vc ords m' \<longleftrightarrow>
    (\<forall>ord\<in>ords. m' (order_cf ord) = pruned_order m tc vc ord) \<and>
    (\<forall>cf. cf \<notin> order_cf ` ords \<longrightarrow> m' cf = m cf)"

context kv_engine
begin

lemma retain_order_step:
  assumes ix: "index_ok m" and rep: "\<not> is_replica st" and "pruned m tc vc ords (view E (st_db st))"
    and "ord \<notin> ords"
  shows "\<exists>acc' d. retain_order E tc vc ord acc st = (Inr acc', st\<lparr>st_db := d\<rparr>) \<and>
    pruned m tc vc (insert ord ords) (view E d)"
proof -
  have here: "view E (st_db st) (order_cf ord) = m (order_cf ord)"
  proof -
    have "order_cf ord \<notin> order_cf ` ords" using assms(4) by (auto simp: order_cf_inject)
    with assms(3) show ?thesis by (simp add: pruned_def)
  qed
  have cf: "order_cf ord \<in> set cf_ALL" by (cases ord) (simp_all add: cf_ALL_def)
  have len: "QUAD_TUPLE_LEN \<le> length k" if "view E (st_db st) (order_cf ord) k = Some v" for k v
  proof -
    have "m (order_cf ord) k = Some v" using that here by simp
    with ix obtain q where "k = order_encode ord q" unfolding index_ok_def by blast
    then show ?thesis by (simp add: QUAD_TUPLE_LEN_def QUAD_KEY_LEN_def)
  qed
  obtain xs sc dl d where p: "prune_cf_groups E (order_cf ord) QUAD_TUPLE_LEN (\<lambda>v. select_expired v tc vc) st
      = (Inr (sc, dl), st\<lparr>st_db := d\<rparr>)"
    "\<And>k v. (k, v) \<in> set xs \<longleftrightarrow> view E (st_db st) (order_cf ord) k = Some v"
    "\<And>cf' k. view E d cf' k = (if cf' = order_cf ord \<and> (\<exists>x\<in>set xs. \<exists>g i. g = filter (\<lambda>y. take QUAD_TUPLE_LEN (fst y) =
        take QUAD_TUPLE_LEN (fst x)) xs \<and> i \<in> set (select_expired g tc vc) \<and> k = fst (g ! i))
      then None else view E (st_db st) cf' k)"
    by (rule prune_cf_groupsE [OF rep cf len, where select = "\<lambda>v. select_expired v tc vc"]) (assumption, rule that)
  have "view E d (order_cf ord) = pruned_order m tc vc ord"
    unfolding fun_eq_iff p(3) pruned_order_def here picked_keys [OF ix p(2) [unfolded here]] by simp
  moreover have "view E d cf' = view E (st_db st) cf'" if "cf' \<noteq> order_cf ord" for cf'
    using that by (simp add: fun_eq_iff p(3))
  moreover have "order_cf o' \<noteq> order_cf ord" if "o' \<in> ords" for o'
    using that assms(4) by (auto simp: order_cf_inject)
  ultimately have "pruned m tc vc (insert ord ords) (view E d)"
    using assms(3) unfolding pruned_def by auto
  moreover have "\<exists>acc'. retain_order E tc vc ord acc st = (Inr acc', st\<lparr>st_db := d\<rparr>)"
    using p(1) rep cf_handle_ok [OF cf, of "st\<lparr>st_db := d\<rparr>"]
    by (cases acc) (simp add: retain_order_def sbind_def compact_cf_def slift_def sret_def is_replica_def)
  ultimately show ?thesis by blast
qed

lemma retain_orders:
  assumes "index_ok m" and "\<not> is_replica st" and "pruned m tc vc ords (view E (st_db st))"
    and "distinct os" and "set os \<inter> ords = {}"
  shows "\<exists>acc' d. smapM (retain_order E tc vc) os acc st = (Inr acc', st\<lparr>st_db := d\<rparr>) \<and>
    pruned m tc vc (set os \<union> ords) (view E d)"
  using assms
proof (induction os arbitrary: acc st ords)
  case Nil
  then show ?case by (auto simp: sret_def intro!: exI [of _ "st_db st"])
next
  case (Cons ord os)
  obtain acc1 d1 where one: "retain_order E tc vc ord acc st = (Inr acc1, st\<lparr>st_db := d1\<rparr>)"
    "pruned m tc vc (insert ord ords) (view E d1)"
    using retain_order_step [OF Cons.prems(1-3), of ord acc] Cons.prems(5) by auto
  obtain acc' d where "smapM (retain_order E tc vc) os acc1 (st\<lparr>st_db := d1\<rparr>) = (Inr acc', st\<lparr>st_db := d\<rparr>)"
    "pruned m tc vc (set os \<union> insert ord ords) (view E d)"
    using Cons.IH [of "st\<lparr>st_db := d1\<rparr>" "insert ord ords" acc1] Cons.prems one(2)
    by (auto simp: is_replica_def)
  with one(1) show ?case by (auto simp: sbind_def)
qed

lemma mark_fold:
  assumes "\<forall>(k, v)\<in>set xs. \<exists>q. k = order_encode Spog q"
  shows "\<exists>live. rfold mark_step xs live0 = Inr live \<and>
    (\<forall>k. k \<in> live \<longleftrightarrow> k \<in> live0 \<or>
      (\<exists>q v. (order_encode Spog q, v) \<in> set xs \<and> is_ref v \<and> k = node_bytes (qk_o q)))"
  using assms
proof (induction xs arbitrary: live0)
  case (Cons x xs)
  then obtain q v where x: "x = (order_encode Spog q, v)" by (cases x) auto
  define live1 where "live1 = (if is_ref v then insert (node_bytes (qk_o q)) live0 else live0)"
  have one: "mark_step x live0 = Inr live1" by (simp add: x mark_step_def is_ref_def live1_def)
  have mem: "(order_encode Spog q', v') \<in> set (x # xs) \<longleftrightarrow>
      q' = q \<and> v' = v \<or> (order_encode Spog q', v') \<in> set xs" for q' v'
    by (auto simp: x quad_codec.enc_inject)
  have "\<forall>(k, v)\<in>set xs. \<exists>q. k = order_encode Spog q" using Cons.prems by simp
  from Cons.IH [OF this, of live1] obtain live where live: "rfold mark_step xs live1 = Inr live"
    "\<And>k. k \<in> live \<longleftrightarrow> k \<in> live1 \<or>
      (\<exists>q v. (order_encode Spog q, v) \<in> set xs \<and> is_ref v \<and> k = node_bytes (qk_o q))"
    by (elim exE conjE) (rule that, auto)
  have "rfold mark_step (x # xs) live0 = Inr live" by (simp add: one live(1))
  moreover have "k \<in> live \<longleftrightarrow> k \<in> live0 \<or>
      (\<exists>q v. (order_encode Spog q, v) \<in> set (x # xs) \<and> is_ref v \<and> k = node_bytes (qk_o q))" for k
    unfolding live(2) mem live1_def by auto
  ultimately show ?case by blast
qed simp

lemma sweep_ok:
  assumes "\<not> is_replica st" and "\<forall>k v. view E (st_db st) (order_cf Spog) k = Some v \<longrightarrow> (\<exists>q. k = order_encode Spog q)"
  shows "\<exists>n d. sweep_unreferenced_blobs E st = (Inr n, st\<lparr>st_db := d\<rparr>) \<and>
    (\<forall>cf. cf \<noteq> cf_BLOB \<longrightarrow> view E d cf = view E (st_db st) cf) \<and>
    (\<forall>k. view E d cf_BLOB k = view E (st_db st) cf_BLOB k \<or> view E d cf_BLOB k = None) \<and>
    (\<forall>ids t b. version_at (view E (st_db st)) ids t = Some b \<and> is_ref b \<longrightarrow>
      view E d cf_BLOB (node_bytes (fst (snd (snd ids)))) = view E (st_db st) cf_BLOB (node_bytes (fst (snd (snd ids)))))"
proof -
  obtain xs where xs: "rk_from E (st_db st) (order_cf Spog) [] = Inr xs"
    "\<And>k v. (k, v) \<in> set xs \<longleftrightarrow> view E (st_db st) (order_cf Spog) k = Some v"
    by (rule from_startE [of "st_db st" "order_cf Spog"]) (rule that)
  obtain bs where bs: "rk_from E (st_db st) cf_BLOB [] = Inr bs"
    "\<And>k v. (k, v) \<in> set bs \<longleftrightarrow> view E (st_db st) cf_BLOB k = Some v"
    by (rule from_startE [of "st_db st" cf_BLOB]) (rule that)
  have "\<forall>(k, v)\<in>set xs. \<exists>q. k = order_encode Spog q" using assms(2) xs(2) by blast
  from mark_fold [OF this, of "{}"] obtain live where live: "rfold mark_step xs {} = Inr live"
    "\<And>k. k \<in> live \<longleftrightarrow> (\<exists>q v. (order_encode Spog q, v) \<in> set xs \<and> is_ref v \<and> k = node_bytes (qk_o q))"
    by auto
  define dead where "dead = filter (\<lambda>k. length k = 16 \<and> k \<notin> live) (map fst bs)"
  have dead: "length (filter ((\<lambda>k. length k = 16 \<and> k \<notin> live) \<circ> fst) bs) = length dead"
    "filter ((\<lambda>k. length k = 16 \<and> k \<notin> live) \<circ> fst) bs = [] \<longleftrightarrow> dead = []"
    by (simp_all add: dead_def filter_map)
  obtain d0 where d0: "raw_write E (map (Delete cf_BLOB) dead) st = (Inr (), st\<lparr>st_db := d0\<rparr>)"
    "view E d0 = apply_batch (map (Delete cf_BLOB) dead) (view E (st_db st))"
    using raw_writeE [of "map (Delete cf_BLOB) dead" st] by metis
  define d where "d = (if dead = [] then st_db st else d0)"
  have v: "view E d cf k = (if cf = cf_BLOB \<and> k \<in> set dead then None else view E (st_db st) cf k)" for cf k
    using apply_deletes [of "map (Delete cf_BLOB) dead" cf_BLOB "view E (st_db st)" cf k]
    by (auto simp: d_def d0(2))
  have handles: "cf_handle E (order_cf Spog) st = Inr ()" "cf_handle E cf_BLOB st = Inr ()"
    using cf_handle_ok [of cf_BLOB st] cf_handle_ok [of "order_cf Spog" st] by (simp_all add: cf_ALL_def)
  have "sweep_unreferenced_blobs E st = (Inr (length dead), st\<lparr>st_db := d\<rparr>)"
    using assms(1) d0(1)
    by (simp add: sweep_unreferenced_blobs_def sbind_def slift_def sret_def handles xs(1) bs(1) live(1)
        dead dead_def [symmetric] d_def db_write_def del: order_cf.simps filter_map)
  moreover have "node_bytes (fst (snd (snd ids))) \<notin> set dead"
    if "version_at (view E (st_db st)) ids t = Some b" "is_ref b" for ids t b
  proof -
    obtain s p ob g where ids: "ids = (s, p, ob, g)" by (cases ids)
    have "(order_encode Spog (quad_of_ids ids t), b) \<in> set xs" using that(1) by (simp add: xs(2) version_at_def)
    moreover have "qk_o (quad_of_ids ids t) = ob" by (simp add: ids quad_of_ids_def)
    ultimately have "node_bytes ob \<in> live" using that(2) unfolding live(2) by blast
    then show ?thesis by (simp add: dead_def ids)
  qed
  ultimately show ?thesis
    by (intro exI [of _ "length dead"] exI [of _ d]) (auto simp: v fun_eq_iff)
qed


text \<open>A run succeeds and takes exactly the versions \<open>drops\<close> names from every order.\<close>

lemma run_retention_effect:
  assumes "store_ok E st" and "values_ok E st" and "\<not> is_replica st"
    and "m = view E (st_db st)" and "tc = cutoff now (tx_age_secs policy)"
    and "vc = map_option (cutoff now) (vt_lookback_secs policy)"
  shows "\<exists>stats d. run_retention E now policy st = (Inr stats, st\<lparr>st_db := d\<rparr>) \<and>
    (\<forall>ord. view E d (order_cf ord) = pruned_order m tc vc ord) \<and>
    (\<forall>cf. cf \<notin> range order_cf \<longrightarrow> cf \<noteq> cf_BLOB \<longrightarrow> view E d cf = m cf) \<and>
    (\<forall>k. view E d cf_BLOB k = m cf_BLOB k \<or> view E d cf_BLOB k = None) \<and>
    (\<forall>ids t b. version_at (view E d) ids t = Some b \<and> is_ref b \<longrightarrow>
      view E d cf_BLOB (node_bytes (fst (snd (snd ids)))) = m cf_BLOB (node_bytes (fst (snd (snd ids)))))"
proof -
  have ix: "index_ok m" using assms(1,4) by (simp add: store_ok_def)
  have all: "set order_ALL = UNIV" "distinct order_ALL"
    using quad_order.exhaust by (auto simp: order_ALL_def)
  have ne: "order_cf ord \<noteq> cf_BLOB" for ord by (cases ord) (simp_all add: cf_defs)
  then have blob: "cf_BLOB \<notin> range order_cf" by (metis rangeE)
  have "pruned m tc vc {} (view E (st_db st))" by (simp add: pruned_def assms(4))
  from retain_orders [OF ix assms(3) this all(2)] obtain acc d1 where
    loop: "smapM (retain_order E tc vc) order_ALL (0, 0) st = (Inr acc, st\<lparr>st_db := d1\<rparr>)"
    and "pruned m tc vc UNIV (view E d1)" unfolding all Int_empty_right Un_empty_right by blast
  then have p: "\<And>ord. view E d1 (order_cf ord) = pruned_order m tc vc ord"
    "\<And>cf. cf \<notin> range order_cf \<Longrightarrow> view E d1 cf = m cf" by (auto simp: pruned_def)
  obtain sc dl where acc: "acc = (sc, dl)" by (cases acc)
  let ?st1 = "st\<lparr>st_db := d1\<rparr>"
  have keys: "\<exists>q. k = order_encode Spog q" if "view E (st_db ?st1) (order_cf Spog) k = Some v" for k v
  proof -
    have "m (order_cf Spog) k = Some v"
      using that p(1) [of Spog] by (simp add: pruned_order_def split: if_splits)
    with ix show ?thesis unfolding index_ok_def by blast
  qed
  have rep1: "\<not> is_replica ?st1" using assms(3) by (simp add: is_replica_def)
  obtain n d2 where sw0: "sweep_unreferenced_blobs E ?st1 = (Inr n, ?st1\<lparr>st_db := d2\<rparr>)"
    "\<forall>cf. cf \<noteq> cf_BLOB \<longrightarrow> view E d2 cf = view E (st_db ?st1) cf"
    "\<forall>k. view E d2 cf_BLOB k = view E (st_db ?st1) cf_BLOB k \<or> view E d2 cf_BLOB k = None"
    "\<forall>ids t b. version_at (view E (st_db ?st1)) ids t = Some b \<and> is_ref b \<longrightarrow>
      view E d2 cf_BLOB (node_bytes (fst (snd (snd ids)))) = view E (st_db ?st1) cf_BLOB (node_bytes (fst (snd (snd ids))))"
    using sweep_ok [of ?st1, OF rep1] keys by blast
  note sw = sw0(1) sw0(2) [rule_format] sw0(3) [rule_format] sw0(4) [rule_format, OF conjI]
  define d where "d = (if 0 < dl then d2 else d1)"
  have "\<exists>stats. run_retention E now policy st = (Inr stats, st\<lparr>st_db := d\<rparr>)"
    using loop sw(1) by (simp add: run_retention_def sbind_def sret_def acc d_def assms(5,6) Let_def)
  moreover have "view E d (order_cf ord) = pruned_order m tc vc ord" for ord
    using sw(2) [OF ne] p(1) by (auto simp: d_def)
  moreover have "view E d cf = m cf" if "cf \<notin> range order_cf" "cf \<noteq> cf_BLOB" for cf
    using that sw(2) p(2) by (simp add: d_def)
  moreover have "view E d cf_BLOB k = m cf_BLOB k \<or> view E d cf_BLOB k = None" for k
    using sw(3) [of k] p(2) [OF blob] by (simp add: d_def)
  moreover have "view E d cf_BLOB (node_bytes (fst (snd (snd ids)))) = m cf_BLOB (node_bytes (fst (snd (snd ids))))"
    if "version_at (view E d) ids t = Some b" "is_ref b" for ids t b
  proof -
    have "version_at (view E d1) ids t = Some b"
      using that(1) sw(2) [OF ne [of Spog]] by (simp add: version_at_def d_def split: if_splits)
    with sw(4) that(2) p(2) [OF blob] show ?thesis by (simp add: d_def)
  qed
  ultimately show ?thesis by blast
qed

end



section \<open>Reads inside the window\<close>

lemma finite_timestamps: "finite (T :: timestamp set)"
proof -
  have "T \<subseteq> range Timestamp" by (metis subsetI rangeI timestamp.exhaust)
  then show ?thesis by (rule finite_subset) simp
qed

text \<open>A version that goes is outranked by one that stays.\<close>

lemma unshadowed_above:
  assumes "shadowed m tc ids t" and "eligible m ts vt ids w" and "fst (snd w) = t" and "tc \<le> ts"
  shows "\<exists>w'. eligible m ts vt ids w' \<and> \<not> shadowed m tc ids (fst (snd w')) \<and> version_rank w < version_rank w'"
proof -
  obtain vs ve b where w: "w = (vs, t, ve, b)" using assms(3) by (cases w) auto
  have el: "version_at m ids t = Some b" "valid_time b = Some (vs, ve)" "vs \<le> vt"
    using assms(2) by (simp_all add: w eligible_def)
  define U where "U = {u. t < u \<and> u < tc \<and> (\<exists>b' ve'. version_at m ids u = Some b' \<and> valid_time b' = Some (vs, ve'))}"
  have "U \<noteq> {}" using assms(1) el(1,2) by (fastforce simp: shadowed_def U_def)
  then have mx: "Max U \<in> U" "\<And>u. u \<in> U \<Longrightarrow> u \<le> Max U"
    using finite_timestamps by (simp_all add: Max_in)
  then obtain b' ve' where u: "t < Max U" "Max U < tc" "version_at m ids (Max U) = Some b'"
    "valid_time b' = Some (vs, ve')" by (auto simp: U_def)
  let ?w = "(vs, Max U, ve', b')"
  have "eligible m ts vt ids ?w" using u el(3) assms(4) by (auto simp: eligible_def)
  moreover have "\<not> shadowed m tc ids (Max U)"
  proof
    assume "shadowed m tc ids (Max U)"
    then obtain u' b2 ve2 where "version_at m ids u' = Some b2" "valid_time b2 = Some (vs, ve2)" "Max U < u'" "u' < tc"
      using u(3,4) by (auto simp: shadowed_def)
    moreover then have "u' \<in> U" using u(1) by (auto simp: U_def)
    ultimately show False using mx(2) [of u'] by simp
  qed
  ultimately show ?thesis using u(1) by (intro exI [of _ ?w]) (simp add: w version_rank_def)
qed

lemma live_at_version: "live_at m ts vt ids t b \<Longrightarrow> version_at m ids t = Some b"
  by (auto simp: live_at_def governs_def eligible_def)

lemma live_at_kept:
  assumes new: "\<And>ids t. version_at m' ids t = (if drops m tc vc ids t then None else version_at m ids t)"
    and "tc \<le> ts" and "\<And>c. vc = Some c \<Longrightarrow> c \<le> vt"
  shows "live_at m' ts vt ids t b \<longleftrightarrow> live_at m ts vt ids t b"
proof (cases "\<exists>c. vc = Some c \<and> ended m tc c ids")
  case True
  then obtain c where c: "vc = Some c" "ended m tc c ids" "c \<le> vt" using assms(3) by blast
  have "\<not> eligible m' ts vt ids w" for w
    using c(1,2) by (cases w) (auto simp: eligible_def new drops_def split: if_splits)
  moreover have "\<not> live_at m ts vt ids t b"
  proof
    assume "live_at m ts vt ids t b"
    then obtain vs ve where g: "governs m ts vt ids (vs, t, ve, b)" "vt < ve" by (auto simp: live_at_def)
    have el: "eligible m ts vt ids (vs, t, ve, b)" using g(1) by (simp add: governs_def)
    have "\<not> shadowed m tc ids t"
    proof
      assume "shadowed m tc ids t"
      from unshadowed_above [OF this el _ assms(2)] g(1) show False
        unfolding governs_def by (metis fst_conv snd_conv leD)
    qed
    moreover have v: "version_at m ids t = Some b" "valid_time b = Some (vs, ve)"
      using el by (simp_all add: eligible_def)
    ultimately have "ve < c" using c(2) [unfolded ended_def, rule_format, OF v(1)] by simp
    with c(3) g(2) show False by simp
  qed
  ultimately show ?thesis by (simp add: live_at_def governs_def)
next
  case False
  then have keep: "version_at m' ids t = (if shadowed m tc ids t then None else version_at m ids t)" for t
    by (auto simp: new drops_def)
  have el: "eligible m' ts vt ids w \<longleftrightarrow> eligible m ts vt ids w \<and> \<not> shadowed m tc ids (fst (snd w))" for w
    by (cases w) (auto simp: eligible_def keep)
  have "governs m' ts vt ids w \<longleftrightarrow> governs m ts vt ids w" for w
  proof
    assume g: "governs m' ts vt ids w"
    have "version_rank w' \<le> version_rank w" if w': "eligible m ts vt ids w'" for w'
    proof (cases "shadowed m tc ids (fst (snd w'))")
      case True
      from unshadowed_above [OF this w' refl assms(2)] obtain w2 where
        "eligible m' ts vt ids w2" "version_rank w' < version_rank w2" by (auto simp: el split_paired_Ex)
      with g show ?thesis unfolding governs_def by (meson less_imp_le order_trans)
    next
      case False
      with w' g show ?thesis by (simp add: governs_def el)
    qed
    with g show "governs m ts vt ids w" by (simp add: governs_def el)
  next
    assume g: "governs m ts vt ids w"
    then have ew: "eligible m ts vt ids w" by (simp add: governs_def)
    have "\<not> shadowed m tc ids (fst (snd w))"
    proof
      assume "shadowed m tc ids (fst (snd w))"
      from unshadowed_above [OF this ew refl assms(2)] g show False
        unfolding governs_def by (meson leD)
    qed
    with g show "governs m' ts vt ids w" by (simp add: governs_def el)
  qed
  then show ?thesis by (simp add: live_at_def)
qed

context kv_engine
begin

lemma run_retention_ok:
  assumes "store_ok E st" and "values_ok E st" and "\<not> is_replica st"
    and "run_retention E now policy st = (r, st')"
  shows "(\<exists>stats. r = Inr stats) \<and> store_ok E st' \<and> values_ok E st' \<and> (\<exists>d. st' = st\<lparr>st_db := d\<rparr>) \<and>
    (\<forall>ids t. version_at (view E (st_db st')) ids t =
      (if drops (view E (st_db st)) (cutoff now (tx_age_secs policy))
          (map_option (cutoff now) (vt_lookback_secs policy)) ids t
       then None else version_at (view E (st_db st)) ids t)) \<and>
    (\<forall>ids t b. version_at (view E (st_db st')) ids t = Some b \<longrightarrow> rebuild E st' ids t b = rebuild E st ids t b)"
proof -
  let ?m = "view E (st_db st)" and ?tc = "cutoff now (tx_age_secs policy)"
    and ?vc = "map_option (cutoff now) (vt_lookback_secs policy)"
  obtain stats d where run: "run_retention E now policy st = (Inr stats, st\<lparr>st_db := d\<rparr>)"
    and ords: "\<forall>ord. view E d (order_cf ord) = pruned_order ?m ?tc ?vc ord"
    and rest: "\<forall>cf. cf \<notin> range order_cf \<longrightarrow> cf \<noteq> cf_BLOB \<longrightarrow> view E d cf = ?m cf"
    and sub: "\<forall>k. view E d cf_BLOB k = ?m cf_BLOB k \<or> view E d cf_BLOB k = None"
    and refs: "\<forall>ids t b. version_at (view E d) ids t = Some b \<and> is_ref b \<longrightarrow>
      view E d cf_BLOB (node_bytes (fst (snd (snd ids)))) = ?m cf_BLOB (node_bytes (fst (snd (snd ids))))"
    using run_retention_effect [OF assms(1-3) refl refl refl, of now policy] by blast
  have st': "st' = st\<lparr>st_db := d\<rparr>" "r = Inr stats" using run assms(4) by simp_all
  have ix: "index_ok ?m" using assms(1) by (simp add: store_ok_def)
  have at: "view E d (order_cf ord) (order_encode ord q) =
      (if drops ?m ?tc ?vc (quad_ids_of q) (qk_tt q) then None else version_at ?m (quad_ids_of q) (qk_tt q))" for ord q
  proof -
    have "(\<exists>ids t. order_encode ord q = order_encode ord (quad_of_ids ids t) \<and> drops ?m ?tc ?vc ids t) \<longleftrightarrow>
        drops ?m ?tc ?vc (quad_ids_of q) (qk_tt q)"
      using quad_codec.enc_inject [of ord q] by (metis quad_of_ids_of quad_of_ids_tt quad_of_quad_ids)
    then show ?thesis using ords index_ok_at [OF ix, of ord q] by (simp add: pruned_order_def)
  qed
  have ver: "version_at (view E d) ids t = (if drops ?m ?tc ?vc ids t then None else version_at ?m ids t)" for ids t
    using at [of Spog "quad_of_ids ids t"] by (simp add: version_at_def [of "view E d"])
  have kept: "version_at ?m ids t = Some b" if "version_at (view E d) ids t = Some b" for ids t b
    using that by (simp add: ver split: if_splits)
  have ne: "cf_META \<notin> range order_cf" "cf_IRI \<notin> range order_cf" "cf_META \<noteq> cf_BLOB" "cf_IRI \<noteq> cf_BLOB"
  proof -
    have "order_cf ord \<noteq> cf_META" "order_cf ord \<noteq> cf_IRI" for ord by (cases ord; simp add: cf_defs)+
    then show "cf_META \<notin> range order_cf" "cf_IRI \<notin> range order_cf" by (metis rangeE)+
  qed (simp_all add: cf_defs)
  have same: "view E d cf_META = ?m cf_META" "view E d cf_IRI = ?m cf_IRI" using rest ne by blast+
  have "index_ok (view E d)"
  proof -
    have "\<exists>q. k = order_encode ord q \<and> Timestamp 0 \<le> qk_tt q" if "view E d (order_cf ord) k = Some v" for ord k v
    proof -
      have "?m (order_cf ord) k = Some v"
        using that ords [rule_format, of ord] by (simp add: pruned_order_def split: if_splits)
      with ix show ?thesis unfolding index_ok_def by blast
    qed
    then show ?thesis unfolding index_ok_def at by blast
  qed
  moreover have "times_ok E st'"
    using assms(1) kept unfolding store_ok_def times_ok_def st' by fastforce
  moreover have "pred_table_ok E st'" "graph_table_ok E st'" "dict_ok E (view E d)"
    using assms(1) same by (simp_all add: store_ok_def pred_table_ok_def graph_table_ok_def dict_ok_def st')
  ultimately have ok: "store_ok E st'" by (simp add: store_ok_def st')
  have vals: "values_ok E st'"
    unfolding values_ok_def Let_def
  proof (intro conjI allI impI)
    fix ids t b assume "version_at (view E (st_db st')) ids t = Some b"
    then have v: "version_at (view E d) ids t = Some b" by (simp add: st')
    with assms(2) kept [OF v] show "value_form E (fst (snd (snd ids))) b"
      and "hm_get (st_rev st') (fst (snd ids)) \<noteq> None"
      unfolding values_ok_def Let_def st' by auto
    assume "is_ref b"
    then have "view E d cf_BLOB (node_bytes (fst (snd (snd ids)))) = ?m cf_BLOB (node_bytes (fst (snd (snd ids))))"
      using refs v by blast
    moreover have "?m cf_BLOB (node_bytes (fst (snd (snd ids)))) \<noteq> None"
      using assms(2) kept [OF v] \<open>is_ref b\<close> unfolding values_ok_def Let_def by blast
    ultimately show "view E (st_db st') cf_BLOB (node_bytes (fst (snd (snd ids)))) \<noteq> None" by (simp add: st')
  next
    fix k bl assume "view E (st_db st') cf_BLOB k = Some bl"
    then have "?m cf_BLOB k = Some bl" using sub [rule_format, of k] by (auto simp: st')
    with assms(2) show "blob_form E k bl" unfolding values_ok_def Let_def by blast
  qed
  have "rebuild E st' ids t b = rebuild E st ids t b"
    if v: "version_at (view E (st_db st')) ids t = Some b" for ids t b
  proof (rule rebuild_same [OF assms(2) kept])
    show v': "version_at (view E d) ids t = Some b" using v by (simp add: st')
    show "hm_get (st_rev st) p = Some n \<Longrightarrow> hm_get (st_rev st') p = Some n" for p n by (simp add: st')
    show "is_ref b \<Longrightarrow> view E (st_db st') cf_BLOB (node_bytes (fst (snd (snd ids))))
        = view E (st_db st) cf_BLOB (node_bytes (fst (snd (snd ids))))"
      using refs [rule_format, OF conjI [OF v']] by (simp add: st')
  qed
  with ok vals ver st' show ?thesis by auto
qed

text \<open>Every scan at a transaction time and a valid time inside the window gives the same answer.\<close>

lemma retention_window:
  assumes "store_ok E st" and "values_ok E st" and "\<not> is_replica st"
    and "run_retention E now policy st = (r, st')"
    and "cutoff now (tx_age_secs policy) \<le> ra_ts at"
    and "\<And>secs. vt_lookback_secs policy = Some secs \<Longrightarrow> cutoff now secs \<le> vt_or_now at t0"
    and "scan_scoped_at E t0 st s pred ob scope at = Inr out"
  shows "\<exists>out'. scan_scoped_at E t0 st' s pred ob scope at = Inr out' \<and> set out' = set out"
proof -
  let ?m = "view E (st_db st)" and ?m' = "view E (st_db st')"
  note ok = run_retention_ok [OF assms(1-4)]
  obtain out' where out': "scan_scoped_at E t0 st' s pred ob scope at = Inr out'"
    using scan_scoped_total ok by blast
  obtain d where st': "st' = st\<lparr>st_db := d\<rparr>" using ok by blast
  have ix: "index_ok ?m" "index_ok ?m'" using assms(1) ok by (simp_all add: store_ok_def)
  have live: "live_at ?m' (ra_ts at) (vt_or_now at t0) ids t b = live_at ?m (ra_ts at) (vt_or_now at t0) ids t b" for ids t b
    by (rule live_at_kept [where tc = "cutoff now (tx_age_secs policy)"
          and vc = "map_option (cutoff now) (vt_lookback_secs policy)"])
      (use ok assms(5,6) in auto)
  have same: "reconstruct E st' qs qp qo t b = reconstruct E st qs qp qo t b"
    if "live_at ?m (ra_ts at) (vt_or_now at t0) (qs, qp, qo, g) t b" for qs qp qo g t b
  proof -
    have "version_at ?m' (qs, qp, qo, g) t = Some b"
      by (rule live_at_version [OF live [THEN iffD2, OF that]])
    then have "rebuild E st' (qs, qp, qo, g) t b = rebuild E st (qs, qp, qo, g) t b" using ok by blast
    then show ?thesis by (simp add: rebuild_def)
  qed
  have names: "predicate_id st' = predicate_id st"
    by (simp add: fun_eq_iff predicate_id_eq canonical_name_def st')
  have eq: "live_at ?m (ra_ts at) (vt_or_now at t0) (qs, qp, qo, g) t b \<and> reconstruct E st' qs qp qo t b = Inr tr \<longleftrightarrow>
      live_at ?m (ra_ts at) (vt_or_now at t0) (qs, qp, qo, g) t b \<and> reconstruct E st qs qp qo t b = Inr tr" for qs qp qo g t b tr
    using same by auto
  have "(g, tr) \<in> set out' \<longleftrightarrow> (g, tr) \<in> set out" for g tr
    unfolding scan_scoped_set [OF ix(2) out'] scan_scoped_set [OF ix(1) assms(7)] live names eq ..
  with out' show ?thesis by auto
qed

end



section \<open>The cutoff\<close>

lemma ts_int_of_int: "- (2 ^ 63) \<le> i \<Longrightarrow> i < 2 ^ 63 \<Longrightarrow> ts_int (ts_of_int i) = i"
  by (simp add: ts_int_def ts_of_int_def signed_of_int signed_take_bit_int_eq_self)

lemma ts_le_int: "t \<le> u \<longleftrightarrow> ts_int t \<le> ts_int u"
  by (simp add: less_eq_timestamp_def ts_int_def)

lemma sat_i64_range: "- (2 ^ 63) \<le> sat_i64 i" "sat_i64 i < 2 ^ 63"
  by (simp_all add: sat_i64_def)

lemma ts_int_cutoff: "ts_int (cutoff now secs) = sat_i64 (ts_int now - sat_i64 (sint secs * 1000000))"
  unfolding cutoff_def by (rule ts_int_of_int) (fact sat_i64_range)+

lemma ts_int_range: "- (2 ^ 63) \<le> ts_int t" "ts_int t < 2 ^ 63"
  using sint_range_size [of "ts_us t"] by (simp_all add: ts_int_def word_size)

lemma sint_negative: "sint (w :: u64) < 0 \<longleftrightarrow> 2 ^ 63 \<le> unat w"
proof -
  have r: "- (2 ^ 63) \<le> sint w" "sint w < 2 ^ 63" using sint_range_size [of w] by (simp_all add: word_size)
  have u: "uint w = sint w mod 2 ^ 64" using uint_sint [of w] by (simp add: take_bit_eq_mod)
  have "sint w < 0 \<longleftrightarrow> 2 ^ 63 \<le> uint w"
  proof (cases "sint w < 0")
    case True
    then have "sint w mod 2 ^ 64 = sint w + 2 ^ 64"
      using r by (subst mod_add_self2 [symmetric], intro mod_pos_pos_trivial) simp_all
    with True r u show ?thesis by simp
  next
    case False
    with r u show ?thesis by (simp add: mod_pos_pos_trivial)
  qed
  moreover have "(2 ^ 63 :: int) \<le> int (unat w) \<longleftrightarrow> 2 ^ 63 \<le> unat w" by (simp del: of_nat_unat)
  ultimately show ?thesis by (simp only: uint_nat)
qed

text \<open>An age of \<open>2 ^ 63\<close> seconds or more turns negative and puts the cutoff after \<open>now\<close>.\<close>

lemma cutoff_before_now:
  assumes "now < END_OF_TIME"
  shows "cutoff now secs \<le> now \<longleftrightarrow> unat secs < 2 ^ 63"
proof -
  have now: "- (2 ^ 63) \<le> ts_int now" "ts_int now < 2 ^ 63 - 1"
    using ts_int_range [of now] assms by (simp_all add: less_timestamp_def END_OF_TIME_def ts_int_def)
  show ?thesis
  proof (cases "sint secs < 0")
    case True
    then have "sat_i64 (sint secs * 1000000) < 0" by (simp add: sat_i64_def)
    then have "ts_int now < ts_int (cutoff now secs)"
      using now unfolding ts_int_cutoff by (simp add: sat_i64_def)
    with True show ?thesis by (simp add: ts_le_int sint_negative not_less)
  next
    case False
    then have "0 \<le> sat_i64 (sint secs * 1000000)" by (simp add: sat_i64_def)
    then have "ts_int (cutoff now secs) \<le> ts_int now"
      using now unfolding ts_int_cutoff by (simp add: sat_i64_def)
    with False show ?thesis by (simp add: ts_le_int sint_negative)
  qed
qed

end
