(* ===== verification/Store_Queries.thy ===== *)
theory Store_Queries
  imports Snapshots Mvcc
begin

text \<open>
  The other readers of \<open>polargraph-storage/src/store.rs\<close>: RDF-star annotations of an edge by their
  three indexes, the history of a property, the trigram text search, and the scans at the latest
  commit. A \<open>HashMap\<close> is an association list, a \<open>HashSet\<close> that is iterated a list without repeats;
  results are read as sets. \<open>str::to_lowercase\<close> is the parameter \<open>lower\<close>: its Unicode tables are not
  modelled.
\<close>


section \<open>Edge annotations\<close>

datatype edge_annotation_value = Scalar "value" | NodeRef node_id

record edge_annotation =
  ann_predicate :: predicate
  ann_value :: edge_annotation_value

text \<open>
  The fold the three annotation scans share: skip what is newer than the snapshot or not readable,
  and keep per slot the entry with the latest transaction time.
\<close>

definition newest_step ::
  "timestamp \<Rightarrow> u32 set option \<Rightarrow> (bytes \<Rightarrow> 'k res) \<Rightarrow> ('k \<Rightarrow> timestamp) \<Rightarrow> ('k \<Rightarrow> graph_id) \<Rightarrow> ('k \<Rightarrow> 'i) \<Rightarrow>
    bytes \<times> bytes \<Rightarrow> ('i \<times> (timestamp \<times> bytes)) list \<Rightarrow> ('i \<times> (timestamp \<times> bytes)) list res" where
  "newest_step ts readable dec tt_of g_of slot_of = (\<lambda>(k, v) latest.
    rbind (dec k) (\<lambda>dk.
      if tt_of dk > ts \<or> \<not> readable_admits readable (g_of dk) then Inr latest
      else let slot = (case hm_get latest (slot_of dk) of Some s \<Rightarrow> s | None \<Rightarrow> (ts_MIN, [])) in
        Inr (hm_insert (slot_of dk) (if tt_of dk > fst slot then (tt_of dk, v) else slot) latest)))"

definition predicate_or_unknown :: "('d, 's) store_scheme \<Rightarrow> u32 \<Rightarrow> string res" where
  "predicate_or_unknown st p =
    ok_or (predicate_string st p) (KeyDecode (''unknown pred_id '' @ nat_str (unat p)))"

definition emit_scalar ::
  "('d, 'm) env_scheme \<Rightarrow> ('d, 's) store_scheme \<Rightarrow> u32 \<times> (timestamp \<times> bytes) \<Rightarrow> edge_annotation list res" where
  "emit_scalar E st = (\<lambda>(p, (_, b)).
    rbind (predicate_or_unknown st p) (\<lambda>name.
    rbind (decode_value E b) (\<lambda>dv.
      Inr (case dv of
        DecodedProperty v _ \<Rightarrow> [\<lparr>ann_predicate = Predicate name, ann_value = Scalar v\<rparr>]
      | _ \<Rightarrow> []))))"

definition emit_node ::
  "('d, 's) store_scheme \<Rightarrow> (u32 \<times> node_id) \<times> (timestamp \<times> bytes) \<Rightarrow> edge_annotation res" where
  "emit_node st = (\<lambda>((p, ob), _).
    rbind (predicate_or_unknown st p) (\<lambda>name. Inr \<lparr>ann_predicate = Predicate name, ann_value = NodeRef ob\<rparr>))"

definition scan_edge_annotations_with ::
  "('d, 'm) env_scheme \<Rightarrow> ('d, 's) store_scheme \<Rightarrow> edge_id \<Rightarrow> timestamp \<Rightarrow> u32 set option \<Rightarrow>
    edge_annotation list res" where
  "scan_edge_annotations_with E st edge ts readable =
    (let pfx = annotation_prefix_edge edge in
     rbind (db_scan E (st_db st) cf_EPA pfx) (\<lambda>items.
     rbind (rfold (newest_step ts readable decode_epa_key epa_tt epa_g epa_pred) items []) (\<lambda>latest.
     rbind (rtraverse (emit_scalar E st) latest) (\<lambda>scalars.
     rbind (db_scan E (st_db st) cf_EPO pfx) (\<lambda>items.
     rbind (rfold (newest_step ts readable decode_epo_key epo_tt epo_g (\<lambda>k. (epo_pred k, epo_object k))) items [])
       (\<lambda>latest.
     rbind (rtraverse (emit_node st) latest) (\<lambda>nodes. Inr (concat scalars @ nodes))))))))"

definition scan_edge_annotations ::
  "('d, 'm) env_scheme \<Rightarrow> ('d, 's) store_scheme \<Rightarrow> edge_id \<Rightarrow> timestamp \<Rightarrow> edge_annotation list res" where
  "scan_edge_annotations E st edge ts = scan_edge_annotations_with E st edge ts None"

definition best_step ::
  "timestamp \<Rightarrow> u32 set option \<Rightarrow> (bytes \<Rightarrow> 'k res) \<Rightarrow> ('k \<Rightarrow> timestamp) \<Rightarrow> ('k \<Rightarrow> graph_id) \<Rightarrow> ('k \<Rightarrow> bytes \<Rightarrow> 'v) \<Rightarrow>
    bytes \<times> bytes \<Rightarrow> (timestamp \<times> 'v) option \<Rightarrow> (timestamp \<times> 'v) option res" where
  "best_step ts readable dec tt_of g_of payload = (\<lambda>(k, v) best.
    rbind (dec k) (\<lambda>dk.
      if tt_of dk > ts \<or> \<not> readable_admits readable (g_of dk) then Inr best
      else case best of
        Some (bt, _) \<Rightarrow> if tt_of dk \<le> bt then Inr best else Inr (Some (tt_of dk, payload dk v))
      | None \<Rightarrow> Inr (Some (tt_of dk, payload dk v))))"

definition get_edge_annotation_with ::
  "('d, 'm) env_scheme \<Rightarrow> ('d, 's) store_scheme \<Rightarrow> edge_id \<Rightarrow> string \<Rightarrow> timestamp \<Rightarrow> u32 set option \<Rightarrow>
    edge_annotation option res" where
  "get_edge_annotation_with E st edge pred ts readable =
    (case predicate_id st pred of None \<Rightarrow> Inr None
     | Some p \<Rightarrow>
       let pfx = annotation_prefix_edge_pred edge p in
       rbind (db_scan E (st_db st) cf_EPA pfx) (\<lambda>items.
       rbind (rfold (best_step ts readable decode_epa_key epa_tt epa_g (\<lambda>_ v. v)) items None) (\<lambda>best.
       rbind (case best of None \<Rightarrow> Inr None
         | Some (_, b) \<Rightarrow> rbind (decode_value E b) (\<lambda>dv.
             Inr (case dv of DecodedProperty v _ \<Rightarrow> Some v | _ \<Rightarrow> None))) (\<lambda>found.
       case found of
         Some v \<Rightarrow> Inr (Some \<lparr>ann_predicate = Predicate pred, ann_value = Scalar v\<rparr>)
       | None \<Rightarrow>
         rbind (db_scan E (st_db st) cf_EPO pfx) (\<lambda>items.
         rbind (rfold (best_step ts readable decode_epo_key epo_tt epo_g (\<lambda>k _. epo_object k)) items None) (\<lambda>best.
         Inr (case best of None \<Rightarrow> None
           | Some (_, ob) \<Rightarrow> Some \<lparr>ann_predicate = Predicate pred, ann_value = NodeRef ob\<rparr>)))))))"

definition get_edge_annotation ::
  "('d, 'm) env_scheme \<Rightarrow> ('d, 's) store_scheme \<Rightarrow> edge_id \<Rightarrow> string \<Rightarrow> timestamp \<Rightarrow> edge_annotation option res" where
  "get_edge_annotation E st edge pred ts = get_edge_annotation_with E st edge pred ts None"

definition emit_edge_property ::
  "('d, 'm) env_scheme \<Rightarrow> string \<Rightarrow> edge_id \<times> (timestamp \<times> bytes) \<Rightarrow> triple list res" where
  "emit_edge_property E pred = (\<lambda>(e, (t, b)).
    rbind (decode_value E b) (\<lambda>dv.
      Inr (case dv of
        DecodedProperty v r \<Rightarrow> [EdgeProperty e (Predicate pred) v (r\<lparr>tt := t\<rparr>)]
      | _ \<Rightarrow> [])))"

definition scan_annotations_by_predicate_with ::
  "('d, 'm) env_scheme \<Rightarrow> ('d, 's) store_scheme \<Rightarrow> string \<Rightarrow> timestamp \<Rightarrow> u32 set option \<Rightarrow> triple list res" where
  "scan_annotations_by_predicate_with E st pred ts readable =
    (case predicate_id st pred of None \<Rightarrow> Inr []
     | Some p \<Rightarrow>
       rbind (db_scan E (st_db st) cf_PEA (pea_prefix_pred p)) (\<lambda>items.
       rbind (rfold (newest_step ts readable decode_pea_key pea_tt pea_g pea_edge) items []) (\<lambda>latest.
       rbind (rtraverse (emit_edge_property E pred) latest) (\<lambda>triples. Inr (concat triples)))))"

definition scan_annotations_by_predicate ::
  "('d, 'm) env_scheme \<Rightarrow> ('d, 's) store_scheme \<Rightarrow> string \<Rightarrow> timestamp \<Rightarrow> triple list res" where
  "scan_annotations_by_predicate E st pred ts = scan_annotations_by_predicate_with E st pred ts None"

definition annotation_triple :: "timestamp \<Rightarrow> edge_id \<Rightarrow> edge_annotation \<Rightarrow> triple" where
  "annotation_triple now edge ann =
    (case ann_value ann of
       Scalar v \<Rightarrow> EdgeProperty edge (ann_predicate ann) v (assert_now now now)
     | NodeRef ob \<Rightarrow> EdgeRelation edge (ann_predicate ann) ob (assert_now now now))"

definition scan_edge_annotations_as_triples_with ::
  "('d, 'm) env_scheme \<Rightarrow> timestamp \<Rightarrow> ('d, 's) store_scheme \<Rightarrow> edge_id \<Rightarrow> timestamp \<Rightarrow> u32 set option \<Rightarrow>
    triple list res" where
  "scan_edge_annotations_as_triples_with E now st edge ts readable =
    rbind (scan_edge_annotations_with E st edge ts readable) (\<lambda>anns.
      Inr (map (annotation_triple now edge) anns))"

definition scan_edge_annotations_as_triples ::
  "('d, 'm) env_scheme \<Rightarrow> timestamp \<Rightarrow> ('d, 's) store_scheme \<Rightarrow> edge_id \<Rightarrow> timestamp \<Rightarrow> triple list res" where
  "scan_edge_annotations_as_triples E now st edge ts = scan_edge_annotations_as_triples_with E now st edge ts None"


section \<open>The history of a property\<close>

type_synonym history_version = "timestamp \<times> bool \<times> node_id \<times> bytes"

definition history_step ::
  "u32 set option \<Rightarrow> bytes \<times> bytes \<Rightarrow> history_version list \<Rightarrow> history_version list res" where
  "history_step readable = (\<lambda>(k, v) versions.
    if v \<noteq> [] \<and> hd v = DISC_RELATION \<or> \<not> readable_admits readable (graph_of Spog k) then Inr versions
    else case valid_time v of
      None \<Rightarrow> Inr versions
    | Some (_, ve) \<Rightarrow> rbind (order_decode Spog k) (\<lambda>q.
        Inr (versions @ [(qk_tt q, ve = END_OF_TIME, qk_o q, v)])))"

definition own_writes :: "history_version list \<Rightarrow> history_version list" where
  "own_writes versions =
    (let open_at = map fst (filter (\<lambda>(_, live, _). live) versions) in
     filter (\<lambda>(t, live, _). live \<or> t \<notin> set open_at) versions)"

fun emit_history ::
  "('d, 'm) env_scheme \<Rightarrow> ('d, 's) store_scheme \<Rightarrow> history_version list \<Rightarrow> (value \<times> timestamp) list res" where
  "emit_history E st [] = Inr []"
| "emit_history E st ((t, _, ob, b) # rest) =
    rbind (decode_value E b) (\<lambda>dv.
      case dv of
        DecodedProperty v _ \<Rightarrow> rbind (emit_history E st rest) (\<lambda>out. Inr ((v, t) # out))
      | DecodedPropertyRef _ \<Rightarrow> rbind (load_blob E ob st) (\<lambda>v.
          rbind (emit_history E st rest) (\<lambda>out. Inr ((v, t) # out)))
      | DecodedRelation _ _ \<Rightarrow> emit_history E st rest)"

definition scan_property_history_in ::
  "('d, 'm) env_scheme \<Rightarrow> ('d, 's) store_scheme \<Rightarrow> node_id \<Rightarrow> string \<Rightarrow> u32 \<Rightarrow> u32 set option \<Rightarrow>
    (value \<times> timestamp) list res" where
  "scan_property_history_in E st s pred limit readable =
    (let n = (if limit = 0 then 50 else unat limit) in
     case predicate_id st pred of None \<Rightarrow> Inr []
     | Some p \<Rightarrow>
       rbind (db_scan E (st_db st) (order_cf Spog) (order_prefix Spog (Some s) (Some p) None None)) (\<lambda>items.
       rbind (rfold (history_step readable) items []) (\<lambda>versions.
       emit_history E st (take n (sort_key (\<lambda>v. - sint (ts_us (fst v))) (own_writes versions))))))"

definition scan_property_history ::
  "('d, 'm) env_scheme \<Rightarrow> ('d, 's) store_scheme \<Rightarrow> node_id \<Rightarrow> string \<Rightarrow> u32 \<Rightarrow> (value \<times> timestamp) list res" where
  "scan_property_history E st s pred limit = scan_property_history_in E st s pred limit None"


section \<open>Text search\<close>

text \<open>An iterator error ends the candidates, it does not fail the search.\<close>

definition scan_trigram_candidates ::
  "('d, 'm) env_scheme \<Rightarrow> ('d, 's) store_scheme \<Rightarrow> u32 \<Rightarrow> bytes \<Rightarrow> node_id list" where
  "scan_trigram_candidates E st p tg =
    (case db_scan E (st_db st) cf_TRI (tri_prefix_tp tg p) of Inl _ \<Rightarrow> []
     | Inr items \<Rightarrow> concat (map (\<lambda>(k, _). case decode_tri k of Inr (_, n) \<Rightarrow> [n] | Inl _ \<Rightarrow> []) items))"

definition confirms ::
  "(string \<Rightarrow> string) \<Rightarrow> string \<Rightarrow> triple \<Rightarrow> bool" where
  "confirms lower query_lower t =
    (case t of
       Property _ _ v _ \<Rightarrow> (case value_as_text v of Some txt' \<Rightarrow> sublist query_lower (lower txt') | None \<Rightarrow> False)
     | _ \<Rightarrow> False)"

fun confirm_all ::
  "('d, 'm) env_scheme \<Rightarrow> timestamp \<Rightarrow> ('d, 's) store_scheme \<Rightarrow> (string \<Rightarrow> string) \<Rightarrow> string \<Rightarrow> string \<Rightarrow> read_at \<Rightarrow>
    node_id list \<Rightarrow> node_id list res" where
  "confirm_all E now st lower pred query_lower at [] = Inr []"
| "confirm_all E now st lower pred query_lower at (n # ns) =
    rbind (scan_by_subject_predicate_at E now st n pred at) (\<lambda>triples.
    rbind (confirm_all E now st lower pred query_lower at ns) (\<lambda>out.
      Inr (if list_ex (confirms lower query_lower) triples then n # out else out)))"

definition text_search_at ::
  "('d, 'm) env_scheme \<Rightarrow> timestamp \<Rightarrow> ('d, 's) store_scheme \<Rightarrow> (string \<Rightarrow> string) \<Rightarrow> string \<Rightarrow> string \<Rightarrow> read_at \<Rightarrow>
    node_id list res" where
  "text_search_at E now st lower pred query at =
    (case predicate_id st pred of None \<Rightarrow> Inr []
     | Some p \<Rightarrow>
       let trigrams = extract_trigrams query in
       if trigrams = [] then Inr []
       else
         let sets = sort_key length (map (scan_trigram_candidates E st p) trigrams);
             candidates = fold (\<lambda>other cs. filter (\<lambda>n. n \<in> set other) cs) (tl sets) (remdups (hd sets)) in
         confirm_all E now st lower pred (lower query) at candidates)"

definition text_search ::
  "('d, 'm) env_scheme \<Rightarrow> timestamp \<Rightarrow> ('d, 's) store_scheme \<Rightarrow> (string \<Rightarrow> string) \<Rightarrow> string \<Rightarrow> string \<Rightarrow>
    timestamp \<Rightarrow> timestamp option \<Rightarrow> node_id list res" where
  "text_search E now st lower pred query ts vt =
    text_search_at E now st lower pred query ((read_at_latest ts)\<lparr>ra_vt := vt\<rparr>)"


section \<open>Scans at the latest commit\<close>

definition latest_of :: "('d, 's) store_scheme \<Rightarrow> read_at" where
  "latest_of st = read_at_latest (read_ts st)"

definition scan_by_subject where
  "scan_by_subject E now st s = scan_by_subject_at E now st s (latest_of st)"
definition scan_by_subject_predicate where
  "scan_by_subject_predicate E now st s pred = scan_by_subject_predicate_at E now st s pred (latest_of st)"
definition scan_by_predicate where
  "scan_by_predicate E now st pred = scan_by_predicate_at E now st pred (latest_of st)"
definition scan_by_predicate_object where
  "scan_by_predicate_object E now st pred ob = scan_by_predicate_object_at E now st pred ob (latest_of st)"
definition scan_by_object where
  "scan_by_object E now st ob = scan_by_object_at E now st ob (latest_of st)"
definition scan_by_subject_object where
  "scan_by_subject_object E now st s ob = scan_by_subject_object_at E now st s ob (latest_of st)"
definition scan_all where
  "scan_all E now st = scan_all_at E now st (latest_of st)"



section \<open>What the annotation scans return\<close>

definition candidates ::
  "timestamp \<Rightarrow> u32 set option \<Rightarrow> (bytes \<Rightarrow> 'k res) \<Rightarrow> ('k \<Rightarrow> timestamp) \<Rightarrow> ('k \<Rightarrow> graph_id) \<Rightarrow> ('k \<Rightarrow> 'i) \<Rightarrow>
    (bytes \<times> bytes) set \<Rightarrow> 'i \<Rightarrow> (timestamp \<times> bytes) set" where
  "candidates ts readable dec tt_of g_of slot_of X i =
    {(tt_of dk, v) | k v dk. (k, v) \<in> X \<and> dec k = Inr dk \<and> tt_of dk \<le> ts \<and>
      readable_admits readable (g_of dk) \<and> slot_of dk = i}"

definition newest_of :: "(timestamp \<times> 'v) set \<Rightarrow> (timestamp \<times> 'v) option \<Rightarrow> bool" where
  "newest_of C r \<longleftrightarrow>
    (case r of None \<Rightarrow> C = {} | Some (t, v) \<Rightarrow> (t, v) \<in> C \<and> (\<forall>(t', v')\<in>C. t' \<le> t))"

lemma newest_of_insert:
  assumes "newest_of C r" and "Timestamp 0 \<le> t"
    and "slot = (case r of Some s \<Rightarrow> s | None \<Rightarrow> (ts_MIN, []))"
  shows "newest_of (insert (t, v) C) (Some (if t > fst slot then (t, v) else slot))"
proof (cases r)
  case None
  with assms ts_MIN_less_0 have "fst slot < t" by (auto intro: less_le_trans)
  with None assms(1) show ?thesis by (simp add: newest_of_def)
next
  case (Some s)
  obtain t0 v0 where s: "s = (t0, v0)" by (cases s)
  with Some assms have sl: "slot = (t0, v0)" "(t0, v0) \<in> C" "\<forall>(t', v')\<in>C. t' \<le> t0"
    by (simp_all add: newest_of_def)
  show ?thesis
  proof (cases "t0 < t")
    case True
    with sl(3) have "\<forall>(t', v')\<in>C. t' \<le> t" by (auto intro: less_imp_le order_trans)
    with True show ?thesis by (simp add: newest_of_def sl(1))
  next
    case False
    with sl show ?thesis by (auto simp: newest_of_def)
  qed
qed

lemma newest_fold:
  assumes "\<forall>(k, v)\<in>set xs. \<exists>dk. dec k = Inr dk \<and> Timestamp 0 \<le> tt_of dk"
  shows "\<exists>latest. rfold (newest_step ts readable dec tt_of g_of slot_of) xs [] = Inr latest \<and>
    distinct (map fst latest) \<and>
    (\<forall>i. newest_of (candidates ts readable dec tt_of g_of slot_of (set xs) i) (hm_get latest i))"
  using assms
proof (induction xs rule: rev_induct)
  case Nil
  show ?case by (simp add: newest_of_def candidates_def)
next
  case (snoc x xs)
  let ?C = "candidates ts readable dec tt_of g_of slot_of"
  obtain k v dk where x: "x = (k, v)" "dec k = Inr dk" "Timestamp 0 \<le> tt_of dk" using snoc.prems by (cases x) auto
  obtain latest where l: "rfold (newest_step ts readable dec tt_of g_of slot_of) xs [] = Inr latest"
    "distinct (map fst latest)" "\<And>i. newest_of (?C (set xs) i) (hm_get latest i)"
    using snoc by auto
  show ?case
  proof (cases "tt_of dk \<le> ts \<and> readable_admits readable (g_of dk)")
    case False
    then have "newest_step ts readable dec tt_of g_of slot_of x latest = Inr latest"
      by (auto simp: newest_step_def x)
    moreover have "?C (set (xs @ [x])) i = ?C (set xs) i" for i
      using False x by (auto simp: candidates_def)
    ultimately show ?thesis using l by (simp add: rfold_append)
  next
    case True
    define slot where "slot = (case hm_get latest (slot_of dk) of Some s \<Rightarrow> s | None \<Rightarrow> (ts_MIN, []))"
    define w where "w = (if tt_of dk > fst slot then (tt_of dk, v) else slot)"
    have "newest_step ts readable dec tt_of g_of slot_of x latest = Inr (hm_insert (slot_of dk) w latest)"
      using True by (auto simp: newest_step_def x slot_def w_def Let_def not_less)
    then have fold: "rfold (newest_step ts readable dec tt_of g_of slot_of) (xs @ [x]) [] = Inr (hm_insert (slot_of dk) w latest)"
      by (simp add: rfold_append l(1))
    have "newest_of (?C (set (xs @ [x])) i) (hm_get (hm_insert (slot_of dk) w latest) i)" for i
    proof (cases "i = slot_of dk")
      case True
      with \<open>tt_of dk \<le> ts \<and> _\<close> x have "?C (set (xs @ [x])) i = insert (tt_of dk, v) (?C (set xs) i)"
        by (auto simp: candidates_def)
      moreover have "newest_of (insert (tt_of dk, v) (?C (set xs) i)) (Some w)"
        unfolding w_def by (rule newest_of_insert [OF l(3) x(3)]) (simp add: slot_def True)
      ultimately show ?thesis using True by (simp add: hm_get_insert)
    next
      case False
      with x have "?C (set (xs @ [x])) i = ?C (set xs) i" by (auto simp: candidates_def)
      with False l(3) show ?thesis by (simp add: hm_get_insert)
    qed
    with fold l(2) show ?thesis by (auto intro: hm_distinct_insert)
  qed
qed



text \<open>
  Annotation entries: \<open>(p, g, t, b)\<close> is a property version under the edge, \<open>(p, ob, g, t)\<close> a relation
  one. Keys are well formed with a time that is not negative (\<open>annotations_ok\<close>).
\<close>

definition annotations_ok :: "contents \<Rightarrow> bool" where
  "annotations_ok m \<longleftrightarrow>
    (\<forall>k v. m cf_EPA k = Some v \<longrightarrow> (\<exists>dk. decode_epa_key k = Inr dk \<and> Timestamp 0 \<le> epa_tt dk)) \<and>
    (\<forall>k v. m cf_EPO k = Some v \<longrightarrow> (\<exists>dk. decode_epo_key k = Inr dk \<and> Timestamp 0 \<le> epo_tt dk))"

definition property_notes ::
  "contents \<Rightarrow> edge_id \<Rightarrow> timestamp \<Rightarrow> u32 set option \<Rightarrow> u32 \<Rightarrow> (timestamp \<times> bytes) set" where
  "property_notes m edge ts readable p =
    {(t, b) | t b g. m cf_EPA (encode_epa_key edge p g t) = Some b \<and> t \<le> ts \<and> readable_admits readable g}"

lemma emit_scalar_mem:
  "(\<exists>os. emit_scalar E st (p, (t, b)) = Inr os \<and> \<lparr>ann_predicate = pred, ann_value = w\<rparr> \<in> set os) \<longleftrightarrow>
    (\<exists>name v r. predicate_string st p = Some name \<and> decode_value E b = Inr (DecodedProperty v r) \<and>
      pred = Predicate name \<and> w = Scalar v)"
  by (cases "decode_value E b")
    (auto simp: emit_scalar_def predicate_or_unknown_def ok_or_def split: option.splits decoded_value.splits)

lemma emit_node_eq:
  "emit_node st ((p, ob), w) = Inr a \<longleftrightarrow>
    (\<exists>name. predicate_string st p = Some name \<and> a = \<lparr>ann_predicate = Predicate name, ann_value = NodeRef ob\<rparr>)"
  by (auto simp: emit_node_def predicate_or_unknown_def ok_or_def split: option.splits)

definition relation_notes ::
  "contents \<Rightarrow> edge_id \<Rightarrow> timestamp \<Rightarrow> u32 set option \<Rightarrow> u32 \<Rightarrow> node_id \<Rightarrow> (timestamp \<times> bytes) set" where
  "relation_notes m edge ts readable p ob =
    {(t, b) | t b g. m cf_EPO (encode_epo_key edge p ob g t) = Some b \<and> t \<le> ts \<and> readable_admits readable g}"

lemma prefix_edge:
  "prefix (annotation_prefix_edge edge) (encode_epa_key e p g t) \<longleftrightarrow> e = edge"
  "prefix (annotation_prefix_edge edge) (encode_epo_key e p ob g t) \<longleftrightarrow> e = edge"
  by (auto simp: annotation_prefix_edge_def encode_epa_key_def encode_epo_key_def prefix_append_eq_length
      prefix_append_eq_length [where xs = "[]", simplified])

context kv_engine
begin

lemma epa_fold:
  assumes "annotations_ok (view E (st_db st))"
  obtains items latest where "db_scan E (st_db st) cf_EPA (annotation_prefix_edge edge) = Inr items"
    and "rfold (newest_step ts readable decode_epa_key epa_tt epa_g epa_pred) items [] = Inr latest"
    and "distinct (map fst latest)"
    and "\<And>p. newest_of (property_notes (view E (st_db st)) edge ts readable p) (hm_get latest p)"
proof -
  let ?m = "view E (st_db st)"
  obtain items where items: "db_scan E (st_db st) cf_EPA (annotation_prefix_edge edge) = Inr items"
    "\<And>k v. (k, v) \<in> set items \<longleftrightarrow> ?m cf_EPA k = Some v \<and> prefix (annotation_prefix_edge edge) k"
    by (rule db_scanE [of cf_EPA "st_db st" "annotation_prefix_edge edge"]) (simp add: cf_ALL_def, rule that)
  have "\<forall>(k, v)\<in>set items. \<exists>dk. decode_epa_key k = Inr dk \<and> Timestamp 0 \<le> epa_tt dk"
    using assms items(2) unfolding annotations_ok_def by blast
  from newest_fold [OF this, of ts readable epa_g epa_pred] obtain latest where l:
    "rfold (newest_step ts readable decode_epa_key epa_tt epa_g epa_pred) items [] = Inr latest"
    "distinct (map fst latest)"
    "\<And>i. newest_of (candidates ts readable decode_epa_key epa_tt epa_g epa_pred (set items) i) (hm_get latest i)"
    by blast
  have "candidates ts readable decode_epa_key epa_tt epa_g epa_pred (set items) p
      = property_notes ?m edge ts readable p" for p
  proof (intro set_eqI iffI)
    fix x assume "x \<in> candidates ts readable decode_epa_key epa_tt epa_g epa_pred (set items) p"
    then show "x \<in> property_notes ?m edge ts readable p"
      by (fastforce simp: candidates_def property_notes_def items(2) epa_codec.dec_iff prefix_edge)
  next
    fix x assume "x \<in> property_notes ?m edge ts readable p"
    then obtain t b g where x: "x = (t, b)" "?m cf_EPA (encode_epa_key edge p g t) = Some b" "t \<le> ts"
      "readable_admits readable g" by (auto simp: property_notes_def)
    have "decode_epa_key (encode_epa_key edge p g t) = Inr \<lparr>epa_edge = edge, epa_pred = p, epa_g = g, epa_tt = t\<rparr>"
      by (simp add: epa_codec.dec_iff)
    moreover have "(encode_epa_key edge p g t, b) \<in> set items" using x(2) by (simp add: items(2) prefix_edge)
    ultimately show "x \<in> candidates ts readable decode_epa_key epa_tt epa_g epa_pred (set items) p"
      unfolding candidates_def mem_Collect_eq using x(1,3,4)
      by (intro exI [of _ "encode_epa_key edge p g t"] exI [of _ b]
          exI [of _ "\<lparr>epa_edge = edge, epa_pred = p, epa_g = g, epa_tt = t\<rparr>"]) simp
  qed
  with items(1) l show thesis by (intro that) simp_all
qed

lemma epo_fold:
  assumes "annotations_ok (view E (st_db st))"
  obtains items latest where "db_scan E (st_db st) cf_EPO (annotation_prefix_edge edge) = Inr items"
    and "rfold (newest_step ts readable decode_epo_key epo_tt epo_g (\<lambda>k. (epo_pred k, epo_object k))) items [] = Inr latest"
    and "distinct (map fst latest)"
    and "\<And>p ob. newest_of (relation_notes (view E (st_db st)) edge ts readable p ob) (hm_get latest (p, ob))"
proof -
  let ?m = "view E (st_db st)" and ?slot = "\<lambda>k. (epo_pred k, epo_object k)"
  obtain items where items: "db_scan E (st_db st) cf_EPO (annotation_prefix_edge edge) = Inr items"
    "\<And>k v. (k, v) \<in> set items \<longleftrightarrow> ?m cf_EPO k = Some v \<and> prefix (annotation_prefix_edge edge) k"
    by (rule db_scanE [of cf_EPO "st_db st" "annotation_prefix_edge edge"]) (simp add: cf_ALL_def, rule that)
  have "\<forall>(k, v)\<in>set items. \<exists>dk. decode_epo_key k = Inr dk \<and> Timestamp 0 \<le> epo_tt dk"
    using assms items(2) unfolding annotations_ok_def by blast
  from newest_fold [OF this, of ts readable epo_g ?slot] obtain latest where l:
    "rfold (newest_step ts readable decode_epo_key epo_tt epo_g ?slot) items [] = Inr latest"
    "distinct (map fst latest)"
    "\<And>i. newest_of (candidates ts readable decode_epo_key epo_tt epo_g ?slot (set items) i) (hm_get latest i)"
    by blast
  have eq: "candidates ts readable decode_epo_key epo_tt epo_g ?slot (set items) (p, ob)
      = relation_notes ?m edge ts readable p ob" for p ob
  proof (intro set_eqI iffI)
    fix x assume "x \<in> candidates ts readable decode_epo_key epo_tt epo_g ?slot (set items) (p, ob)"
    then show "x \<in> relation_notes ?m edge ts readable p ob"
      by (fastforce simp: candidates_def relation_notes_def items(2) epo_codec.dec_iff prefix_edge)
  next
    fix x assume "x \<in> relation_notes ?m edge ts readable p ob"
    then obtain t b g where x: "x = (t, b)" "?m cf_EPO (encode_epo_key edge p ob g t) = Some b" "t \<le> ts"
      "readable_admits readable g" by (auto simp: relation_notes_def)
    have "decode_epo_key (encode_epo_key edge p ob g t)
        = Inr \<lparr>epo_edge = edge, epo_pred = p, epo_object = ob, epo_g = g, epo_tt = t\<rparr>"
      by (simp add: epo_codec.dec_iff)
    moreover have "(encode_epo_key edge p ob g t, b) \<in> set items" using x(2) by (simp add: items(2) prefix_edge)
    ultimately show "x \<in> candidates ts readable decode_epo_key epo_tt epo_g ?slot (set items) (p, ob)"
      unfolding candidates_def mem_Collect_eq using x(1,3,4)
      by (intro exI [of _ "encode_epo_key edge p ob g t"] exI [of _ b]
          exI [of _ "\<lparr>epo_edge = edge, epo_pred = p, epo_object = ob, epo_g = g, epo_tt = t\<rparr>"]) simp
  qed
  have "newest_of (relation_notes ?m edge ts readable p ob) (hm_get latest (p, ob))" for p ob
    using l(3) [of "(p, ob)"] unfolding eq .
  with items(1) l(1,2) show thesis by (rule that)
qed

text \<open>The scan succeeds when every entry under the edge has a known predicate and decodes.\<close>

lemma edge_annotations_total:
  assumes "annotations_ok (view E (st_db st))"
    and "\<And>p g t b. view E (st_db st) cf_EPA (encode_epa_key edge p g t) = Some b \<Longrightarrow>
      predicate_string st p \<noteq> None \<and> (\<exists>dv. decode_value E b = Inr dv)"
    and "\<And>p ob g t. view E (st_db st) cf_EPO (encode_epo_key edge p ob g t) \<noteq> None \<Longrightarrow> predicate_string st p \<noteq> None"
  shows "\<exists>out. scan_edge_annotations_with E st edge ts readable = Inr out"
proof -
  let ?m = "view E (st_db st)"
  obtain items la where a: "db_scan E (st_db st) cf_EPA (annotation_prefix_edge edge) = Inr items"
    "rfold (newest_step ts readable decode_epa_key epa_tt epa_g epa_pred) items [] = Inr la"
    "distinct (map fst la)" "\<And>p. newest_of (property_notes ?m edge ts readable p) (hm_get la p)"
    by (rule epa_fold [OF assms(1), of edge ts readable]) (rule that)
  obtain items' lo where b: "db_scan E (st_db st) cf_EPO (annotation_prefix_edge edge) = Inr items'"
    "rfold (newest_step ts readable decode_epo_key epo_tt epo_g (\<lambda>k. (epo_pred k, epo_object k))) items' [] = Inr lo"
    "distinct (map fst lo)" "\<And>p ob. newest_of (relation_notes ?m edge ts readable p ob) (hm_get lo (p, ob))"
    by (rule epo_fold [OF assms(1), of edge ts readable]) (rule that)
  have "\<exists>os. emit_scalar E st x = Inr os" if "x \<in> set la" for x
  proof -
    obtain p t v where x: "x = (p, (t, v))" by (cases x) auto
    with that a(3) have "hm_get la p = Some (t, v)" by (simp add: hm_get_def)
    with a(4) [of p] obtain g where "?m cf_EPA (encode_epa_key edge p g t) = Some v"
      by (auto simp: newest_of_def property_notes_def)
    from assms(2) [OF this] show ?thesis
      by (auto simp: x emit_scalar_def predicate_or_unknown_def ok_or_def)
  qed
  moreover have "\<exists>a. emit_node st x = Inr a" if "x \<in> set lo" for x
  proof -
    obtain p ob t v where x: "x = ((p, ob), (t, v))" by (cases x) auto
    with that b(3) have "hm_get lo (p, ob) = Some (t, v)" by (simp add: hm_get_def)
    with b(4) [of p ob] obtain g where "?m cf_EPO (encode_epo_key edge p ob g t) = Some v"
      by (auto simp: newest_of_def relation_notes_def)
    with assms(3) [of p ob g t] show ?thesis
      by (auto simp: x emit_node_def predicate_or_unknown_def ok_or_def)
  qed
  ultimately obtain oss nodes where "rtraverse (emit_scalar E st) la = Inr oss" "rtraverse (emit_node st) lo = Inr nodes"
    using rtraverse_ok [of "emit_scalar E st" la] rtraverse_ok [of "emit_node st" lo] by metis
  with a(1,2) b(1,2) show ?thesis by (simp add: scan_edge_annotations_with_def Let_def)
qed

lemma edge_annotations_set:
  assumes "annotations_ok (view E (st_db st))" and "scan_edge_annotations_with E st edge ts readable = Inr out"
  shows "\<lparr>ann_predicate = Predicate name, ann_value = NodeRef ob\<rparr> \<in> set out \<longleftrightarrow>
      (\<exists>p. predicate_string st p = Some name \<and> relation_notes (view E (st_db st)) edge ts readable p ob \<noteq> {})"
    and "\<lparr>ann_predicate = Predicate name, ann_value = Scalar v\<rparr> \<in> set out \<Longrightarrow>
      \<exists>p t b r. predicate_string st p = Some name \<and> decode_value E b = Inr (DecodedProperty v r) \<and>
        newest_of (property_notes (view E (st_db st)) edge ts readable p) (Some (t, b))"
    and "property_notes (view E (st_db st)) edge ts readable p \<noteq> {} \<Longrightarrow>
      \<exists>t b name. newest_of (property_notes (view E (st_db st)) edge ts readable p) (Some (t, b)) \<and>
        predicate_string st p = Some name \<and>
        (\<forall>v r. decode_value E b = Inr (DecodedProperty v r) \<longrightarrow>
          \<lparr>ann_predicate = Predicate name, ann_value = Scalar v\<rparr> \<in> set out)"
proof -
  let ?m = "view E (st_db st)"
  obtain items la where a: "db_scan E (st_db st) cf_EPA (annotation_prefix_edge edge) = Inr items"
    "rfold (newest_step ts readable decode_epa_key epa_tt epa_g epa_pred) items [] = Inr la"
    "distinct (map fst la)" "\<And>p. newest_of (property_notes ?m edge ts readable p) (hm_get la p)"
    by (rule epa_fold [OF assms(1), of edge ts readable]) (rule that)
  obtain items' lo where b: "db_scan E (st_db st) cf_EPO (annotation_prefix_edge edge) = Inr items'"
    "rfold (newest_step ts readable decode_epo_key epo_tt epo_g (\<lambda>k. (epo_pred k, epo_object k))) items' [] = Inr lo"
    "distinct (map fst lo)" "\<And>p ob. newest_of (relation_notes ?m edge ts readable p ob) (hm_get lo (p, ob))"
    by (rule epo_fold [OF assms(1), of edge ts readable]) (rule that)
  obtain oss nodes where o: "rtraverse (emit_scalar E st) la = Inr oss" "rtraverse (emit_node st) lo = Inr nodes"
    "out = concat oss @ nodes"
    using assms(2) a(1,2) b(1,2) by (auto simp: scan_edge_annotations_with_def Let_def)
  note sets = rtraverse_set [OF o(1)] rtraverse_set [OF o(2)]
  have scal: "\<lparr>ann_predicate = pr, ann_value = w\<rparr> \<in> set (concat oss) \<longleftrightarrow>
      (\<exists>p t b name v r. (p, (t, b)) \<in> set la \<and> predicate_string st p = Some name \<and>
        decode_value E b = Inr (DecodedProperty v r) \<and> pr = Predicate name \<and> w = Scalar v)" for pr w
  proof -
    have "\<lparr>ann_predicate = pr, ann_value = w\<rparr> \<in> set (concat oss) \<longleftrightarrow>
        (\<exists>x\<in>set la. \<exists>os. emit_scalar E st x = Inr os \<and> \<lparr>ann_predicate = pr, ann_value = w\<rparr> \<in> set os)"
      unfolding set_concat UN_iff Bex_def sets(1) by blast
    also have "\<dots> \<longleftrightarrow> (\<exists>p t b. (p, (t, b)) \<in> set la \<and>
        (\<exists>os. emit_scalar E st (p, (t, b)) = Inr os \<and> \<lparr>ann_predicate = pr, ann_value = w\<rparr> \<in> set os))"
      by (force simp: split_paired_Ex Bex_def)
    also have "\<dots> \<longleftrightarrow> (\<exists>p t b. (p, (t, b)) \<in> set la \<and> (\<exists>name v r. predicate_string st p = Some name \<and>
        decode_value E b = Inr (DecodedProperty v r) \<and> pr = Predicate name \<and> w = Scalar v))"
      by (simp only: emit_scalar_mem)
    finally show ?thesis by (simp only: ex_simps simp_thms)
  qed
  have node: "\<lparr>ann_predicate = pr, ann_value = w\<rparr> \<in> set nodes \<longleftrightarrow>
      (\<exists>p ob x name. ((p, ob), x) \<in> set lo \<and> predicate_string st p = Some name \<and>
        pr = Predicate name \<and> w = NodeRef ob)" for pr w
  proof -
    have "\<lparr>ann_predicate = pr, ann_value = w\<rparr> \<in> set nodes \<longleftrightarrow>
        (\<exists>p ob x. ((p, ob), x) \<in> set lo \<and> emit_node st ((p, ob), x) = Inr \<lparr>ann_predicate = pr, ann_value = w\<rparr>)"
      unfolding sets(2) by (force simp: split_paired_Ex Bex_def)
    then show ?thesis unfolding emit_node_eq by auto
  qed
  have get: "(i, w) \<in> set xs \<longleftrightarrow> hm_get xs i = Some w" if "distinct (map fst xs)" for i w and xs :: "('i \<times> 'w) list"
    using that by (simp add: hm_get_def map_of_eq_Some_iff)
  have here: "(\<exists>x. hm_get lo (p, ob) = Some x) \<longleftrightarrow> relation_notes ?m edge ts readable p ob \<noteq> {}" for p ob
    using b(4) [of p ob] by (auto simp: newest_of_def split: option.splits)
  show "\<lparr>ann_predicate = Predicate name, ann_value = NodeRef ob\<rparr> \<in> set out \<longleftrightarrow>
      (\<exists>p. predicate_string st p = Some name \<and> relation_notes ?m edge ts readable p ob \<noteq> {})"
  proof -
    have "\<lparr>ann_predicate = Predicate name, ann_value = NodeRef ob\<rparr> \<in> set out \<longleftrightarrow>
        (\<exists>p x. ((p, ob), x) \<in> set lo \<and> predicate_string st p = Some name)"
      unfolding o(3) set_append Un_iff scal node by auto
    then show ?thesis unfolding get [OF b(3)] using here by blast
  qed
  show "\<exists>p t b r. predicate_string st p = Some name \<and> decode_value E b = Inr (DecodedProperty v r) \<and>
      newest_of (property_notes ?m edge ts readable p) (Some (t, b))"
    if "\<lparr>ann_predicate = Predicate name, ann_value = Scalar v\<rparr> \<in> set out"
  proof -
    have "\<exists>p t b r. (p, (t, b)) \<in> set la \<and> predicate_string st p = Some name \<and>
        decode_value E b = Inr (DecodedProperty v r)"
      using that unfolding o(3) set_append Un_iff scal node by auto
    then show ?thesis unfolding get [OF a(3)] using a(4) by metis
  qed
  show "\<exists>t b name. newest_of (property_notes ?m edge ts readable p) (Some (t, b)) \<and>
      predicate_string st p = Some name \<and>
      (\<forall>v r. decode_value E b = Inr (DecodedProperty v r) \<longrightarrow>
        \<lparr>ann_predicate = Predicate name, ann_value = Scalar v\<rparr> \<in> set out)"
    if ne: "property_notes ?m edge ts readable p \<noteq> {}"
  proof -
    obtain t b where tb: "hm_get la p = Some (t, b)"
      using ne a(4) [of p] by (cases "hm_get la p") (simp_all add: newest_of_def split: prod.splits)
    then have mem: "(p, (t, b)) \<in> set la" using get [OF a(3)] by blast
    then have "\<exists>os. emit_scalar E st (p, (t, b)) = Inr os"
      using o(1) rtraverse_ok [of "emit_scalar E st" la] by metis
    then obtain name where name: "predicate_string st p = Some name"
      by (auto simp: emit_scalar_def predicate_or_unknown_def ok_or_def split: option.splits)
    have "\<lparr>ann_predicate = Predicate name, ann_value = Scalar v\<rparr> \<in> set out"
      if "decode_value E b = Inr (DecodedProperty v r)" for v r
      unfolding o(3) set_append Un_iff scal using mem name that by blast
    with name tb a(4) [of p] show ?thesis by auto
  qed
qed

end



section \<open>What the text search returns\<close>

lemma fold_inter: "set (fold (\<lambda>other cs. filter (\<lambda>n. n \<in> set other) cs) xss cs) = set cs \<inter> (\<Inter>xs\<in>set xss. set xs)"
  by (induction xss arbitrary: cs) auto

lemma confirm_all_set:
  assumes "confirm_all E now st lower pred q at ns = Inr out"
  shows "n \<in> set out \<longleftrightarrow> n \<in> set ns \<and>
    (\<exists>triples. scan_by_subject_predicate_at E now st n pred at = Inr triples \<and> list_ex (confirms lower q) triples)"
  using assms
proof (induction E now st lower pred q at ns arbitrary: out rule: confirm_all.induct)
  case (2 E now st lower pred q at m ns)
  then obtain triples out' where u: "scan_by_subject_predicate_at E now st m pred at = Inr triples"
    "confirm_all E now st lower pred q at ns = Inr out'"
    "out = (if list_ex (confirms lower q) triples then m # out' else out')" by auto
  have "n \<in> set out' \<longleftrightarrow> n \<in> set ns \<and>
    (\<exists>triples. scan_by_subject_predicate_at E now st n pred at = Inr triples \<and> list_ex (confirms lower q) triples)"
    using 2 u by blast
  with u show ?case by (cases "n = m") auto
qed simp

definition indexed :: "contents \<Rightarrow> u32 \<Rightarrow> bytes \<Rightarrow> node_id \<Rightarrow> bool" where
  "indexed m p tg n \<longleftrightarrow>
    (\<exists>k v x. m cf_TRI k = Some v \<and> prefix (tri_prefix_tp tg p) k \<and> decode_tri k = Inr (x, n))"

context kv_engine
begin

lemma trigram_candidates: "n \<in> set (scan_trigram_candidates E st p tg) \<longleftrightarrow> indexed (view E (st_db st)) p tg n"
proof -
  obtain items where items: "db_scan E (st_db st) cf_TRI (tri_prefix_tp tg p) = Inr items"
    "\<And>k v. (k, v) \<in> set items \<longleftrightarrow> view E (st_db st) cf_TRI k = Some v \<and> prefix (tri_prefix_tp tg p) k"
    by (rule db_scanE [of cf_TRI "st_db st" "tri_prefix_tp tg p"]) (simp add: cf_ALL_def, rule that)
  have "n \<in> set (scan_trigram_candidates E st p tg) \<longleftrightarrow> (\<exists>k v x. (k, v) \<in> set items \<and> decode_tri k = Inr (x, n))"
  proof -
    have one: "n \<in> set (case decode_tri k of Inr (_, n) \<Rightarrow> [n] | Inl _ \<Rightarrow> []) \<longleftrightarrow> (\<exists>x. decode_tri k = Inr (x, n))" for k
      by (cases "decode_tri k") auto
    have "n \<in> set (scan_trigram_candidates E st p tg) \<longleftrightarrow>
        (\<exists>(k, v)\<in>set items. n \<in> set (case decode_tri k of Inr (_, n) \<Rightarrow> [n] | Inl _ \<Rightarrow> []))"
      by (simp add: scan_trigram_candidates_def items(1) split_def)
    then show ?thesis unfolding one by (auto simp: Bex_def)
  qed
  then show ?thesis unfolding items(2) indexed_def by blast
qed

lemma text_search_set:
  assumes "text_search_at E now st lower pred query at = Inr out" and "predicate_id st pred = Some p"
    and "query \<noteq> []"
  shows "n \<in> set out \<longleftrightarrow>
    (\<forall>tg\<in>set (extract_trigrams query). indexed (view E (st_db st)) p tg n) \<and>
    (\<exists>triples. scan_by_subject_predicate_at E now st n pred at = Inr triples \<and>
      list_ex (confirms lower (lower query)) triples)"
proof -
  define sets where "sets = sort_key length (map (scan_trigram_candidates E st p) (extract_trigrams query))"
  have ne: "extract_trigrams query \<noteq> []"
  proof (cases "length (as_bytes query) < 3")
    case False
    then obtain a b c rest where "as_bytes query = a # b # c # rest"
      by (metis One_nat_def Suc_1 length_0_conv length_Suc_conv list.exhaust not_less_eq numeral_3_eq_3 zero_less_Suc)
    then have "windows3 (as_bytes query) \<noteq> []" by simp
    moreover have "as_bytes query \<noteq> []" using assms(3) by (simp add: as_bytes_def)
    ultimately show ?thesis using False by (simp add: extract_trigrams_def Let_def)
  qed (use assms(3) in \<open>simp add: extract_trigrams_def Let_def as_bytes_def\<close>)
  have all: "set sets = scan_trigram_candidates E st p ` set (extract_trigrams query)" by (simp add: sets_def)
  have "sets \<noteq> []" using ne all by auto
  have "confirm_all E now st lower pred (lower query) at
      (fold (\<lambda>other cs. filter (\<lambda>n. n \<in> set other) cs) (tl sets) (remdups (hd sets))) = Inr out"
    using assms(1,2) ne by (simp add: text_search_at_def Let_def sets_def)
  note out = confirm_all_set [OF this, of n]
  have "n \<in> set (fold (\<lambda>other cs. filter (\<lambda>n. n \<in> set other) cs) (tl sets) (remdups (hd sets))) \<longleftrightarrow>
      (\<forall>xs\<in>insert (hd sets) (set (tl sets)). n \<in> set xs)"
    by (auto simp: fold_inter)
  also have "insert (hd sets) (set (tl sets)) = scan_trigram_candidates E st p ` set (extract_trigrams query)"
    using all \<open>sets \<noteq> []\<close> by (metis list.exhaust_sel list.set(2))
  finally have "n \<in> set (fold (\<lambda>other cs. filter (\<lambda>n. n \<in> set other) cs) (tl sets) (remdups (hd sets))) \<longleftrightarrow>
      (\<forall>tg\<in>set (extract_trigrams query). n \<in> set (scan_trigram_candidates E st p tg))" by simp
  then show ?thesis unfolding out trigram_candidates by blast
qed

end

text \<open>
  A query of three bytes or more that occurs in a text has only trigrams of the text; a shorter one
  has a single padded trigram, which no text of three bytes or more without NUL has.
\<close>

lemma extract_trigrams_long: "3 \<le> length s \<Longrightarrow> set (extract_trigrams s) = set (windows3 (as_bytes s))"
  by (auto simp: extract_trigrams_def Let_def as_bytes_def)

lemma trigrams_of_part:
  assumes "sublist query s" and "3 \<le> length query"
  shows "set (extract_trigrams query) \<subseteq> set (extract_trigrams s)"
proof
  have "3 \<le> length s" using assms sublist_length_le [OF assms(1)] by simp
  moreover have "sublist (as_bytes query) (as_bytes s)"
    using assms(1) unfolding sublist_def as_bytes_def by (metis map_append)
  moreover fix tg assume "tg \<in> set (extract_trigrams query)"
  ultimately show "tg \<in> set (extract_trigrams s)"
    using assms(2) by (simp add: extract_trigrams_long windows3_iff_sublist) (metis sublist_order.order_trans)
qed

lemma short_query_not_found:
  assumes "query \<noteq> []" and "length query < 3" and "3 \<le> length s" and "CHR 0x00 \<notin> set s"
  shows "set (extract_trigrams query) \<inter> set (extract_trigrams s) = {}"
proof -
  let ?q = "as_bytes query @ replicate (3 - length query) 0"
  have "0 \<in> set ?q" using assms(2) by auto
  moreover have "0 \<notin> set tg" if "tg \<in> set (windows3 (as_bytes s))" for tg
    using that assms(4) zero_in_as_bytes_iff [of s] windows3_iff_sublist [of tg "as_bytes s"]
    by (meson set_mono_sublist subsetD)
  moreover have "set (extract_trigrams query) = {?q}"
    using assms(1,2) by (simp add: extract_trigrams_def Let_def as_bytes_def)
  ultimately have "?q \<notin> set (windows3 (as_bytes s))" by metis
  with \<open>set (extract_trigrams query) = {?q}\<close> show ?thesis by (simp only: extract_trigrams_long [OF assms(3)]) simp
qed

end
