(* ===== verification/Schema_Types.thy ===== *)
theory Schema_Types
  imports Core_Types
begin

text \<open>
  \<open>polargraph-core/src/schema.rs\<close>: node and edge type schemas, the levels of a graph grant and the
  built-in access-control types. A retention policy is in \<open>Retention\<close>.
\<close>


section \<open>Fields\<close>

datatype field_kind = KBool | KInt | KFloat | KText | KBlob | KVector

fun field_matches :: "field_kind \<Rightarrow> value \<Rightarrow> bool" where
  "field_matches KBool (VBool _) = True"
| "field_matches KInt (VInt _) = True"
| "field_matches KFloat (VFloat _) = True"
| "field_matches KText (VText _) = True"
| "field_matches KText (VLangText _ _) = True"
| "field_matches KBlob (VBlob _) = True"
| "field_matches KVector (VVector _) = True"
| "field_matches _ _ = False"

fun field_kind_str :: "field_kind \<Rightarrow> string" where
  "field_kind_str KBool = ''bool''"
| "field_kind_str KInt = ''int''"
| "field_kind_str KFloat = ''float''"
| "field_kind_str KText = ''text''"
| "field_kind_str KBlob = ''blob''"
| "field_kind_str KVector = ''vector''"

record field_def =
  fd_name :: string
  fd_kind :: field_kind
  fd_required :: bool

definition field_required :: "string \<Rightarrow> field_kind \<Rightarrow> field_def" where
  "field_required n k = \<lparr>fd_name = n, fd_kind = k, fd_required = True\<rparr>"

definition field_optional :: "string \<Rightarrow> field_kind \<Rightarrow> field_def" where
  "field_optional n k = \<lparr>fd_name = n, fd_kind = k, fd_required = False\<rparr>"


section \<open>Vector spaces\<close>

datatype storage_mode = Memory | Mmap

record vector_space_def =
  vs_space_name :: string
  vs_dimensions :: u32
  vs_embedding_model :: "string option"
  vs_storage_mode :: storage_mode
  vs_quantization :: "string option"

definition vector_space_new :: "string \<Rightarrow> u32 \<Rightarrow> vector_space_def" where
  "vector_space_new name dims =
    \<lparr>vs_space_name = name, vs_dimensions = dims, vs_embedding_model = None,
     vs_storage_mode = Memory, vs_quantization = None\<rparr>"

definition is_int8 :: "vector_space_def \<Rightarrow> bool" where
  "is_int8 d \<longleftrightarrow> vs_quantization d = Some ''int8''"


section \<open>Node and edge types\<close>

datatype cardinality = Many | OneToMany | ManyToOne | OneToOne

record node_type_def =
  nt_name :: string
  nt_fields :: "field_def list"
  nt_vector_space :: "vector_space_def option"
  nt_parents :: "string list"

definition node_type_new :: "string \<Rightarrow> field_def list \<Rightarrow> node_type_def" where
  "node_type_new n fs = \<lparr>nt_name = n, nt_fields = fs, nt_vector_space = None, nt_parents = []\<rparr>"

definition with_parent_types :: "string list \<Rightarrow> node_type_def \<Rightarrow> node_type_def" where
  "with_parent_types ps d = d\<lparr>nt_parents := ps\<rparr>"

record edge_type_def =
  et_predicate :: string
  et_domain :: "string option"
  et_range :: "string option"
  et_fields :: "field_def list"
  et_cardinality :: cardinality
  et_inverse_of :: "string option"

definition edge_type_new ::
  "string \<Rightarrow> string option \<Rightarrow> string option \<Rightarrow> field_def list \<Rightarrow> edge_type_def" where
  "edge_type_new p dm rg fs =
    \<lparr>et_predicate = p, et_domain = dm, et_range = rg, et_fields = fs, et_cardinality = Many,
     et_inverse_of = None\<rparr>"


section \<open>Access control\<close>

definition BUILTIN_USER_TYPE :: string where "BUILTIN_USER_TYPE = ''User''"
definition BUILTIN_GROUP_TYPE :: string where "BUILTIN_GROUP_TYPE = ''Group''"
definition BUILTIN_MEMBER_OF_PRED :: string where "BUILTIN_MEMBER_OF_PRED = ''MEMBER_OF''"
definition BUILTIN_HAS_ACCESS_PRED :: string where "BUILTIN_HAS_ACCESS_PRED = ''HAS_ACCESS''"
definition BUILTIN_HAS_GRAPH_ACCESS_PRED :: string where
  "BUILTIN_HAS_GRAPH_ACCESS_PRED = ''HAS_GRAPH_ACCESS''"
definition BUILTIN_GRAPH_ACCESS_LEVEL_PRED :: string where
  "BUILTIN_GRAPH_ACCESS_LEVEL_PRED = ''GRAPH_ACCESS_LEVEL''"

text \<open>The derived order of \<open>GraphAccessLevel\<close> follows its discriminants.\<close>

datatype access_level = LRead | LPropose | LWrite | LAdmin

fun level_rank :: "access_level \<Rightarrow> nat" where
  "level_rank LRead = 0"
| "level_rank LPropose = 1"
| "level_rank LWrite = 2"
| "level_rank LAdmin = 3"

lemma level_rank_inject: "level_rank a = level_rank b \<longleftrightarrow> a = b"
  by (cases a; cases b) auto

instantiation access_level :: linorder
begin

definition less_eq_access_level :: "access_level \<Rightarrow> access_level \<Rightarrow> bool" where
  "less_eq_access_level a b = (level_rank a \<le> level_rank b)"

definition less_access_level :: "access_level \<Rightarrow> access_level \<Rightarrow> bool" where
  "less_access_level a b = (level_rank a < level_rank b)"

instance
  by standard (auto simp: less_eq_access_level_def less_access_level_def level_rank_inject)

end

fun level_str :: "access_level \<Rightarrow> string" where
  "level_str LRead = ''read''"
| "level_str LPropose = ''propose''"
| "level_str LWrite = ''write''"
| "level_str LAdmin = ''admin''"

definition level_ALL :: "access_level list" where
  "level_ALL = [LRead, LPropose, LWrite, LAdmin]"

definition level_parse :: "string \<Rightarrow> access_level option" where
  "level_parse s = find (\<lambda>l. eq_ignore_ascii_case (level_str l) s) level_ALL"

definition builtin_node_types :: "node_type_def list" where
  "builtin_node_types =
    [node_type_new BUILTIN_USER_TYPE [field_optional ''display_name'' KText],
     node_type_new BUILTIN_GROUP_TYPE [field_required ''name'' KText]]"

definition builtin_edge_types :: "edge_type_def list" where
  "builtin_edge_types =
    [edge_type_new BUILTIN_MEMBER_OF_PRED (Some BUILTIN_USER_TYPE) (Some BUILTIN_GROUP_TYPE) [],
     edge_type_new BUILTIN_HAS_ACCESS_PRED (Some BUILTIN_GROUP_TYPE) None []]"

lemma level_parse_str: "level_parse (level_str l) = Some l"
  by (cases l; simp add: level_parse_def level_ALL_def eq_ignore_ascii_case_def to_ascii_lowercase_def
      ascii_lower_def)

end
