(* ===== verification/Type_Registry.thy ===== *)
theory Type_Registry
  imports Schema_Types Store_Queries
begin

text \<open>
  \<open>polargraph-storage/src/registry.rs\<close>: the registries of node and edge types. A registry holds the
  store and a cache (a \<open>HashMap\<close> behind a lock, here an association list); registering writes the
  schema as a property of one well-known node and then updates the cache. JSON is serde's: a
  parameter \<open>schema_codec\<close>. The recursion of \<open>collect_fields\<close> follows the parents without a guard,
  so it is a partial function; the other two walks of the hierarchy always end.
\<close>


section \<open>Names and the JSON layouts\<close>

definition SCHEMA_REGISTRY_NODE :: node_id where
  "SCHEMA_REGISTRY_NODE = node_id_from (as_bytes ''polargraph_schem'')"

definition SCHEMA_PREDICATE_PREFIX :: string where "SCHEMA_PREDICATE_PREFIX = ''__schema__/''"
definition EDGE_SCHEMA_PREDICATE_PREFIX :: string where
  "EDGE_SCHEMA_PREDICATE_PREFIX = ''__edge_schema__/''"

definition schema_predicate :: "string \<Rightarrow> string" where
  "schema_predicate n = SCHEMA_PREDICATE_PREFIX @ n"

definition type_name_from_predicate :: "string \<Rightarrow> string option" where
  "type_name_from_predicate p = strip_prefix SCHEMA_PREDICATE_PREFIX p"

definition edge_schema_predicate :: "string \<Rightarrow> string" where
  "edge_schema_predicate n = EDGE_SCHEMA_PREDICATE_PREFIX @ n"

definition predicate_name_from_edge_schema :: "string \<Rightarrow> string option" where
  "predicate_name_from_edge_schema p = strip_prefix EDGE_SCHEMA_PREDICATE_PREFIX p"

record node_schema_json =
  ns_fields :: "field_def list"
  ns_vector_space :: "vector_space_def option"
  ns_parents :: "string list"

record edge_schema_json =
  es_domain :: "string option"
  es_range :: "string option"
  es_fields :: "field_def list"
  es_cardinality :: cardinality
  es_inverse_of :: "string option"

record schema_codec =
  node_to_json :: "node_schema_json \<Rightarrow> string + string"
  node_from_json :: "string \<Rightarrow> node_schema_json option"
  fields_from_json :: "string \<Rightarrow> field_def list option"
  edge_to_json :: "edge_schema_json \<Rightarrow> string + string"
  edge_from_json :: "string \<Rightarrow> edge_schema_json option"

record validation_error =
  ve_field :: string
  ve_message :: string

definition quoted :: "string \<Rightarrow> string" where
  "quoted s = CHR 0x27 # s @ [CHR 0x27]"

definition missing_field :: "string \<Rightarrow> validation_error" where
  "missing_field f = \<lparr>ve_field = f, ve_message = ''required field '' @ quoted f @ '' is missing''\<rparr>"

definition wrong_kind :: "string \<Rightarrow> string \<Rightarrow> string \<Rightarrow> validation_error" where
  "wrong_kind f expected got =
    \<lparr>ve_field = f, ve_message = ''field '' @ quoted f @ '' expected '' @ expected @ '' but got '' @ got\<rparr>"

fun value_kind_name :: "value \<Rightarrow> string" where
  "value_kind_name VNull = ''null''"
| "value_kind_name (VBool _) = ''bool''"
| "value_kind_name (VInt _) = ''int''"
| "value_kind_name (VFloat _) = ''float''"
| "value_kind_name (VText _) = ''text''"
| "value_kind_name (VBlob _) = ''blob''"
| "value_kind_name (VVector _) = ''vector''"
| "value_kind_name (VLangText _ _) = ''lang_text''"
| "value_kind_name (VTyped _ _) = ''typed''"


section \<open>The hierarchy of node types\<close>

type_synonym type_cache = "(string \<times> node_type_def) list"

definition parents_of :: "type_cache \<Rightarrow> string \<Rightarrow> string list" where
  "parents_of cache n = (case hm_get cache n of None \<Rightarrow> [] | Some d \<Rightarrow> nt_parents d)"

definition parent_rel :: "type_cache \<Rightarrow> (string \<times> string) set" where
  "parent_rel cache = {(c, p). p \<in> set (parents_of cache c)}"

lemma hm_get_fst: "hm_get m k = Some v \<Longrightarrow> k \<in> fst ` set m"
  by (auto dest: hm_get_in_set intro: rev_image_eqI)

text \<open>\<open>dfs_cycle_check\<close>: False when a name of \<open>anc\<close>, or one already on the path, is met.\<close>

function dfs_cycle_check :: "type_cache \<Rightarrow> string set \<Rightarrow> string \<Rightarrow> bool" where
  "dfs_cycle_check cache anc cur =
    (if cur \<in> anc then False
     else case hm_get cache cur of
       None \<Rightarrow> True
     | Some d \<Rightarrow> list_all (\<lambda>p. dfs_cycle_check cache (insert cur anc) p) (nt_parents d))"
  by auto
termination
proof (relation "measure (\<lambda>(cache, anc, _). card (fst ` set cache - anc))", goal_cases)
  case (2 cache anc cur d p)
  then have "cur \<in> fst ` set cache - anc" using hm_get_fst by fastforce
  then have "fst ` set cache - insert cur anc \<subset> fst ` set cache - anc" by blast
  then show ?case by (simp add: psubset_card_mono)
qed simp

declare dfs_cycle_check.simps [simp del]

definition cycle_error :: "string \<Rightarrow> string \<Rightarrow> storage_error" where
  "cycle_error n p = ValidationError (''cycle detected in type hierarchy: '' @ quoted n @
     '' '' @ [CHR 0xE2, CHR 0x86, CHR 0x92] @ '' '' @ quoted p)"

fun check_parents :: "type_cache \<Rightarrow> string \<Rightarrow> string list \<Rightarrow> unit res" where
  "check_parents cache n [] = Inr ()"
| "check_parents cache n (p # ps) =
    (if \<not> dfs_cycle_check cache {n} p then Inl (cycle_error n p) else check_parents cache n ps)"

definition check_no_cycle :: "string \<Rightarrow> string list \<Rightarrow> type_cache \<Rightarrow> unit res" where
  "check_no_cycle n parents cache = check_parents cache n parents"

text \<open>
  \<open>walk_ancestors\<close>: its loops over the parents, nested by recursion, are one work list; a name that
  is inserted into \<open>visited\<close> puts its own parents in front.
\<close>

function walk_list :: "type_cache \<Rightarrow> string \<Rightarrow> string set \<Rightarrow> string list \<Rightarrow> bool" where
  "walk_list cache ancestor visited [] = False"
| "walk_list cache ancestor visited (p # ps) =
    (if p = ancestor then True
     else if p \<notin> visited then walk_list cache ancestor (insert p visited) (parents_of cache p @ ps)
     else walk_list cache ancestor visited ps)"
  by pat_completeness auto
termination
proof (relation "measures [\<lambda>(cache, _, vis, _). card (fst ` set cache - vis), \<lambda>(_, _, _, ps). length ps]",
    goal_cases)
  case (2 cache ancestor visited p ps)
  show ?case
  proof (cases "p \<in> fst ` set cache")
    case True
    then have "fst ` set cache - insert p visited \<subset> fst ` set cache - visited" using 2 by blast
    then show ?thesis by (simp add: psubset_card_mono)
  next
    case False
    then have "hm_get cache p = None" using hm_get_fst [of cache p] by (cases "hm_get cache p") auto
    then have "parents_of cache p = []" by (simp add: parents_of_def)
    moreover have "fst ` set cache - insert p visited = fst ` set cache - visited" using False by blast
    ultimately show ?thesis by simp
  qed
qed simp_all

definition is_subtype_of :: "type_cache \<Rightarrow> string \<Rightarrow> string \<Rightarrow> bool" where
  "is_subtype_of cache n ancestor = (n = ancestor \<or> walk_list cache ancestor {} (parents_of cache n))"

text \<open>
  \<open>collect_fields\<close>: the calls still to make are the work list. There is no guard against a cycle,
  so the walk may not end (\<open>None\<close>).
\<close>

definition add_field :: "field_def \<Rightarrow> string set \<times> field_def list \<Rightarrow> string set \<times> field_def list" where
  "add_field f = (\<lambda>(seen, out).
    if fd_name f \<in> seen then (seen, out) else (insert (fd_name f) seen, out @ [f]))"

partial_function (option) collect_fields ::
  "type_cache \<Rightarrow> string list \<Rightarrow> string set \<times> field_def list \<Rightarrow> field_def list option" where
  "collect_fields cache stack acc =
    (case stack of [] \<Rightarrow> Some (snd acc)
     | n # ns \<Rightarrow>
       (case hm_get cache n of
          None \<Rightarrow> collect_fields cache ns acc
        | Some d \<Rightarrow> collect_fields cache (nt_parents d @ ns) (fold add_field (nt_fields d) acc)))"

definition resolved_fields :: "type_cache \<Rightarrow> string \<Rightarrow> field_def list option" where
  "resolved_fields cache n = collect_fields cache [n] ({}, [])"


section \<open>The registry of node types\<close>

record 'd node_registry =
  nr_store :: "'d store"
  nr_cache :: type_cache

definition node_wire :: "node_type_def \<Rightarrow> node_schema_json" where
  "node_wire d = \<lparr>ns_fields = nt_fields d, ns_vector_space = nt_vector_space d, ns_parents = nt_parents d\<rparr>"

definition schema_triple :: "timestamp \<Rightarrow> string \<Rightarrow> string \<Rightarrow> triple" where
  "schema_triple now pred json =
    Property SCHEMA_REGISTRY_NODE (Predicate pred) (VText json) (assert_now now now)"

definition register_type ::
  "('d, 'm) env_scheme \<Rightarrow> schema_codec \<Rightarrow> timestamp \<Rightarrow> timestamp \<Rightarrow> node_type_def \<Rightarrow>
    ('d node_registry, unit) op" where
  "register_type E X now wall d R =
    (case check_no_cycle (nt_name d) (nt_parents d) (nr_cache R) of
       Inl e \<Rightarrow> (Inl e, R)
     | Inr _ \<Rightarrow>
       (case from_serde (node_to_json X (node_wire d)) of
          Inl e \<Rightarrow> (Inl e, R)
        | Inr json \<Rightarrow>
          (case store_insert E wall (schema_triple now (schema_predicate (nt_name d)) json) (nr_store R) of
             (Inl e, st') \<Rightarrow> (Inl e, R\<lparr>nr_store := st'\<rparr>)
           | (Inr _, st') \<Rightarrow>
               (Inr (), R\<lparr>nr_store := st', nr_cache := hm_insert (nt_name d) d (nr_cache R)\<rparr>))))"

text \<open>
  Two clients: \<open>register_type\<close> checks under a read lock of the cache, gives it back, writes the
  store, and takes the write lock to insert. Between the two another client may do the same. A state
  is the cache and the definitions checked but not inserted yet.
\<close>

inductive registry_step ::
  "type_cache \<times> node_type_def list \<Rightarrow> type_cache \<times> node_type_def list \<Rightarrow> bool" where
  registry_checks: "check_no_cycle (nt_name d) (nt_parents d) cache = Inr () \<Longrightarrow>
    registry_step (cache, ds) (cache, d # ds)"
| registry_inserts: "d \<in> set ds \<Longrightarrow>
    registry_step (cache, ds) (hm_insert (nt_name d) d cache, remove1 d ds)"

definition get_type :: "'d node_registry \<Rightarrow> string \<Rightarrow> node_type_def option" where
  "get_type R n = hm_get (nr_cache R) n"

definition list_types :: "'d node_registry \<Rightarrow> node_type_def list" where
  "list_types R = map snd (nr_cache R)"

definition get_space_def :: "'d node_registry \<Rightarrow> string \<Rightarrow> vector_space_def option" where
  "get_space_def R space =
    find (\<lambda>v. vs_space_name v = space) (List.map_filter nt_vector_space (list_types R))"

fun load_node_types :: "schema_codec \<Rightarrow> triple list \<Rightarrow> type_cache \<Rightarrow> type_cache" where
  "load_node_types X [] cache = cache"
| "load_node_types X (Property _ p (VText json) _ # ts) cache =
    (case type_name_from_predicate (pred_str p) of
       None \<Rightarrow> load_node_types X ts cache
     | Some n \<Rightarrow>
       (case node_from_json X json of
          Some w \<Rightarrow> load_node_types X ts (hm_insert n
            \<lparr>nt_name = n, nt_fields = ns_fields w, nt_vector_space = ns_vector_space w,
             nt_parents = ns_parents w\<rparr> cache)
        | None \<Rightarrow>
          (case fields_from_json X json of
             Some fs \<Rightarrow> load_node_types X ts (hm_insert n (node_type_new n fs) cache)
           | None \<Rightarrow> load_node_types X ts cache)))"
| "load_node_types X (_ # ts) cache = load_node_types X ts cache"

definition registry_scan ::
  "('d, 'm) env_scheme \<Rightarrow> timestamp \<Rightarrow> 'd store \<Rightarrow> triple list res" where
  "registry_scan E now st =
    scan_by_subject_at E now st SCHEMA_REGISTRY_NODE
      (read_at_of (snapshot_new now (tx_read_ts (begin_tx st))))"

definition node_registry_new ::
  "('d, 'm) env_scheme \<Rightarrow> schema_codec \<Rightarrow> timestamp \<Rightarrow> 'd store \<Rightarrow> 'd node_registry res" where
  "node_registry_new E X now st =
    rbind (registry_scan E now st) (\<lambda>ts. Inr \<lparr>nr_store = st, nr_cache = load_node_types X ts []\<rparr>)"

text \<open>The check both registries make of the declared fields.\<close>

fun field_errors :: "(string \<times> value) list \<Rightarrow> field_def list \<Rightarrow> validation_error list" where
  "field_errors props [] = []"
| "field_errors props (f # fs) =
    (case hm_get props (fd_name f) of
       None \<Rightarrow> (if fd_required f then [missing_field (fd_name f)] else [])
     | Some v \<Rightarrow>
         (if \<not> field_matches (fd_kind f) v
          then [wrong_kind (fd_name f) (field_kind_str (fd_kind f)) (value_kind_name v)] else []))
    @ field_errors props fs"

definition ok_if_none :: "validation_error list \<Rightarrow> validation_error list + unit" where
  "ok_if_none errs = (if errs = [] then Inr () else Inl errs)"

definition validate_properties ::
  "'d node_registry \<Rightarrow> string \<Rightarrow> (string \<times> value) list \<Rightarrow> (validation_error list + unit) option" where
  "validate_properties R n props =
    (if get_type R n = None
     then Some (Inl [\<lparr>ve_field = [], ve_message = ''unknown type '' @ quoted n\<rparr>])
     else map_option (\<lambda>fs. ok_if_none (field_errors props fs)) (resolved_fields (nr_cache R) n))"


section \<open>The registry of edge types\<close>

type_synonym edge_cache = "(string \<times> edge_type_def) list"

record 'd edge_registry =
  er_store :: "'d store"
  er_cache :: edge_cache

definition edge_wire :: "edge_type_def \<Rightarrow> edge_schema_json" where
  "edge_wire d = \<lparr>es_domain = et_domain d, es_range = et_range d, es_fields = et_fields d,
    es_cardinality = et_cardinality d, es_inverse_of = et_inverse_of d\<rparr>"

definition register_edge_type ::
  "('d, 'm) env_scheme \<Rightarrow> schema_codec \<Rightarrow> timestamp \<Rightarrow> timestamp \<Rightarrow> edge_type_def \<Rightarrow>
    ('d edge_registry, unit) op" where
  "register_edge_type E X now wall d R =
    (case from_serde (edge_to_json X (edge_wire d)) of
       Inl e \<Rightarrow> (Inl e, R)
     | Inr json \<Rightarrow>
       (case store_insert E wall (schema_triple now (edge_schema_predicate (et_predicate d)) json)
               (er_store R) of
          (Inl e, st') \<Rightarrow> (Inl e, R\<lparr>er_store := st'\<rparr>)
        | (Inr _, st') \<Rightarrow>
            (Inr (), R\<lparr>er_store := st', er_cache := hm_insert (et_predicate d) d (er_cache R)\<rparr>)))"

definition get_edge_type :: "'d edge_registry \<Rightarrow> string \<Rightarrow> edge_type_def option" where
  "get_edge_type R p =
    (case hm_get (er_cache R) p of
       Some d \<Rightarrow> Some d
     | None \<Rightarrow>
        (let V = st_vocab (er_store R); iri = expand V p in
         map_option snd (find (\<lambda>(n, _). expand V n = iri) (er_cache R))))"

definition list_edge_types :: "'d edge_registry \<Rightarrow> edge_type_def list" where
  "list_edge_types R = map snd (er_cache R)"

definition list_predicates_between :: "'d edge_registry \<Rightarrow> string \<Rightarrow> string \<Rightarrow> string list" where
  "list_predicates_between R dty rty =
    map et_predicate (filter (\<lambda>d. (case et_domain d of None \<Rightarrow> True | Some x \<Rightarrow> x = dty) \<and>
      (case et_range d of None \<Rightarrow> True | Some x \<Rightarrow> x = rty)) (list_edge_types R))"

definition endpoint_errors ::
  "string \<Rightarrow> string \<Rightarrow> string \<Rightarrow> string \<Rightarrow> string option \<Rightarrow> string option \<Rightarrow> validation_error list" where
  "endpoint_errors slot what side pred want got =
    (case want of None \<Rightarrow> []
     | Some w \<Rightarrow>
       (case got of
          None \<Rightarrow> [\<lparr>ve_field = slot, ve_message = ''predicate '' @ quoted pred @ '' requires '' @ what @ '' ''
            @ quoted w @ '' but '' @ side @ '' type is unknown''\<rparr>]
        | Some t \<Rightarrow> if t \<noteq> w
            then [\<lparr>ve_field = slot, ve_message = ''predicate '' @ quoted pred @ '' requires '' @ what @ '' ''
              @ quoted w @ '' but got '' @ quoted t\<rparr>]
            else []))"

definition validate_edge ::
  "'d edge_registry \<Rightarrow> string \<Rightarrow> string option \<Rightarrow> string option \<Rightarrow> (string \<times> value) list \<Rightarrow>
    validation_error list + unit" where
  "validate_edge R pred sty oty props =
    (case get_edge_type R pred of None \<Rightarrow> Inr ()
     | Some d \<Rightarrow> ok_if_none (
         endpoint_errors ''subject_type'' ''domain'' ''subject'' pred (et_domain d) sty
         @ endpoint_errors ''object_type'' ''range'' ''object'' pred (et_range d) oty
         @ field_errors props (et_fields d)))"

definition is_relation :: "triple \<Rightarrow> bool" where
  "is_relation t = (case t of Relation _ _ _ _ _ \<Rightarrow> True | _ \<Rightarrow> False)"

definition unwrap_or_default :: "'a list res \<Rightarrow> 'a list" where
  "unwrap_or_default r = (case r of Inl _ \<Rightarrow> [] | Inr xs \<Rightarrow> xs)"

definition cardinality_error :: "string \<Rightarrow> string \<Rightarrow> string \<Rightarrow> string \<Rightarrow> validation_error" where
  "cardinality_error slot pred one per =
    \<lparr>ve_field = slot, ve_message = ''cardinality violation: predicate '' @ quoted pred @
      '' allows at most one '' @ one @ '' per '' @ per\<rparr>"

definition validate_cardinality ::
  "('d, 'm) env_scheme \<Rightarrow> timestamp \<Rightarrow> 'd edge_registry \<Rightarrow> string \<Rightarrow> node_id \<Rightarrow> node_id \<Rightarrow> 'd store \<Rightarrow>
    validation_error + unit" where
  "validate_cardinality E now R pred s ob st =
    (case get_edge_type R pred of None \<Rightarrow> Inr ()
     | Some d \<Rightarrow>
       (let out_edges = list_ex is_relation (unwrap_or_default (scan_by_subject_predicate E now st s pred));
            in_edges = list_ex is_relation (unwrap_or_default (scan_by_predicate_object E now st pred ob));
            sub = cardinality_error ''subject'' pred ''object'' ''subject'';
            obj = cardinality_error ''object'' pred ''subject'' ''object''
        in case et_cardinality d of
             Many \<Rightarrow> Inr ()
           | OneToMany \<Rightarrow> if out_edges then Inl sub else Inr ()
           | ManyToOne \<Rightarrow> if in_edges then Inl obj else Inr ()
           | OneToOne \<Rightarrow> if out_edges then Inl sub else if in_edges then Inl obj else Inr ()))"

definition inverse_predicate :: "'d edge_registry \<Rightarrow> string \<Rightarrow> string option" where
  "inverse_predicate R p = (case hm_get (er_cache R) p of None \<Rightarrow> None | Some d \<Rightarrow> et_inverse_of d)"

fun load_edge_types :: "schema_codec \<Rightarrow> triple list \<Rightarrow> edge_cache \<Rightarrow> edge_cache" where
  "load_edge_types X [] cache = cache"
| "load_edge_types X (Property _ p (VText json) _ # ts) cache =
    (case predicate_name_from_edge_schema (pred_str p) of
       None \<Rightarrow> load_edge_types X ts cache
     | Some n \<Rightarrow>
       (case edge_from_json X json of
          Some w \<Rightarrow> load_edge_types X ts (hm_insert n
            \<lparr>et_predicate = n, et_domain = es_domain w, et_range = es_range w, et_fields = es_fields w,
             et_cardinality = es_cardinality w, et_inverse_of = es_inverse_of w\<rparr> cache)
        | None \<Rightarrow> load_edge_types X ts cache))"
| "load_edge_types X (_ # ts) cache = load_edge_types X ts cache"

definition edge_registry_new ::
  "('d, 'm) env_scheme \<Rightarrow> schema_codec \<Rightarrow> timestamp \<Rightarrow> 'd store \<Rightarrow> 'd edge_registry res" where
  "edge_registry_new E X now st =
    rbind (registry_scan E now st) (\<lambda>ts. Inr \<lparr>er_store = st, er_cache = load_edge_types X ts []\<rparr>)"

end
