(* ===== verification/Snapshot_Reads.thy ===== *)
theory Snapshot_Reads
  imports Store_Queries
begin

text \<open>
  The readers of a transaction and of a snapshot (\<open>polargraph-storage/src/mvcc.rs\<close>): the scans of the
  store at their read point. A transaction reads at its begin time and, for the valid time, at the
  clock of the moment (\<open>ReadAt::latest\<close>); a snapshot fixes both when it is made, so the clock argument
  \<open>now\<close> of its scans is never read.
\<close>


section \<open>A transaction\<close>

definition pending_triples :: "transaction \<Rightarrow> triple list" where
  "pending_triples tx = tx_buffer tx"

definition tx_read_at :: "transaction \<Rightarrow> read_at" where
  "tx_read_at tx = read_at_latest (tx_read_ts tx)"

definition tx_scan_by_subject where
  "tx_scan_by_subject E now st tx s = scan_by_subject_at E now st s (tx_read_at tx)"
definition tx_scan_by_subject_predicate where
  "tx_scan_by_subject_predicate E now st tx s pred = scan_by_subject_predicate_at E now st s pred (tx_read_at tx)"
definition tx_scan_by_predicate where
  "tx_scan_by_predicate E now st tx pred = scan_by_predicate_at E now st pred (tx_read_at tx)"
definition tx_scan_by_predicate_object where
  "tx_scan_by_predicate_object E now st tx pred ob = scan_by_predicate_object_at E now st pred ob (tx_read_at tx)"
definition tx_scan_by_object where
  "tx_scan_by_object E now st tx ob = scan_by_object_at E now st ob (tx_read_at tx)"
definition tx_scan_by_subject_object where
  "tx_scan_by_subject_object E now st tx s ob = scan_by_subject_object_at E now st s ob (tx_read_at tx)"
definition tx_scan_all where
  "tx_scan_all E now st tx = scan_all_at E now st (tx_read_at tx)"


section \<open>A snapshot\<close>

definition sn_scan_by_subject where
  "sn_scan_by_subject E now st sn s = scan_by_subject_at E now st s (read_at_of sn)"
definition sn_scan_by_subject_predicate where
  "sn_scan_by_subject_predicate E now st sn s pred = scan_by_subject_predicate_at E now st s pred (read_at_of sn)"
definition sn_scan_by_predicate where
  "sn_scan_by_predicate E now st sn pred = scan_by_predicate_at E now st pred (read_at_of sn)"
definition sn_scan_by_predicate_object where
  "sn_scan_by_predicate_object E now st sn pred ob = scan_by_predicate_object_at E now st pred ob (read_at_of sn)"
definition sn_scan_by_object where
  "sn_scan_by_object E now st sn ob = scan_by_object_at E now st ob (read_at_of sn)"
definition sn_scan_by_subject_object where
  "sn_scan_by_subject_object E now st sn s ob = scan_by_subject_object_at E now st s ob (read_at_of sn)"
definition sn_scan_all where
  "sn_scan_all E now st sn = scan_all_at E now st (read_at_of sn)"
definition sn_scan_by_predicate_value where
  "sn_scan_by_predicate_value E now st sn pred v = scan_by_predicate_value_at E now st pred v (read_at_of sn)"
definition sn_scan_graph where
  "sn_scan_graph E now st sn g = scan_graph_at E now st g (read_at_of sn)"
definition sn_scan_by_subject_in_graph where
  "sn_scan_by_subject_in_graph E now st sn g s = scan_by_subject_in_graph_at E now st g s (read_at_of sn)"
definition sn_scan_scoped where
  "sn_scan_scoped E now st sn s pred ob scope = scan_scoped_at E now st s pred ob scope (read_at_of sn)"
definition sn_text_search where
  "sn_text_search E now st lower sn pred query = text_search_at E now st lower pred query (read_at_of sn)"
definition sn_scan_edge_annotations where
  "sn_scan_edge_annotations E st sn e = scan_edge_annotations_with E st e (sn_ts sn) (sn_readable sn)"
definition sn_scan_annotations_by_predicate where
  "sn_scan_annotations_by_predicate E st sn pred =
    scan_annotations_by_predicate_with E st pred (sn_ts sn) (sn_readable sn)"
definition sn_scan_edge_annotations_as_triples where
  "sn_scan_edge_annotations_as_triples E now st sn e =
    scan_edge_annotations_as_triples_with E now st e (sn_ts sn) (sn_readable sn)"

lemmas snapshot_scan_defs = sn_scan_by_subject_def sn_scan_by_subject_predicate_def sn_scan_by_predicate_def
  sn_scan_by_predicate_object_def sn_scan_by_object_def sn_scan_by_subject_object_def sn_scan_all_def
  sn_scan_scoped_def

end
