(* ===== verification/Query_Plan.thy ===== *)
theory Query_Plan
  imports Type_Registry Snapshot_Reads
begin

text \<open>
  \<open>polargraph-query/src/planner.rs\<close> and \<open>eval.rs\<close>: the index a triple pattern is answered from, and
  its evaluation against a snapshot, with the pruning by the registered edge types and the overlay
  of the pending writes of an open transaction. A snapshot fixes its valid time when it is made, so
  the clock argument \<open>now\<close> of its scans is never read.
\<close>


section \<open>Patterns and the choice of an index\<close>

record pattern =
  pat_subject :: "node_id option"
  pat_predicate :: "string option"
  pat_object :: "node_id option"

definition pattern_new :: pattern where
  "pattern_new = \<lparr>pat_subject = None, pat_predicate = None, pat_object = None\<rparr>"

definition bind_mask :: "pattern \<Rightarrow> bool \<times> bool \<times> bool" where
  "bind_mask p = (pat_subject p \<noteq> None, pat_predicate p \<noteq> None, pat_object p \<noteq> None)"

datatype index_choice =
    SpoExact node_id string node_id
  | SpoPrefixSP node_id string
  | SpoPrefixS node_id
  | SopPrefixSO node_id node_id
  | PosPrefixPO string node_id
  | PsoPrefixP string
  | OspPrefixO node_id
  | FullScan

definition choose_index :: "pattern \<Rightarrow> index_choice" where
  "choose_index p =
    (case bind_mask p of
       (True, True, True) \<Rightarrow> SpoExact (the (pat_subject p)) (the (pat_predicate p)) (the (pat_object p))
     | (True, True, False) \<Rightarrow> SpoPrefixSP (the (pat_subject p)) (the (pat_predicate p))
     | (True, False, True) \<Rightarrow> SopPrefixSO (the (pat_subject p)) (the (pat_object p))
     | (True, False, False) \<Rightarrow> SpoPrefixS (the (pat_subject p))
     | (False, True, True) \<Rightarrow> PosPrefixPO (the (pat_predicate p)) (the (pat_object p))
     | (False, True, False) \<Rightarrow> PsoPrefixP (the (pat_predicate p))
     | (False, False, True) \<Rightarrow> OspPrefixO (the (pat_object p))
     | (False, False, False) \<Rightarrow> FullScan)"

record annotation_pattern =
  apat_edge :: "edge_id option"
  apat_predicate :: "string option"

datatype annotation_choice =
    EpaByEdge edge_id
  | EpaByEdgePred edge_id string
  | PeaByPred string
  | EpaFull

definition choose_annotation_index :: "annotation_pattern \<Rightarrow> annotation_choice" where
  "choose_annotation_index p =
    (case (apat_edge p \<noteq> None, apat_predicate p \<noteq> None) of
       (True, True) \<Rightarrow> EpaByEdgePred (the (apat_edge p)) (the (apat_predicate p))
     | (True, False) \<Rightarrow> EpaByEdge (the (apat_edge p))
     | (False, True) \<Rightarrow> PeaByPred (the (apat_predicate p))
     | (False, False) \<Rightarrow> EpaFull)"


section \<open>Evaluation\<close>

definition object_matches :: "'m ext_scheme \<Rightarrow> triple \<Rightarrow> node_id \<Rightarrow> bool" where
  "object_matches X t expected =
    (case t of
       Relation _ _ ob _ _ \<Rightarrow> ob = expected
     | Property _ _ v _ \<Rightarrow> value_object (xxh3_128 X) v = expected
     | EdgeProperty _ _ _ _ \<Rightarrow> False
     | EdgeRelation _ _ _ _ \<Rightarrow> False)"

fun execute_choice ::
  "('d, 'm) env_scheme \<Rightarrow> timestamp \<Rightarrow> ('d, 's) store_scheme \<Rightarrow> snapshot \<Rightarrow> index_choice \<Rightarrow>
    triple list res" where
  "execute_choice E now st sn (SpoExact s pred ob) =
    rbind (sn_scan_by_subject_predicate E now st sn s pred) (\<lambda>ts.
      Inr (filter (\<lambda>t. object_matches E t ob) ts))"
| "execute_choice E now st sn (SpoPrefixSP s pred) = sn_scan_by_subject_predicate E now st sn s pred"
| "execute_choice E now st sn (SpoPrefixS s) = sn_scan_by_subject E now st sn s"
| "execute_choice E now st sn (SopPrefixSO s ob) = sn_scan_by_subject_object E now st sn s ob"
| "execute_choice E now st sn (PosPrefixPO pred ob) = sn_scan_by_predicate_object E now st sn pred ob"
| "execute_choice E now st sn (PsoPrefixP pred) = sn_scan_by_predicate E now st sn pred"
| "execute_choice E now st sn (OspPrefixO ob) = sn_scan_by_object E now st sn ob"
| "execute_choice E now st sn FullScan = sn_scan_all E now st sn"

definition evaluate ::
  "('d, 'm) env_scheme \<Rightarrow> timestamp \<Rightarrow> ('d, 's) store_scheme \<Rightarrow> snapshot \<Rightarrow> pattern \<Rightarrow> triple list res" where
  "evaluate E now st sn p = execute_choice E now st sn (choose_index p)"

definition RDF_TYPE :: string where
  "RDF_TYPE = ''http://www.w3.org/1999/02/22-rdf-syntax-ns#type''"

definition node_has_type ::
  "('d, 'm) env_scheme \<Rightarrow> timestamp \<Rightarrow> ('d, 's) store_scheme \<Rightarrow> snapshot \<Rightarrow> node_id \<Rightarrow> string \<Rightarrow>
    bool res" where
  "node_has_type E now st sn node expected =
    (let cls = iri_to_node_id E (expand (st_vocab st) expected) in
     rbind (sn_scan_by_subject_predicate E now st sn node RDF_TYPE) (\<lambda>ts.
       Inr (list_ex (\<lambda>t. case t of Relation _ _ ob _ _ \<Rightarrow> ob = cls | _ \<Rightarrow> False) ts)))"

text \<open>The two checks of \<open>evaluate_with_registry\<close>: a constraint and a bound slot, or no check.\<close>

definition slot_admissible ::
  "('d, 'm) env_scheme \<Rightarrow> timestamp \<Rightarrow> ('d, 's) store_scheme \<Rightarrow> snapshot \<Rightarrow> string option \<Rightarrow>
    node_id option \<Rightarrow> bool res" where
  "slot_admissible E now st sn want node =
    (case (want, node) of
       (Some ty, Some n) \<Rightarrow> node_has_type E now st sn n ty
     | _ \<Rightarrow> Inr True)"

definition evaluate_with_registry ::
  "('d, 'm) env_scheme \<Rightarrow> timestamp \<Rightarrow> 'd store \<Rightarrow> snapshot \<Rightarrow> 'd edge_registry option \<Rightarrow> pattern \<Rightarrow>
    triple list res" where
  "evaluate_with_registry E now st sn registry p =
    (case (registry, pat_predicate p) of
       (Some reg, Some pred) \<Rightarrow>
         (case get_edge_type reg pred of
            None \<Rightarrow> evaluate E now st sn p
          | Some d \<Rightarrow>
              rbind (slot_admissible E now st sn (et_domain d) (pat_subject p)) (\<lambda>ok1.
              if \<not> ok1 then Inr []
              else rbind (slot_admissible E now st sn (et_range d) (pat_object p)) (\<lambda>ok2.
              if \<not> ok2 then Inr [] else evaluate E now st sn p)))
     | _ \<Rightarrow> evaluate E now st sn p)"

definition triple_matches_pattern :: "'m ext_scheme \<Rightarrow> triple \<Rightarrow> pattern \<Rightarrow> bool" where
  "triple_matches_pattern X t p \<longleftrightarrow>
    (case pat_subject p of None \<Rightarrow> True | Some s \<Rightarrow> triple_subject t = s) \<and>
    (case pat_predicate p of None \<Rightarrow> True | Some pred \<Rightarrow> pred_str (triple_predicate t) = pred) \<and>
    (case pat_object p of None \<Rightarrow> True | Some ob \<Rightarrow> object_matches X t ob)"

definition same_key :: "triple \<Rightarrow> triple \<Rightarrow> bool" where
  "same_key r c \<longleftrightarrow>
    (case (r, c) of
       (Relation rs rp ro _ _, Relation cs cp co _ _) \<Rightarrow> rs = cs \<and> rp = cp \<and> ro = co
     | (Property rs rp _ _, Property cs cp _ _) \<Rightarrow> rs = cs \<and> rp = cp
     | _ \<Rightarrow> False)"

definition results_contain_key :: "triple list \<Rightarrow> triple \<Rightarrow> bool" where
  "results_contain_key results c \<longleftrightarrow> list_ex (\<lambda>r. same_key r c) results"

definition overlay_step :: "'m ext_scheme \<Rightarrow> pattern \<Rightarrow> triple \<Rightarrow> triple list \<Rightarrow> triple list" where
  "overlay_step X p t results =
    (if triple_matches_pattern X t p \<and> \<not> results_contain_key results t then results @ [t] else results)"

definition evaluate_with_overlay ::
  "('d, 'm) env_scheme \<Rightarrow> timestamp \<Rightarrow> 'd store \<Rightarrow> snapshot \<Rightarrow> triple list \<Rightarrow> 'd edge_registry option \<Rightarrow>
    pattern \<Rightarrow> triple list res" where
  "evaluate_with_overlay E now st sn pending registry p =
    rbind (evaluate_with_registry E now st sn registry p) (\<lambda>results.
      Inr (fold (overlay_step E p) pending results))"

definition evaluate_annotations ::
  "('d, 'm) env_scheme \<Rightarrow> timestamp \<Rightarrow> ('d, 's) store_scheme \<Rightarrow> snapshot \<Rightarrow> annotation_pattern \<Rightarrow> triple list res" where
  "evaluate_annotations E now st sn p =
    (case choose_annotation_index p of
       EpaByEdge e \<Rightarrow> sn_scan_edge_annotations_as_triples E now st sn e
     | EpaByEdgePred e pred \<Rightarrow>
         rbind (sn_scan_edge_annotations_as_triples E now st sn e) (\<lambda>ts.
           Inr (filter (\<lambda>t. pred_str (triple_predicate t) = pred) ts))
     | PeaByPred pred \<Rightarrow> sn_scan_annotations_by_predicate E st sn pred
     | EpaFull \<Rightarrow> Inr [])"

end
