(* ===== verification/Datalog.thy ===== *)
theory Datalog
  imports Query_Plan
begin

text \<open>
  \<open>polargraph-query/src/datalog.rs\<close>: conjunctive queries over a snapshot, and recursive rules run to
  a fixed point over facts in memory. Bindings are maps; the derived facts are a map from a
  predicate to the pairs, in the order they were inserted. What the code reads from outside (the
  deadline, fresh edge ids, the clock) is a record \<open>world\<close> of streams, read at a counter that every
  reading advances; a run is a function of that counter.
\<close>


section \<open>Runs\<close>

datatype query_error = QStorage storage_error | Timeout

record world =
  w_late :: "nat \<Rightarrow> bool"
  w_edge :: "nat \<Rightarrow> edge_id"
  w_now :: "nat \<Rightarrow> timestamp"
  w_scan_now :: timestamp

text \<open>\<open>w_late n\<close>: the n-th look at the clock finds the deadline past; without one, never.\<close>

type_synonym 'a qrun = "nat \<Rightarrow> (query_error + 'a) \<times> nat"

definition qret :: "'a \<Rightarrow> 'a qrun" where
  "qret x n = (Inr x, n)"

definition qbind :: "'a qrun \<Rightarrow> ('a \<Rightarrow> 'b qrun) \<Rightarrow> 'b qrun" where
  "qbind m f n = (case m n of (Inl e, k) \<Rightarrow> (Inl e, k) | (Inr x, k) \<Rightarrow> f x k)"

definition qlift :: "'a res \<Rightarrow> 'a qrun" where
  "qlift r n = (case r of Inl e \<Rightarrow> (Inl (QStorage e), n) | Inr x \<Rightarrow> (Inr x, n))"

fun qtraverse :: "('x \<Rightarrow> 'a qrun) \<Rightarrow> 'x list \<Rightarrow> 'a list qrun" where
  "qtraverse f [] = qret []"
| "qtraverse f (x # xs) = qbind (f x) (\<lambda>y. qbind (qtraverse f xs) (\<lambda>ys. qret (y # ys)))"

fun qfold :: "('x \<Rightarrow> 's \<Rightarrow> 's qrun) \<Rightarrow> 'x list \<Rightarrow> 's \<Rightarrow> 's qrun" where
  "qfold f [] s = qret s"
| "qfold f (x # xs) s = qbind (f x s) (qfold f xs)"

definition check_deadline :: "world \<Rightarrow> unit qrun" where
  "check_deadline W n = (if w_late W n then (Inl Timeout, Suc n) else (Inr (), Suc n))"


section \<open>Patterns with variables\<close>

datatype qterm = Bound node_id | Var string | Any | Param string | Literal "value"

datatype graph_term =
  GUnion | GDefault | GBound graph_id | GIri string | GVar string | GSet "graph_id list"

record var_pattern =
  vp_subject :: qterm
  vp_predicate :: "string option"
  vp_predicate_var :: "string option"
  vp_object :: qterm
  vp_edge_var :: "string option"
  vp_max_hops :: "nat option"
  vp_graph :: graph_term

definition var_pattern_new :: var_pattern where
  "var_pattern_new = \<lparr>vp_subject = Any, vp_predicate = None, vp_predicate_var = None, vp_object = Any,
    vp_edge_var = None, vp_max_hops = None, vp_graph = GUnion\<rparr>"

record solution =
  sol_nodes :: "string \<rightharpoonup> node_id"
  sol_preds :: "string \<rightharpoonup> string"
  sol_values :: "string \<rightharpoonup> value"

definition solution_from_nodes :: "(string \<rightharpoonup> node_id) \<Rightarrow> solution" where
  "solution_from_nodes b = \<lparr>sol_nodes = b, sol_preds = Map.empty, sol_values = Map.empty\<rparr>"

definition empty_solution :: solution where
  "empty_solution = solution_from_nodes Map.empty"

definition resolve_term :: "'m ext_scheme \<Rightarrow> qterm \<Rightarrow> solution \<Rightarrow> node_id option" where
  "resolve_term X t sol =
    (case t of
       Bound i \<Rightarrow> Some i
     | Var name \<Rightarrow>
         (case sol_nodes sol name of
            Some i \<Rightarrow> Some i
          | None \<Rightarrow> map_option (value_object (xxh3_128 X)) (sol_values sol name))
     | Any \<Rightarrow> None
     | Param _ \<Rightarrow> None
     | Literal v \<Rightarrow> Some (value_object (xxh3_128 X) v))"

definition substitute :: "'m ext_scheme \<Rightarrow> var_pattern \<Rightarrow> solution \<Rightarrow> pattern" where
  "substitute X vp sol =
    \<lparr>pat_subject = resolve_term X (vp_subject vp) sol,
     pat_predicate = (case vp_predicate vp of
         Some p \<Rightarrow> Some p
       | None \<Rightarrow> (case vp_predicate_var vp of None \<Rightarrow> None | Some v \<Rightarrow> sol_preds sol v)),
     pat_object = resolve_term X (vp_object vp) sol\<rparr>"

definition bindable :: "value \<Rightarrow> bool" where
  "bindable v \<longleftrightarrow> (case v of VVector _ \<Rightarrow> False | _ \<Rightarrow> True)"

text \<open>\<open>bind_node\<close>: \<open>None\<close> where the code answers false; the caller then drops the solution.\<close>

definition bind_node :: "qterm \<Rightarrow> node_id \<Rightarrow> solution \<Rightarrow> solution option" where
  "bind_node t i sol =
    (case t of
       Any \<Rightarrow> Some sol
     | Bound _ \<Rightarrow> Some sol
     | Param _ \<Rightarrow> Some sol
     | Literal _ \<Rightarrow> None
     | Var name \<Rightarrow>
         if sol_values sol name \<noteq> None then None
         else (case sol_nodes sol name of
             Some j \<Rightarrow> if j = i then Some sol else None
           | None \<Rightarrow> Some (sol\<lparr>sol_nodes := (sol_nodes sol)(name \<mapsto> i)\<rparr>)))"

definition bind_value :: "string \<Rightarrow> value \<Rightarrow> solution \<Rightarrow> solution option" where
  "bind_value name v sol =
    (if sol_nodes sol name \<noteq> None then None
     else case sol_values sol name of
       Some w \<Rightarrow> if \<not> value_eq w v then None else Some sol
     | None \<Rightarrow> Some (sol\<lparr>sol_values := (sol_values sol)(name \<mapsto> v)\<rparr>))"

definition extend_object :: "triple \<Rightarrow> qterm \<Rightarrow> bool \<Rightarrow> solution \<Rightarrow> solution option" where
  "extend_object t ob bind_values sol =
    (case ob of
       Any \<Rightarrow> Some sol
     | Param _ \<Rightarrow> Some sol
     | Bound _ \<Rightarrow> Some sol
     | Literal w \<Rightarrow> (case t of Property _ _ v _ \<Rightarrow> if value_eq v w then Some sol else None | _ \<Rightarrow> None)
     | Var name \<Rightarrow>
         (case t of
            Relation _ _ i _ _ \<Rightarrow> bind_node ob i sol
          | Property _ _ v _ \<Rightarrow> if bind_values \<and> bindable v then bind_value name v sol else None
          | _ \<Rightarrow> None))"

definition extend_edge :: "triple \<Rightarrow> string option \<Rightarrow> solution \<Rightarrow> solution option" where
  "extend_edge t ev sol =
    (case (ev, t) of
       (Some v, Relation _ _ _ e _) \<Rightarrow> bind_node (Var v) (NodeId (edge_uuid e)) sol
     | _ \<Rightarrow> Some sol)"

definition bind_predicate :: "string \<Rightarrow> string option \<Rightarrow> solution \<Rightarrow> solution option" where
  "bind_predicate pred_name pv sol =
    (case pv of None \<Rightarrow> Some sol
     | Some v \<Rightarrow>
       (case sol_preds sol v of
          Some p \<Rightarrow> if p \<noteq> pred_name then None else Some sol
        | None \<Rightarrow> Some (sol\<lparr>sol_preds := (sol_preds sol)(v \<mapsto> pred_name)\<rparr>)))"

definition extend_full :: "triple \<Rightarrow> var_pattern \<Rightarrow> solution \<Rightarrow> bool \<Rightarrow> solution option" where
  "extend_full t vp sol bind_values =
    Option.bind (bind_node (vp_subject vp) (triple_subject t) sol) (\<lambda>s1.
    Option.bind (extend_object t (vp_object vp) bind_values s1) (\<lambda>s2.
    Option.bind (extend_edge t (vp_edge_var vp) s2) (\<lambda>s3.
    bind_predicate (pred_str (triple_predicate t)) (vp_predicate_var vp) s3)))"


section \<open>Graph scopes\<close>

record rule =
  rl_head_predicate :: string
  rl_head_subject :: string
  rl_head_object :: string
  rl_body :: "var_pattern list"

definition scope_pattern :: "string set \<Rightarrow> graph_term \<Rightarrow> var_pattern \<Rightarrow> var_pattern" where
  "scope_pattern derived g vp =
    (let over_derived = (case vp_predicate vp of None \<Rightarrow> False | Some p \<Rightarrow> p \<in> derived)
     in if vp_graph vp = GUnion \<and> \<not> over_derived then vp\<lparr>vp_graph := g\<rparr> else vp)"

definition scope_to_graph ::
  "var_pattern list \<Rightarrow> rule list \<Rightarrow> graph_term \<Rightarrow> var_pattern list \<times> rule list" where
  "scope_to_graph patterns rules g =
    (let derived = set (map rl_head_predicate rules) in
     (map (scope_pattern derived g) patterns,
      map (\<lambda>r. r\<lparr>rl_body := map (scope_pattern derived g) (rl_body r)\<rparr>) rules))"

definition graph_scope_of :: "('d, 's) store_scheme \<Rightarrow> graph_term \<Rightarrow> solution \<Rightarrow> graph_scope option" where
  "graph_scope_of st t sol =
    (case t of
       GUnion \<Rightarrow> None
     | GDefault \<Rightarrow> Some (One DEFAULT_GRAPH)
     | GBound g \<Rightarrow> Some (One g)
     | GIri iri \<Rightarrow> Some (case graph_id_of st iri of Some g \<Rightarrow> One g | None \<Rightarrow> SetScope [])
     | GSet gs \<Rightarrow> Some (scope_set gs)
     | GVar name \<Rightarrow> Some
         (case sol_nodes sol name of
            Some node \<Rightarrow> (case graph_for_node st node of Some g \<Rightarrow> One g | None \<Rightarrow> SetScope [])
          | None \<Rightarrow> if sol_values sol name \<noteq> None then SetScope [] else Named))"

definition bind_graph ::
  "('d, 'm) env_scheme \<Rightarrow> ('d, 's) store_scheme \<Rightarrow> graph_term \<Rightarrow> graph_id \<Rightarrow> solution \<Rightarrow> solution option" where
  "bind_graph E st t g sol =
    (case t of
       GVar name \<Rightarrow> (case graph_node E st g of None \<Rightarrow> None | Some node \<Rightarrow> bind_node (Var name) node sol)
     | _ \<Rightarrow> Some sol)"

text \<open>\<open>match_pattern\<close>; a scan is a run, as that of derived facts takes fresh edge ids.\<close>

definition match_pattern ::
  "('d, 'm) env_scheme \<Rightarrow> world \<Rightarrow> ('d, 's) store_scheme \<Rightarrow> snapshot \<Rightarrow> var_pattern \<Rightarrow> pattern \<Rightarrow> solution \<Rightarrow>
    bool \<Rightarrow> (pattern \<Rightarrow> triple list qrun) \<Rightarrow> solution list qrun" where
  "match_pattern E W st sn vp p sol bind_values ungraphed =
    (case graph_scope_of st (vp_graph vp) sol of
       None \<Rightarrow> qbind (ungraphed p) (\<lambda>ts.
         qret (List.map_filter (\<lambda>t. extend_full t vp sol bind_values) ts))
     | Some scope \<Rightarrow>
         qbind (qlift (sn_scan_scoped E (w_scan_now W) st sn (pat_subject p) (pat_predicate p)
             (pat_object p) scope)) (\<lambda>quads.
         qret (List.map_filter (\<lambda>(g, t). Option.bind (extend_full t vp sol bind_values)
             (bind_graph E st (vp_graph vp) g)) quads)))"


section \<open>Bounded reachability\<close>

definition relation_objects :: "triple list \<Rightarrow> node_id list" where
  "relation_objects ts = List.map_filter (\<lambda>t. case t of Relation _ _ ob _ _ \<Rightarrow> Some ob | _ \<Rightarrow> None) ts"

definition visit :: "node_id \<Rightarrow> node_id list \<times> node_id list \<Rightarrow> node_id list \<times> node_id list" where
  "visit i = (\<lambda>(visited, nxt). if i \<in> set visited then (visited, nxt) else (visited @ [i], nxt @ [i]))"

definition expand_node ::
  "('d, 'm) env_scheme \<Rightarrow> world \<Rightarrow> ('d, 's) store_scheme \<Rightarrow> snapshot \<Rightarrow> string \<Rightarrow> node_id \<Rightarrow>
    node_id list \<times> node_id list \<Rightarrow> (node_id list \<times> node_id list) qrun" where
  "expand_node E W st sn pred node acc =
    qbind (qlift (sn_scan_by_subject_predicate E (w_scan_now W) st sn node pred)) (\<lambda>ts.
      qret (fold visit (relation_objects ts) acc))"

fun hops_loop ::
  "('d, 'm) env_scheme \<Rightarrow> world \<Rightarrow> ('d, 's) store_scheme \<Rightarrow> snapshot \<Rightarrow> string \<Rightarrow> nat \<Rightarrow> node_id list \<Rightarrow>
    node_id list \<Rightarrow> node_id list qrun" where
  "hops_loop E W st sn pred 0 frontier visited = qret visited"
| "hops_loop E W st sn pred (Suc k) frontier visited =
    qbind (check_deadline W) (\<lambda>_.
    qbind (qfold (expand_node E W st sn pred) frontier (visited, [])) (\<lambda>(visited', nxt).
    if nxt = [] then qret visited' else hops_loop E W st sn pred k nxt visited'))"

definition reachable_from_hops ::
  "('d, 'm) env_scheme \<Rightarrow> world \<Rightarrow> ('d, 's) store_scheme \<Rightarrow> snapshot \<Rightarrow> node_id \<Rightarrow> string \<Rightarrow> nat \<Rightarrow>
    node_id list qrun" where
  "reachable_from_hops E W st sn start pred max_hops =
    (if max_hops = 0 then qret [] else hops_loop E W st sn pred max_hops [start] [])"

definition hop_starts ::
  "('d, 'm) env_scheme \<Rightarrow> world \<Rightarrow> ('d, 's) store_scheme \<Rightarrow> snapshot \<Rightarrow> string \<Rightarrow> node_id option \<Rightarrow>
    node_id list qrun" where
  "hop_starts E W st sn pred start =
    (case start of
       Some i \<Rightarrow> qret [i]
     | None \<Rightarrow> qbind (qlift (sn_scan_by_predicate E (w_scan_now W) st sn pred)) (\<lambda>all.
         qret (firsts [] (List.map_filter (\<lambda>t. case t of Relation s _ _ _ _ \<Rightarrow> Some s | _ \<Rightarrow> None) all))))"

definition hop_target :: "qterm \<Rightarrow> solution \<Rightarrow> node_id \<Rightarrow> solution option" where
  "hop_target ob base target =
    (case ob of
       Bound i \<Rightarrow> if i = target then Some base else None
     | Literal _ \<Rightarrow> None
     | t \<Rightarrow> bind_node t target base)"

definition hop_solution ::
  "('d, 'm) env_scheme \<Rightarrow> world \<Rightarrow> ('d, 's) store_scheme \<Rightarrow> snapshot \<Rightarrow> var_pattern \<Rightarrow> string \<Rightarrow> nat \<Rightarrow>
    solution \<Rightarrow> solution list qrun" where
  "hop_solution E W st sn vp pred hops sol =
    (if (case vp_subject vp of Var name \<Rightarrow> sol_values sol name \<noteq> None | _ \<Rightarrow> False) then qret []
     else qbind (hop_starts E W st sn pred (resolve_term E (vp_subject vp) sol)) (\<lambda>starts.
       qbind (qtraverse (\<lambda>start.
           case bind_node (vp_subject vp) start sol of
             None \<Rightarrow> qret []
           | Some base \<Rightarrow> qbind (reachable_from_hops E W st sn start pred hops) (\<lambda>reach.
               qret (List.map_filter (hop_target (vp_object vp) base) reach))) starts) (\<lambda>sols.
       qret (concat sols))))"


section \<open>The evaluator\<close>

definition pattern_step ::
  "('d, 'm) env_scheme \<Rightarrow> world \<Rightarrow> ('d, 's) store_scheme \<Rightarrow> snapshot \<Rightarrow> bool \<Rightarrow>
    (pattern \<Rightarrow> triple list qrun) \<Rightarrow> var_pattern \<Rightarrow> solution list \<Rightarrow> solution list qrun" where
  "pattern_step E W st sn bind_values scan vp sols =
    (case vp_max_hops vp of
       Some hops \<Rightarrow>
         (case vp_predicate vp of
            None \<Rightarrow> qret []
          | Some pred \<Rightarrow> qbind (qtraverse (hop_solution E W st sn vp pred hops) sols) (\<lambda>xs. qret (concat xs)))
     | None \<Rightarrow>
         qbind (qtraverse (\<lambda>sol. match_pattern E W st sn vp (substitute E vp sol) sol bind_values scan) sols)
           (\<lambda>xs. qret (concat xs)))"

fun eval_patterns ::
  "('d, 'm) env_scheme \<Rightarrow> world \<Rightarrow> ('d, 's) store_scheme \<Rightarrow> snapshot \<Rightarrow> bool \<Rightarrow>
    (pattern \<Rightarrow> triple list qrun) \<Rightarrow> var_pattern list \<Rightarrow> solution list \<Rightarrow> solution list qrun" where
  "eval_patterns E W st sn bind_values scan [] sols = qret sols"
| "eval_patterns E W st sn bind_values scan (vp # vps) sols =
    qbind (check_deadline W) (\<lambda>_.
    qbind (pattern_step E W st sn bind_values scan vp sols) (\<lambda>nxt.
    if nxt = [] then qret [] else eval_patterns E W st sn bind_values scan vps nxt))"

definition evaluate_solutions ::
  "('d, 'm) env_scheme \<Rightarrow> world \<Rightarrow> ('d, 's) store_scheme \<Rightarrow> snapshot \<Rightarrow> var_pattern list \<Rightarrow>
    solution list \<Rightarrow> bool \<Rightarrow> (pattern \<Rightarrow> triple list qrun) \<Rightarrow> solution list qrun" where
  "evaluate_solutions E W st sn patterns initial bind_values scan =
    (if initial = [] then qret [] else eval_patterns E W st sn bind_values scan patterns initial)"

definition nodes_only :: "solution list \<Rightarrow> (string \<rightharpoonup> node_id) list" where
  "nodes_only sols = map sol_nodes sols"

definition registry_scan_run ::
  "('d, 'm) env_scheme \<Rightarrow> world \<Rightarrow> 'd store \<Rightarrow> snapshot \<Rightarrow> 'd edge_registry option \<Rightarrow> pattern \<Rightarrow>
    triple list qrun" where
  "registry_scan_run E W st sn registry p = qlift (evaluate_with_registry E (w_scan_now W) st sn registry p)"

definition execute_query_seeded ::
  "('d, 'm) env_scheme \<Rightarrow> world \<Rightarrow> 'd store \<Rightarrow> snapshot \<Rightarrow> var_pattern list \<Rightarrow>
    (string \<rightharpoonup> node_id) list \<Rightarrow> 'd edge_registry option \<Rightarrow> (string \<rightharpoonup> node_id) list qrun" where
  "execute_query_seeded E W st sn q initial registry =
    qbind (evaluate_solutions E W st sn q (map solution_from_nodes initial) False
      (registry_scan_run E W st sn registry)) (\<lambda>sols. qret (nodes_only sols))"

definition execute_query_seeded_full ::
  "('d, 'm) env_scheme \<Rightarrow> world \<Rightarrow> 'd store \<Rightarrow> snapshot \<Rightarrow> var_pattern list \<Rightarrow>
    (string \<rightharpoonup> node_id) list \<Rightarrow> 'd edge_registry option \<Rightarrow> solution list qrun" where
  "execute_query_seeded_full E W st sn q initial registry =
    evaluate_solutions E W st sn q (map solution_from_nodes initial) True
      (registry_scan_run E W st sn registry)"

definition execute_query where
  "execute_query E W st sn q registry = execute_query_seeded E W st sn q [Map.empty] registry"

definition execute_query_full where
  "execute_query_full E W st sn q registry = execute_query_seeded_full E W st sn q [Map.empty] registry"

definition overlay_scan_run ::
  "('d, 'm) env_scheme \<Rightarrow> world \<Rightarrow> 'd store \<Rightarrow> snapshot \<Rightarrow> triple list \<Rightarrow> 'd edge_registry option \<Rightarrow>
    pattern \<Rightarrow> triple list qrun" where
  "overlay_scan_run E W st sn pending registry p =
    qlift (evaluate_with_overlay E (w_scan_now W) st sn pending registry p)"

definition execute_query_with_pending ::
  "('d, 'm) env_scheme \<Rightarrow> world \<Rightarrow> 'd store \<Rightarrow> snapshot \<Rightarrow> var_pattern list \<Rightarrow> triple list \<Rightarrow>
    'd edge_registry option \<Rightarrow> (string \<rightharpoonup> node_id) list qrun" where
  "execute_query_with_pending E W st sn q pending registry =
    qbind (evaluate_solutions E W st sn q [empty_solution] False
      (overlay_scan_run E W st sn pending registry)) (\<lambda>sols. qret (nodes_only sols))"

definition execute_query_with_pending_full ::
  "('d, 'm) env_scheme \<Rightarrow> world \<Rightarrow> 'd store \<Rightarrow> snapshot \<Rightarrow> var_pattern list \<Rightarrow> triple list \<Rightarrow>
    'd edge_registry option \<Rightarrow> solution list qrun" where
  "execute_query_with_pending_full E W st sn q pending registry =
    evaluate_solutions E W st sn q [empty_solution] True (overlay_scan_run E W st sn pending registry)"


section \<open>Derived facts\<close>

type_synonym derived_facts = "string \<rightharpoonup> (node_id \<times> node_id) list"

definition pairs_of :: "derived_facts \<Rightarrow> string \<Rightarrow> (node_id \<times> node_id) list" where
  "pairs_of D p = (case D p of None \<Rightarrow> [] | Some ps \<Rightarrow> ps)"

text \<open>\<open>entry(p).or_default()\<close>, and \<open>HashSet::insert\<close> into it.\<close>

definition entry_or_default :: "string \<Rightarrow> derived_facts \<Rightarrow> derived_facts" where
  "entry_or_default p D = D(p \<mapsto> pairs_of D p)"

definition add_pair :: "string \<Rightarrow> node_id \<times> node_id \<Rightarrow> derived_facts \<Rightarrow> derived_facts" where
  "add_pair p x D = (if x \<in> set (pairs_of D p) then entry_or_default p D else D(p \<mapsto> pairs_of D p @ [x]))"

definition derived_triple :: "world \<Rightarrow> string \<Rightarrow> node_id \<times> node_id \<Rightarrow> triple qrun" where
  "derived_triple W pred = (\<lambda>(s, ob) n.
    (Inr (Relation s (Predicate pred) ob (w_edge W n) (assert_now (w_now W n) (w_now W n))), Suc n))"

definition evaluate_hybrid ::
  "('d, 'm) env_scheme \<Rightarrow> world \<Rightarrow> ('d, 's) store_scheme \<Rightarrow> snapshot \<Rightarrow> derived_facts \<Rightarrow> pattern \<Rightarrow>
    triple list qrun" where
  "evaluate_hybrid E W st sn D p =
    (case pat_predicate p of
       None \<Rightarrow> qlift (evaluate E (w_scan_now W) st sn p)
     | Some pred \<Rightarrow>
         (case D pred of
            None \<Rightarrow> qlift (evaluate E (w_scan_now W) st sn p)
          | Some ps \<Rightarrow> qtraverse (derived_triple W pred)
              (filter (\<lambda>(s, ob). slot_is (pat_subject p) s \<and> slot_is (pat_object p) ob) ps)))"

definition execute_query_hybrid ::
  "('d, 'm) env_scheme \<Rightarrow> world \<Rightarrow> ('d, 's) store_scheme \<Rightarrow> snapshot \<Rightarrow> var_pattern list \<Rightarrow> derived_facts \<Rightarrow>
    (string \<rightharpoonup> node_id) list qrun" where
  "execute_query_hybrid E W st sn q D =
    qbind (evaluate_solutions E W st sn q [empty_solution] False (evaluate_hybrid E W st sn D))
      (\<lambda>sols. qret (nodes_only sols))"

definition execute_query_hybrid_full ::
  "('d, 'm) env_scheme \<Rightarrow> world \<Rightarrow> ('d, 's) store_scheme \<Rightarrow> snapshot \<Rightarrow> var_pattern list \<Rightarrow> derived_facts \<Rightarrow>
    solution list qrun" where
  "execute_query_hybrid_full E W st sn q D =
    evaluate_solutions E W st sn q [empty_solution] True (evaluate_hybrid E W st sn D)"

definition head_pair :: "rule \<Rightarrow> solution \<Rightarrow> (node_id \<times> node_id) option" where
  "head_pair r sol =
    (case (sol_nodes sol (rl_head_subject r), sol_nodes sol (rl_head_object r)) of
       (Some s, Some ob) \<Rightarrow> Some (s, ob)
     | _ \<Rightarrow> None)"

definition add_solution :: "rule \<Rightarrow> solution \<Rightarrow> derived_facts \<times> bool \<Rightarrow> derived_facts \<times> bool" where
  "add_solution r sol = (\<lambda>(D, added).
    case head_pair r sol of
      None \<Rightarrow> (D, added)
    | Some x \<Rightarrow> (add_pair (rl_head_predicate r) x D, added \<or> x \<notin> set (pairs_of D (rl_head_predicate r))))"

definition apply_rule ::
  "('d, 'm) env_scheme \<Rightarrow> world \<Rightarrow> ('d, 's) store_scheme \<Rightarrow> snapshot \<Rightarrow> rule \<Rightarrow> derived_facts \<times> bool \<Rightarrow>
    (derived_facts \<times> bool) qrun" where
  "apply_rule E W st sn r = (\<lambda>(D, added).
    qbind (execute_query_hybrid_full E W st sn (rl_body r) D) (\<lambda>sols.
      qret (fold (add_solution r) sols (entry_or_default (rl_head_predicate r) D, added))))"

text \<open>Facts as a set, and what a pass over the rules can add to them.\<close>

definition facts_of :: "derived_facts \<Rightarrow> (string \<times> node_id \<times> node_id) set" where
  "facts_of D = {(p, s, ob). (s, ob) \<in> set (pairs_of D p)}"

lemma finite_node_ids [simp]: "finite (A :: node_id set)"
proof -
  have "(UNIV :: node_id set) = NodeId ` UNIV" by (metis node_id.exhaust surj_def)
  then show ?thesis by (metis finite finite_imageI rev_finite_subset subset_UNIV)
qed

lemma pairs_of_entry [simp]: "pairs_of (entry_or_default p D) q = pairs_of D q"
  by (simp add: entry_or_default_def pairs_of_def)

lemma facts_of_entry [simp]: "facts_of (entry_or_default p D) = facts_of D"
  by (simp add: facts_of_def)

lemma facts_of_add_pair: "facts_of (add_pair p (s, ob) D) = insert (p, s, ob) (facts_of D)"
  by (auto simp: facts_of_def add_pair_def pairs_of_def entry_or_default_def split: if_splits)

lemma facts_of_iff: "(p, s, ob) \<in> facts_of D \<longleftrightarrow> (s, ob) \<in> set (pairs_of D p)"
  by (simp add: facts_of_def)

definition new_facts :: "rule \<Rightarrow> solution set \<Rightarrow> (string \<times> node_id \<times> node_id) set" where
  "new_facts r sols =
    {(rl_head_predicate r, s, ob) |s ob. \<exists>sol\<in>sols. head_pair r sol = Some (s, ob)}"

lemma new_facts_insert: "new_facts r (insert sol sols) = new_facts r {sol} \<union> new_facts r sols"
  by (auto simp: new_facts_def)

lemma facts_of_add_solution:
  assumes "add_solution r sol (D, added) = (D', added')"
  shows "facts_of D' = facts_of D \<union> new_facts r {sol}"
    and "added' = (added \<or> facts_of D \<noteq> facts_of D')"
proof -
  have "facts_of D' = facts_of D \<union> new_facts r {sol} \<and> added' = (added \<or> facts_of D \<noteq> facts_of D')"
  proof (cases "head_pair r sol")
    case None
    with assms show ?thesis by (simp add: add_solution_def new_facts_def)
  next
    case (Some x)
    obtain s ob where x: "x = (s, ob)" by fastforce
    let ?f = "(rl_head_predicate r, s, ob)"
    have f: "facts_of D' = insert ?f (facts_of D)" "added' = (added \<or> ?f \<notin> facts_of D)"
      using assms Some x by (auto simp: add_solution_def facts_of_add_pair facts_of_iff)
    have "new_facts r {sol} = {?f}" using Some x by (auto simp: new_facts_def)
    moreover have "facts_of D \<noteq> facts_of D' \<longleftrightarrow> ?f \<notin> facts_of D" unfolding f(1) by auto
    ultimately show ?thesis using f by simp
  qed
  then show "facts_of D' = facts_of D \<union> new_facts r {sol}" "added' = (added \<or> facts_of D \<noteq> facts_of D')"
    by simp_all
qed

lemma facts_of_add_solutions:
  "fold (add_solution r) sols (D, added) = (D', added') \<Longrightarrow>
    facts_of D' = facts_of D \<union> new_facts r (set sols) \<and> added' = (added \<or> facts_of D \<noteq> facts_of D')"
proof (induction sols arbitrary: D added)
  case Nil
  then show ?case by (simp add: new_facts_def)
next
  case (Cons sol sols)
  obtain D1 a1 where one: "add_solution r sol (D, added) = (D1, a1)" by fastforce
  have rest: "facts_of D' = facts_of D1 \<union> new_facts r (set sols) \<and> added' = (a1 \<or> facts_of D1 \<noteq> facts_of D')"
    using Cons.prems one by (intro Cons.IH) simp
  note one' = facts_of_add_solution [OF one]
  have "facts_of D \<subseteq> facts_of D1" "facts_of D1 \<subseteq> facts_of D'"
    using one'(1) rest by simp_all
  then have "facts_of D \<noteq> facts_of D' \<longleftrightarrow> facts_of D \<noteq> facts_of D1 \<or> facts_of D1 \<noteq> facts_of D'"
    by (metis subset_antisym)
  then have "added' = (added \<or> facts_of D \<noteq> facts_of D')" using one'(2) rest by argo
  moreover have "facts_of D' = facts_of D \<union> new_facts r (set (sol # sols))"
    unfolding list.set new_facts_insert [of r sol "set sols"] using one'(1) rest by (simp only: Un_assoc)
  ultimately show ?case by (rule conjI [rotated])
qed

lemma qbind_Inr_iff: "qbind m f n = (Inr y, k) \<longleftrightarrow> (\<exists>x j. m n = (Inr x, j) \<and> f x j = (Inr y, k))"
  by (auto simp: qbind_def split: prod.splits sum.splits)

lemma qret_iff [simp]: "qret x n = (r, k) \<longleftrightarrow> r = Inr x \<and> k = n"
  by (auto simp: qret_def)

lemma qlift_Inr_iff: "qlift r n = (Inr x, k) \<longleftrightarrow> r = Inr x \<and> k = n"
  by (auto simp: qlift_def split: sum.splits)

lemma apply_rule_facts:
  assumes "apply_rule E W st sn r (D, added) n = (Inr (D', added'), k)"
  shows "facts_of D \<subseteq> facts_of D' \<and> facts_of D' \<subseteq> facts_of D \<union> {rl_head_predicate r} \<times> UNIV \<and>
    added' = (added \<or> facts_of D \<noteq> facts_of D')"
proof -
  obtain sols where "fold (add_solution r) sols (entry_or_default (rl_head_predicate r) D, added) = (D', added')"
    using assms by (auto simp: apply_rule_def qbind_Inr_iff)
  from facts_of_add_solutions [OF this] show ?thesis by (auto simp: new_facts_def)
qed

lemma rule_pass_facts:
  "qfold (apply_rule E W st sn) rules (D, added) n = (Inr (D', added'), k) \<Longrightarrow>
    facts_of D \<subseteq> facts_of D' \<and> facts_of D' \<subseteq> facts_of D \<union> (rl_head_predicate ` set rules) \<times> UNIV \<and>
    added' = (added \<or> facts_of D \<noteq> facts_of D')"
proof (induction rules arbitrary: D added n)
  case (Cons r rules)
  then obtain D1 a1 j where one: "apply_rule E W st sn r (D, added) n = (Inr (D1, a1), j)"
    and rest: "qfold (apply_rule E W st sn) rules (D1, a1) j = (Inr (D', added'), k)"
    by (auto simp: qbind_Inr_iff)
  from apply_rule_facts [OF one] Cons.IH [OF rest] show ?case by auto
qed auto


section \<open>Recursive rules\<close>

definition seed_facts :: "(string \<times> node_id \<times> node_id) list \<Rightarrow> derived_facts" where
  "seed_facts seed = fold (\<lambda>(p, x). add_pair p x) seed Map.empty"

text \<open>
  The loop. It ends because a round that goes on has added a fact under the head of a rule, and
  there are finitely many such facts (a node is 128 bits).
\<close>

function recursive_loop ::
  "('d, 'm) env_scheme \<Rightarrow> world \<Rightarrow> ('d, 's) store_scheme \<Rightarrow> snapshot \<Rightarrow> rule list \<Rightarrow> derived_facts \<Rightarrow>
    derived_facts qrun" where
  "recursive_loop E W st sn rules D n =
    (case check_deadline W n of
       (Inl e, k) \<Rightarrow> (Inl e, k)
     | (Inr _, k) \<Rightarrow>
       (case qfold (apply_rule E W st sn) rules (D, False) k of
          (Inl e, j) \<Rightarrow> (Inl e, j)
        | (Inr (D', added), j) \<Rightarrow>
            if \<not> added then (Inr D', j) else recursive_loop E W st sn rules D' j))"
  by auto
termination
proof (relation "measure (\<lambda>(E, W, st, sn, rules, D, n).
    card ((rl_head_predicate ` set rules) \<times> (UNIV :: (node_id \<times> node_id) set) - facts_of D))", goal_cases)
  case (2 E W st sn rules D n x1 k u x2 j pr D' added)
  let ?H = "(rl_head_predicate ` set rules) \<times> (UNIV :: (node_id \<times> node_id) set)"
  have "facts_of D \<subseteq> facts_of D'" "facts_of D' \<subseteq> facts_of D \<union> ?H" "facts_of D \<noteq> facts_of D'"
    using rule_pass_facts [of E W st sn rules D False k D' added j] 2 by auto
  then have "?H - facts_of D' \<subset> ?H - facts_of D" by blast
  moreover have "finite (?H - facts_of D)"
    by (simp add: finite_Prod_UNIV)
  ultimately show ?case by (simp add: psubset_card_mono)
qed simp

declare recursive_loop.simps [simp del]

definition execute_recursive ::
  "('d, 'm) env_scheme \<Rightarrow> world \<Rightarrow> ('d, 's) store_scheme \<Rightarrow> snapshot \<Rightarrow> (string \<times> node_id \<times> node_id) list \<Rightarrow>
    rule list \<Rightarrow> derived_facts qrun" where
  "execute_recursive E W st sn seed rules = recursive_loop E W st sn rules (seed_facts seed)"

definition reachable_rule :: "string \<Rightarrow> rule" where
  "reachable_rule pred =
    \<lparr>rl_head_predicate = ''reachable'', rl_head_subject = ''x'', rl_head_object = ''z'',
     rl_body =
       [var_pattern_new\<lparr>vp_subject := Var ''x'', vp_predicate := Some ''reachable'', vp_object := Var ''y''\<rparr>,
        var_pattern_new\<lparr>vp_subject := Var ''y'', vp_predicate := Some pred, vp_object := Var ''z''\<rparr>]\<rparr>"

definition reachable_from ::
  "('d, 'm) env_scheme \<Rightarrow> world \<Rightarrow> ('d, 's) store_scheme \<Rightarrow> snapshot \<Rightarrow> node_id \<Rightarrow> string \<Rightarrow>
    node_id list qrun" where
  "reachable_from E W st sn start pred =
    qbind (qlift (evaluate E (w_scan_now W) st sn
      \<lparr>pat_subject = Some start, pat_predicate = Some pred, pat_object = None\<rparr>)) (\<lambda>direct.
    (let seed = List.map_filter (\<lambda>t. case t of
         Relation s _ ob _ _ \<Rightarrow> Some (''reachable'', s, ob) | _ \<Rightarrow> None) direct
     in if seed = [] then qret []
        else qbind (execute_recursive E W st sn seed [reachable_rule pred]) (\<lambda>derived.
          qret (map snd (filter (\<lambda>(s, _). s = start) (pairs_of derived ''reachable''))))))"

end
