(* ===== verification/Query_Facts.thy ===== *)
theory Query_Facts
  imports Query_Plan
begin

text \<open>
  What pattern evaluation returns: whatever index is chosen, the triples of the full scan that match
  the pattern. A union scan is first described by the triples it reads: for each subject, predicate
  and object the live quad of the lowest readable graph.
\<close>


section \<open>What a union scan reads\<close>

context kv_engine
begin

definition union_reads ::
  "timestamp \<Rightarrow> 'd store \<Rightarrow> read_at \<Rightarrow> node_id \<times> u32 \<times> node_id \<Rightarrow> triple \<Rightarrow> bool" where
  "union_reads now st at spo tr \<longleftrightarrow>
    (\<exists>ids t b. spo_of ids = spo \<and> in_scope at Union ids \<and>
      live_at (view E (st_db st)) (ra_ts at) (vt_or_now at now) ids t b \<and> rebuild E st ids t b = Inr tr \<and>
      (st_graph_fwd st \<noteq> [] \<longrightarrow> (\<forall>ids' t' b'. spo_of ids' = spo \<longrightarrow> in_scope at Union ids' \<longrightarrow>
        live_at (view E (st_db st)) (ra_ts at) (vt_or_now at now) ids' t' b' \<longrightarrow>
        graph_of_ids ids \<le> graph_of_ids ids')))"

lemma scan_union_total:
  assumes "store_ok E st" and "values_ok E st"
  shows "\<exists>out. scan_union E now st ord (order_prefix ord s p ob g) at = Inr out"
  using scan_total [OF assms, of now ord s p ob g at Union]
  by (auto simp: scan_union_def)

lemma scan_union_set:
  assumes "store_ok E st" and "values_ok E st"
    and "scan_union E now st ord (order_prefix ord s p ob None) at = Inr out"
    and sel: "\<And>ids. selects ord s p ob None ids \<longleftrightarrow> P (spo_of ids)"
  shows "tr \<in> set out \<longleftrightarrow> (\<exists>spo. P spo \<and> union_reads now st at spo tr)"
proof -
  let ?live = "live_at (view E (st_db st)) (ra_ts at) (vt_or_now at now)"
  obtain quads where q: "snapshot_scan_keyed E now st (order_cf ord) ord (order_prefix ord s p ob None)
      at Union = Inr quads"
    "out = (if st_graph_fwd st = [] then map snd quads
      else map (\<lambda>(_, (_, t)). t) (fold union_step quads []))"
    using assms(3) by (auto simp: scan_union_def split: if_splits)
  have ix: "index_ok (view E (st_db st))" using assms(1) by (simp add: store_ok_def)
  have mem: "(ids, u) \<in> set quads \<longleftrightarrow> P (spo_of ids) \<and> in_scope at Union ids \<and>
      (\<exists>t b. ?live ids t b \<and> rebuild E st ids t b = Inr u)" for ids u
    using scan_keyed_set(2) [OF ix q(1)] sel by simp
  show ?thesis
  proof (cases "st_graph_fwd st = []")
    case True
    with q(2) have "tr \<in> set out \<longleftrightarrow> (\<exists>ids. (ids, tr) \<in> set quads)" by force
    also have "\<dots> \<longleftrightarrow> (\<exists>ids t b. P (spo_of ids) \<and> in_scope at Union ids \<and> ?live ids t b \<and>
        rebuild E st ids t b = Inr tr)"
      unfolding mem by blast
    also have "\<dots> \<longleftrightarrow> (\<exists>spo. P spo \<and> union_reads now st at spo tr)"
      using True unfolding union_reads_def by blast
    finally show ?thesis .
  next
    case False
    let ?m = "fold union_step quads []"
    have m: "distinct (map fst ?m)" "\<And>spo. lowest quads spo (hm_get ?m spo)" using union_fold by blast+
    have sound: "\<exists>u. rebuild E st ids t b = Inr u" if "?live ids t b" for ids t b
      using that values_rebuild [OF assms(2)] by (auto simp: live_at_def governs_def eligible_def)
    have dist: "distinct (map fst quads)" by (rule scan_keyed_set(1) [OF ix q(1)])
    have "tr \<in> set out \<longleftrightarrow> (\<exists>spo g. hm_get ?m spo = Some (g, tr))"
      using q(2) False m(1) by (force simp: hm_get_iff_set)
    also have "\<dots> \<longleftrightarrow> (\<exists>spo. P spo \<and> union_reads now st at spo tr)"
    proof
      assume "\<exists>spo g. hm_get ?m spo = Some (g, tr)"
      then obtain spo g where g: "hm_get ?m spo = Some (g, tr)" by blast
      then have "lowest quads spo (Some (g, tr))" using m(2) [of spo] by simp
      then obtain ids where ids: "(ids, tr) \<in> set quads" "spo_of ids = spo" "graph_of_ids ids = g"
        "\<And>ids' t'. (ids', t') \<in> set quads \<Longrightarrow> spo_of ids' = spo \<Longrightarrow> g \<le> graph_of_ids ids'"
        unfolding lowest_def option.case prod.case by blast
      have "graph_of_ids ids \<le> graph_of_ids ids'"
        if "spo_of ids' = spo" "in_scope at Union ids'" "?live ids' t' b'" for ids' t' b'
        using that ids mem [of ids tr] sound [OF that(3)] mem [of ids'] by (metis (no_types, lifting))
      with ids mem [of ids tr] show "\<exists>spo. P spo \<and> union_reads now st at spo tr"
        unfolding union_reads_def by blast
    next
      assume "\<exists>spo. P spo \<and> union_reads now st at spo tr"
      then obtain ids t b where r: "P (spo_of ids)" "in_scope at Union ids" "?live ids t b"
          "rebuild E st ids t b = Inr tr"
        "\<And>ids' t' b'. spo_of ids' = spo_of ids \<Longrightarrow> in_scope at Union ids' \<Longrightarrow> ?live ids' t' b' \<Longrightarrow>
          graph_of_ids ids \<le> graph_of_ids ids'"
        using False unfolding union_reads_def by blast
      have in_q: "(ids, tr) \<in> set quads" using r mem by blast
      have "hm_get ?m (spo_of ids) \<noteq> None"
      proof
        assume "hm_get ?m (spo_of ids) = None"
        with m(2) [of "spo_of ids"] have "lowest quads (spo_of ids) None" by simp
        with in_q show False unfolding lowest_def option.case by blast
      qed
      then obtain g u where gu: "hm_get ?m (spo_of ids) = Some (g, u)" by auto
      then have "lowest quads (spo_of ids) (Some (g, u))" using m(2) [of "spo_of ids"] by simp
      then obtain i where i: "(i, u) \<in> set quads" "spo_of i = spo_of ids" "graph_of_ids i = g"
        "g \<le> graph_of_ids ids"
        using in_q unfolding lowest_def option.case prod.case by blast
      then have "graph_of_ids ids \<le> graph_of_ids i" using r(5) [of i] mem [of i u] by auto
      with i have "i = ids" by (intro spo_graph_inject) auto
      with i(1) in_q dist have "u = tr" by (metis eq_key_imp_eq_value)
      with gu show "\<exists>spo g. hm_get ?m spo = Some (g, tr)" by blast
    qed
    finally show ?thesis .
  qed
qed

text \<open>What a triple that is read says about the slots it was read from.\<close>

lemma object_of_rebuilt:
  assumes "values_ok E st" and "version_at (view E (st_db st)) ids t = Some b"
    and "rebuild E st ids t b = Inr tr"
  shows "triple_subject tr = fst ids" and "predicate_string st (fst (snd ids)) = Some (pred_str (triple_predicate tr))"
    and "object_matches E tr ob' \<longleftrightarrow> fst (snd (snd ids)) = ob'"
proof -
  obtain s p ob g where ids: "ids = (s, p, ob, g)" by (cases ids)
  obtain name where name: "hm_get (st_rev st) p = Some name" and form: "value_form E ob b"
    and blob: "is_ref b \<longrightarrow> view E (st_db st) cf_BLOB (node_bytes ob) \<noteq> None"
    using assms(1,2) unfolding values_ok_def Let_def ids by fastforce
  have pn: "predicate_string st p = Some name" using name by (simp add: predicate_string_def)
  from form consider e r where "b = encode_relation e r"
    | v r where "codec_ok E v" "ob = value_object (xxh3_128 E) v" "encode_property E v r = Inr b"
    | v r where "ob = value_object (xxh3_128 E) v" "b = encode_property_ref r"
    unfolding value_form_def by blast
  then have "triple_subject tr = s \<and> pred_str (triple_predicate tr) = name \<and>
      (object_matches E tr ob' \<longleftrightarrow> ob = ob')"
  proof cases
    case 1
    with assms(3) pn show ?thesis by (auto simp: rebuild_def ids reconstruct_def object_matches_def)
  next
    case 2
    with assms(3) pn show ?thesis
      by (auto simp: rebuild_def ids reconstruct_def object_matches_def decode_encode_property)
  next
    case 3
    then have "is_ref b" by (simp add: is_ref_def encode_property_ref_def)
    with blob obtain bl where bl: "view E (st_db st) cf_BLOB (node_bytes ob) = Some bl" by blast
    then have "blob_form E (node_bytes ob) bl" using assms(1) unfolding values_ok_def Let_def by blast
    then obtain w where w: "codec_ok E w" "node_bytes ob = content_hash (xxh3_128 E) w"
      "encode_blob E w = Inr bl" unfolding blob_form_def by blast
    have "load_blob E ob st = Inr w"
      using bl w by (simp add: load_blob_def db_get_ok cf_ALL_def decode_encode_blob)
    moreover have "value_object (xxh3_128 E) w = ob"
      using w(2) node_bytes_value_object [of "xxh3_128 E" w] by (metis node_bytes_inject)
    ultimately show ?thesis
      using assms(3) pn 3 by (auto simp: rebuild_def ids reconstruct_def object_matches_def)
  qed
  with pn show "triple_subject tr = fst ids"
    "predicate_string st (fst (snd ids)) = Some (pred_str (triple_predicate tr))"
    "object_matches E tr ob' \<longleftrightarrow> fst (snd (snd ids)) = ob'" by (auto simp: ids)
qed

lemma union_reads_slots:
  assumes "values_ok E st" and "union_reads now st at (s, p, ob) tr"
  shows "triple_subject tr = s" and "predicate_string st p = Some (pred_str (triple_predicate tr))"
    and "object_matches E tr ob' \<longleftrightarrow> ob = ob'"
proof -
  obtain ids t b where r: "spo_of ids = (s, p, ob)" "rebuild E st ids t b = Inr tr"
      "live_at (view E (st_db st)) (ra_ts at) (vt_or_now at now) ids t b"
    using assms(2) unfolding union_reads_def by blast
  then have "version_at (view E (st_db st)) ids t = Some b"
    by (auto simp: live_at_def governs_def eligible_def)
  note facts = object_of_rebuilt [OF assms(1) this r(2)]
  moreover have "fst ids = s" "fst (snd ids) = p" "fst (snd (snd ids)) = ob"
    using r(1) by (auto simp: spo_of_def split: prod.splits)
  ultimately show "triple_subject tr = s" "predicate_string st p = Some (pred_str (triple_predicate tr))"
    "object_matches E tr ob' \<longleftrightarrow> ob = ob'" by simp_all
qed

end

text \<open>The prefixes the scans use select exactly the bound slots.\<close>

lemma selects_slots:
  "selects Spog (Some s) None None None ids \<longleftrightarrow> fst (spo_of ids) = s"
  "selects Spog (Some s) (Some p) None None ids \<longleftrightarrow> fst (spo_of ids) = s \<and> fst (snd (spo_of ids)) = p"
  "selects Sopg (Some s) None (Some ob) None ids \<longleftrightarrow> fst (spo_of ids) = s \<and> snd (snd (spo_of ids)) = ob"
  "selects Psog None (Some p) None None ids \<longleftrightarrow> fst (snd (spo_of ids)) = p"
  "selects Posg None (Some p) (Some ob) None ids \<longleftrightarrow> fst (snd (spo_of ids)) = p \<and> snd (snd (spo_of ids)) = ob"
  "selects Ospg None None (Some ob) None ids \<longleftrightarrow> snd (snd (spo_of ids)) = ob"
  "selects Spog None None None None ids"
  by (cases ids; auto simp: selects_def covered_slots_def quad_of_ids_def spo_of_def)+


section \<open>Pattern evaluation\<close>

text \<open>The triple fits the pattern; a predicate is named by any name that resolves to it.\<close>

definition fits :: "('d, 'm) env_scheme \<Rightarrow> ('d, 's) store_scheme \<Rightarrow> triple \<Rightarrow> pattern \<Rightarrow> bool" where
  "fits E st t p \<longleftrightarrow>
    (case pat_subject p of None \<Rightarrow> True | Some s \<Rightarrow> triple_subject t = s) \<and>
    (case pat_predicate p of None \<Rightarrow> True | Some n \<Rightarrow> pred_str (triple_predicate t) = canonical_name st n) \<and>
    (case pat_object p of None \<Rightarrow> True | Some ob \<Rightarrow> object_matches E t ob)"

lemma predicate_id_canonical:
  "predicate_id st n = hm_get (st_fwd st) (canonical_name st n)"
  by (simp add: predicate_id_def canonical_name_def canonical_predicate_def)

lemma choose_index_cases:
  "choose_index p =
    (case (pat_subject p, pat_predicate p, pat_object p) of
       (Some s, Some n, Some ob) \<Rightarrow> SpoExact s n ob
     | (Some s, Some n, None) \<Rightarrow> SpoPrefixSP s n
     | (Some s, None, Some ob) \<Rightarrow> SopPrefixSO s ob
     | (Some s, None, None) \<Rightarrow> SpoPrefixS s
     | (None, Some n, Some ob) \<Rightarrow> PosPrefixPO n ob
     | (None, Some n, None) \<Rightarrow> PsoPrefixP n
     | (None, None, Some ob) \<Rightarrow> OspPrefixO ob
     | (None, None, None) \<Rightarrow> FullScan)"
  by (cases p; cases "pat_subject p"; cases "pat_predicate p"; cases "pat_object p")
    (simp_all add: choose_index_def bind_mask_def)

context kv_engine
begin

lemma evaluate_reads:
  assumes ok: "store_ok E st" "values_ok E st"
  shows "\<exists>out. evaluate E now st sn p = Inr out \<and>
    (\<forall>tr. tr \<in> set out \<longleftrightarrow> (\<exists>spo. union_reads now st (read_at_of sn) spo tr \<and> fits E st tr p))"
proof -
  obtain s n ob where p: "p = \<lparr>pat_subject = s, pat_predicate = n, pat_object = ob\<rparr>" by (cases p) auto
  have table: "hm_get (st_fwd st) x = Some i \<longleftrightarrow> predicate_string st i = Some x" for x i
    using ok(1) by (auto simp: store_ok_def pred_table_ok_def table_ok_def predicate_string_def)
  note slots = union_reads_slots [OF ok(2)]
  have scan: "\<exists>out. scan_union E now st ord (order_prefix ord s' p' ob' None) (read_at_of sn) = Inr out \<and>
      (\<forall>tr. tr \<in> set out \<longleftrightarrow> (\<exists>spo. P spo \<and> union_reads now st (read_at_of sn) spo tr))"
    if "\<And>ids. selects ord s' p' ob' None ids \<longleftrightarrow> P (spo_of ids)" for ord s' p' ob' P
    using scan_union_total [OF ok] scan_union_set [OF ok _ that] by metis
  have fit: "fits E st tr p \<longleftrightarrow>
      (case s of None \<Rightarrow> True | Some x \<Rightarrow> fst spo = x) \<and>
      (case n of None \<Rightarrow> True | Some x \<Rightarrow> predicate_id st x = Some (fst (snd spo))) \<and>
      (case ob of None \<Rightarrow> True | Some x \<Rightarrow> snd (snd spo) = x)"
    if "union_reads now st (read_at_of sn) spo tr" for spo tr
  proof -
    obtain a b c where spo: "spo = (a, b, c)" by (cases spo)
    with that have r: "union_reads now st (read_at_of sn) (a, b, c) tr" by simp
    have "pred_str (triple_predicate tr) = canonical_name st x \<longleftrightarrow> predicate_id st x = Some b" for x
      using slots(2) [OF r] by (auto simp: predicate_id_canonical table)
    then show ?thesis
      using slots(1) [OF r] slots(3) [OF r] by (auto simp: fits_def p spo split: option.splits)
  qed
  have goal: ?thesis if "\<exists>out. evaluate E now st sn p = Inr out \<and>
      (\<forall>tr. tr \<in> set out \<longleftrightarrow> (\<exists>spo. ((case s of None \<Rightarrow> True | Some x \<Rightarrow> fst spo = x) \<and>
        (case n of None \<Rightarrow> True | Some x \<Rightarrow> predicate_id st x = Some (fst (snd spo))) \<and>
        (case ob of None \<Rightarrow> True | Some x \<Rightarrow> snd (snd spo) = x)) \<and>
        union_reads now st (read_at_of sn) spo tr))"
    using that fit by blast
  show ?thesis
  proof (rule goal, cases n)
    case None
    note no_pred = this
    show "\<exists>out. evaluate E now st sn p = Inr out \<and>
      (\<forall>tr. tr \<in> set out \<longleftrightarrow> (\<exists>spo. ((case s of None \<Rightarrow> True | Some x \<Rightarrow> fst spo = x) \<and>
        (case n of None \<Rightarrow> True | Some x \<Rightarrow> predicate_id st x = Some (fst (snd spo))) \<and>
        (case ob of None \<Rightarrow> True | Some x \<Rightarrow> snd (snd spo) = x)) \<and>
        union_reads now st (read_at_of sn) spo tr))"
    proof (cases s)
      case None
      show ?thesis
      proof (cases ob)
        case None
        with no_pred \<open>s = None\<close> scan [of Spog None None None "\<lambda>_. True"]
        show ?thesis by (simp add: p evaluate_def choose_index_cases snapshot_scan_defs scan_all_at_def
              selects_slots order_prefix_def)
      next
        case (Some y)
        with no_pred \<open>s = None\<close> scan [of Ospg None None "Some y" "\<lambda>spo. snd (snd spo) = y"]
        show ?thesis by (simp add: p evaluate_def choose_index_cases snapshot_scan_defs scan_by_object_at_def
              selects_slots)
      qed
    next
      case (Some x)
      show ?thesis
      proof (cases ob)
        case None
        with no_pred \<open>s = Some x\<close> scan [of Spog "Some x" None None "\<lambda>spo. fst spo = x"]
        show ?thesis by (simp add: p evaluate_def choose_index_cases snapshot_scan_defs scan_by_subject_at_def
              selects_slots)
      next
        case (Some y)
        with no_pred \<open>s = Some x\<close> scan [of Sopg "Some x" None "Some y" "\<lambda>spo. fst spo = x \<and> snd (snd spo) = y"]
        show ?thesis by (simp add: p evaluate_def choose_index_cases snapshot_scan_defs
              scan_by_subject_object_at_def selects_slots)
      qed
    qed
  next
    case (Some name)
    note pred = this
    show "\<exists>out. evaluate E now st sn p = Inr out \<and>
      (\<forall>tr. tr \<in> set out \<longleftrightarrow> (\<exists>spo. ((case s of None \<Rightarrow> True | Some x \<Rightarrow> fst spo = x) \<and>
        (case n of None \<Rightarrow> True | Some x \<Rightarrow> predicate_id st x = Some (fst (snd spo))) \<and>
        (case ob of None \<Rightarrow> True | Some x \<Rightarrow> snd (snd spo) = x)) \<and>
        union_reads now st (read_at_of sn) spo tr))"
    proof (cases "predicate_id st name")
      case None
      with pred show ?thesis
        by (cases s; cases ob) (auto simp: p evaluate_def choose_index_cases snapshot_scan_defs
            scan_by_subject_predicate_at_def scan_by_predicate_at_def scan_by_predicate_object_at_def)
    next
      case (Some i)
      note i = this
      show ?thesis
      proof (cases s)
        case None
        show ?thesis
        proof (cases ob)
          case None
          have "selects Psog None (Some i) None None ids \<longleftrightarrow> i = fst (snd (spo_of ids))" for ids
            by (auto simp: selects_slots)
          with pred i \<open>s = None\<close> None scan [of Psog None "Some i" None "\<lambda>spo. i = fst (snd spo)"]
          show ?thesis by (simp add: p evaluate_def choose_index_cases snapshot_scan_defs
                scan_by_predicate_at_def)
        next
          case (Some y)
          have "selects Posg None (Some i) (Some y) None ids \<longleftrightarrow>
              i = fst (snd (spo_of ids)) \<and> snd (snd (spo_of ids)) = y" for ids
            by (auto simp: selects_slots)
          with pred i \<open>s = None\<close> Some
            scan [of Posg None "Some i" "Some y" "\<lambda>spo. i = fst (snd spo) \<and> snd (snd spo) = y"]
          show ?thesis by (simp add: p evaluate_def choose_index_cases snapshot_scan_defs
                scan_by_predicate_object_at_def)
        qed
      next
        case (Some x)
        obtain out where out: "scan_union E now st Spog (order_prefix Spog (Some x) (Some i) None None)
            (read_at_of sn) = Inr out"
          "\<And>tr. tr \<in> set out \<longleftrightarrow> (\<exists>spo. (fst spo = x \<and> i = fst (snd spo)) \<and>
            union_reads now st (read_at_of sn) spo tr)"
        proof -
          have "selects Spog (Some x) (Some i) None None ids \<longleftrightarrow>
              fst (spo_of ids) = x \<and> i = fst (snd (spo_of ids))" for ids
            by (auto simp: selects_slots)
          with scan [of Spog "Some x" "Some i" None "\<lambda>spo. fst spo = x \<and> i = fst (snd spo)"] that
          show thesis by blast
        qed
        show ?thesis
        proof (cases ob)
          case None
          with pred i \<open>s = Some x\<close> out show ?thesis
            by (simp add: p evaluate_def choose_index_cases snapshot_scan_defs
                scan_by_subject_predicate_at_def)
        next
          case (Some y)
          have "tr \<in> set (filter (\<lambda>t. object_matches E t y) out) \<longleftrightarrow>
              (\<exists>spo. (fst spo = x \<and> i = fst (snd spo) \<and> snd (snd spo) = y) \<and>
                union_reads now st (read_at_of sn) spo tr)" for tr
            using out(2) [of tr] slots(3) by fastforce
          with Some pred i \<open>s = Some x\<close> out(1) show ?thesis
            by (simp add: p evaluate_def choose_index_cases snapshot_scan_defs
                scan_by_subject_predicate_at_def)
        qed
      qed
    qed
  qed
qed

text \<open>Evaluation is the full scan, filtered.\<close>

lemma evaluate_filtered_scan:
  assumes ok: "store_ok E st" "values_ok E st"
  shows "\<exists>all out. sn_scan_all E now st sn = Inr all \<and> evaluate E now st sn p = Inr out \<and>
    set out = {t \<in> set all. fits E st t p}"
proof -
  obtain all where all: "evaluate E now st sn pattern_new = Inr all"
    "\<And>tr. tr \<in> set all \<longleftrightarrow> (\<exists>spo. union_reads now st (read_at_of sn) spo tr)"
    using evaluate_reads [OF ok, of now sn pattern_new] by (auto simp: fits_def pattern_new_def)
  obtain out where out: "evaluate E now st sn p = Inr out"
    "\<And>tr. tr \<in> set out \<longleftrightarrow> (\<exists>spo. union_reads now st (read_at_of sn) spo tr \<and> fits E st tr p)"
    using evaluate_reads [OF ok, of now sn p] by blast
  have "sn_scan_all E now st sn = Inr all"
    using all(1) by (simp add: evaluate_def pattern_new_def choose_index_cases)
  with out all(2) show ?thesis by (intro exI [of _ all] exI [of _ out]) auto
qed

end

end
