(* ===== verification/Datalog_Join.thy ===== *)
theory Datalog_Join
  imports Datalog Query_Facts
begin

text \<open>
  What the evaluator of conjunctive queries computes. A deadline gives all of the answer or a
  timeout, never a part; and pushing the bound variables into the scans answers what the naive join
  over all facts answers.
\<close>


section \<open>Deadlines\<close>

definition no_deadline :: "world \<Rightarrow> world" where
  "no_deadline W = W\<lparr>w_late := \<lambda>_. False\<rparr>"

definition timely :: "(world \<Rightarrow> 'a qrun) \<Rightarrow> bool" where
  "timely m \<longleftrightarrow> (\<forall>W n. (fst (m W n) = Inl Timeout \<or> m W n = m (no_deadline W) n) \<and>
    fst (m (no_deadline W) n) \<noteq> Inl Timeout)"

named_theorems timely_intros

lemma timely_ret [timely_intros]: "timely (\<lambda>W. qret x)"
  by (simp add: timely_def qret_def)

lemma no_deadline_fields [simp]:
  "w_scan_now (no_deadline W) = w_scan_now W" "w_edge (no_deadline W) = w_edge W"
  "w_now (no_deadline W) = w_now W" "w_late (no_deadline W) n = False"
  by (simp_all add: no_deadline_def)

lemma timely_lift: "(\<And>W. r (no_deadline W) = r W) \<Longrightarrow> timely (\<lambda>W. qlift (r W :: 'a res))"
  by (auto simp: timely_def qlift_def split: sum.splits)

lemma timely_check [timely_intros]: "timely check_deadline"
  by (simp add: timely_def check_deadline_def no_deadline_def)

lemma timely_bind [timely_intros]:
  assumes "timely m" and "\<And>x. timely (\<lambda>W. f W x)"
  shows "timely (\<lambda>W. qbind (m W) (f W))"
  unfolding timely_def
proof (intro allI conjI)
  fix W n
  let ?N = "no_deadline W"
  obtain r k where m: "m ?N n = (r, k)" by fastforce
  have r: "r \<noteq> Inl Timeout" using assms(1) m unfolding timely_def by (metis fst_conv)
  show "fst (qbind (m ?N) (f ?N) n) \<noteq> Inl Timeout"
    using r assms(2) m by (auto simp: qbind_def timely_def split: sum.splits)
  show "fst (qbind (m W) (f W) n) = Inl Timeout \<or> qbind (m W) (f W) n = qbind (m ?N) (f ?N) n"
  proof (cases "fst (m W n) = Inl Timeout")
    case True
    then show ?thesis by (cases "m W n") (auto simp: qbind_def)
  next
    case False
    then have "m W n = (r, k)" using assms(1) m unfolding timely_def by metis
    with m r assms(2) show ?thesis
      by (cases r) (auto simp: qbind_def timely_def)
  qed
qed

lemma timely_traverse [timely_intros]:
  assumes "\<And>x. timely (\<lambda>W. f W x)"
  shows "timely (\<lambda>W. qtraverse (f W) xs)"
  by (induction xs) (auto intro!: timely_intros assms)

lemma timely_fold [timely_intros]:
  assumes "\<And>x s. timely (\<lambda>W. f W x s)"
  shows "timely (\<lambda>W. qfold (f W) xs s)"
  by (induction xs arbitrary: s) (auto intro!: timely_intros assms)

lemma timely_if [timely_intros]: "timely a \<Longrightarrow> timely b \<Longrightarrow> timely (\<lambda>W. if P then a W else b W)"
  by (cases P) simp_all

lemma timely_hops_loop: "timely (\<lambda>W. hops_loop E W st sn pred k frontier visited)"
proof (induction k arbitrary: frontier visited)
  case (Suc k)
  show ?case
    by (auto simp: expand_node_def split: prod.splits intro!: timely_intros timely_lift Suc)
qed (simp add: timely_ret)

lemma timely_reachable_from_hops: "timely (\<lambda>W. reachable_from_hops E W st sn start pred k)"
  unfolding reachable_from_hops_def by (intro timely_intros timely_hops_loop)

lemma timely_option:
  "timely a \<Longrightarrow> (\<And>x. timely (f x)) \<Longrightarrow> timely (\<lambda>W. case y of None \<Rightarrow> a W | Some x \<Rightarrow> f x W)"
  by (cases y) simp_all

lemma timely_hop_solution: "timely (\<lambda>W. hop_solution E W st sn vp pred k sol)"
  unfolding hop_solution_def hop_starts_def
  by (intro timely_intros timely_option timely_reachable_from_hops timely_lift) simp

lemma timely_match_pattern:
  assumes "\<And>p. timely (\<lambda>W. scan W p)"
  shows "timely (\<lambda>W. match_pattern E W st sn vp p sol bv (scan W))"
  unfolding match_pattern_def
  by (intro timely_intros timely_option timely_lift assms) simp

lemma timely_eval_patterns:
  assumes "\<And>p. timely (\<lambda>W. scan W p)"
  shows "timely (\<lambda>W. eval_patterns E W st sn bv (scan W) vps sols)"
proof (induction vps arbitrary: sols)
  case (Cons vp vps)
  show ?case
    unfolding eval_patterns.simps pattern_step_def
    by (intro timely_intros timely_option timely_hop_solution timely_match_pattern assms Cons)
qed (simp add: timely_ret)

lemma timely_evaluate_solutions:
  assumes "\<And>p. timely (\<lambda>W. scan W p)"
  shows "timely (\<lambda>W. evaluate_solutions E W st sn q initial bv (scan W))"
  unfolding evaluate_solutions_def by (intro timely_intros timely_eval_patterns assms)

lemma timely_derived_triple: "timely (\<lambda>W. derived_triple W pred x)"
  by (simp add: timely_def derived_triple_def split: prod.splits)

lemma timely_evaluate_hybrid: "timely (\<lambda>W. evaluate_hybrid E W st sn D p)"
  unfolding evaluate_hybrid_def
  by (intro timely_intros timely_option timely_lift timely_derived_triple) simp_all

lemma timely_apply_rule: "timely (\<lambda>W. apply_rule E W st sn r acc)"
  unfolding apply_rule_def execute_query_hybrid_full_def
  by (cases acc) (auto intro!: timely_intros timely_evaluate_solutions timely_evaluate_hybrid)

lemma timely_execute_query_full: "timely (\<lambda>W. execute_query_full E W st sn q registry)"
  unfolding execute_query_full_def execute_query_seeded_full_def registry_scan_run_def
  by (intro timely_evaluate_solutions timely_lift) simp

lemma timely_recursive_loop:
  "(fst (recursive_loop E W st sn rules D n) = Inl Timeout \<or>
     recursive_loop E W st sn rules D n = recursive_loop E (no_deadline W) st sn rules D n) \<and>
   fst (recursive_loop E (no_deadline W) st sn rules D n) \<noteq> Inl Timeout"
proof (induction E "no_deadline W" st sn rules D n arbitrary: rule: recursive_loop.induct)
  case (1 E st sn rules D n)
  let ?N = "no_deadline W"
  have pass: "timely (\<lambda>W. qfold (apply_rule E W st sn) rules (D, False))"
    by (intro timely_intros timely_apply_rule)
  have stp: "recursive_loop E V st sn rules D n =
      (case check_deadline V n of (Inl e, k) \<Rightarrow> (Inl e, k)
       | (Inr _, k) \<Rightarrow> (case qfold (apply_rule E V st sn) rules (D, False) k of
           (Inl e, j) \<Rightarrow> (Inl e, j)
         | (Inr (D', added), j) \<Rightarrow> if \<not> added then (Inr D', j) else recursive_loop E V st sn rules D' j))"
    for V by (rule recursive_loop.simps)
  have chk: "check_deadline ?N n = (Inr (), Suc n)" by (simp add: check_deadline_def)
  obtain r j where q: "qfold (apply_rule E ?N st sn) rules (D, False) (Suc n) = (r, j)" by fastforce
  have r: "r \<noteq> Inl Timeout" using pass q unfolding timely_def by (metis fst_conv)
  show ?case
  proof (cases "w_late W n \<or> fst (qfold (apply_rule E W st sn) rules (D, False) (Suc n)) = Inl Timeout")
    case True
    then have late: "fst (recursive_loop E W st sn rules D n) = Inl Timeout"
      unfolding stp [of W] by (auto simp: check_deadline_def split: prod.splits sum.splits)
    show ?thesis
    proof (cases r)
      case (Inl e)
      with late r show ?thesis unfolding stp [of ?N] by (simp add: chk q)
    next
      case (Inr x)
      obtain D' added where x: "x = (D', added)" by fastforce
      show ?thesis
      proof (cases added)
        case True
        from "1.hyps" [OF chk [symmetric] _ q [unfolded Inr x, symmetric]] True
        have "fst (recursive_loop E ?N st sn rules D' j) \<noteq> Inl Timeout" by simp
        with late True show ?thesis unfolding stp [of ?N] by (simp add: chk q Inr x)
      qed (use late in \<open>unfold stp [of ?N], simp add: chk q Inr x\<close>)
    qed
  next
    case False
    then have same: "qfold (apply_rule E W st sn) rules (D, False) (Suc n) = (r, j)"
      using pass q unfolding timely_def by metis
    have chk': "check_deadline W n = (Inr (), Suc n)" using False by (simp add: check_deadline_def)
    show ?thesis
    proof (cases r)
      case (Inl e)
      with r show ?thesis unfolding stp [of ?N] stp [of W] by (simp add: chk chk' q same)
    next
      case (Inr x)
      obtain D' added where x: "x = (D', added)" by fastforce
      show ?thesis
      proof (cases added)
        case True
        from "1.hyps" [OF chk [symmetric] _ q [unfolded Inr x, symmetric]] True
        have "(fst (recursive_loop E W st sn rules D' j) = Inl Timeout \<or>
            recursive_loop E W st sn rules D' j = recursive_loop E ?N st sn rules D' j) \<and>
          fst (recursive_loop E ?N st sn rules D' j) \<noteq> Inl Timeout" by simp
        with True show ?thesis unfolding stp [of ?N] stp [of W] by (simp add: chk chk' q same Inr x)
      qed (unfold stp [of ?N] stp [of W], simp add: chk chk' q same Inr x)
    qed
  qed
qed


section \<open>The naive join\<close>

text \<open>
  A fact is a triple without its edge id and times; the object of a property is its value. A source
  says, for a predicate or none, which facts a scan draws from.
\<close>

type_synonym fact = "node_id \<times> string \<times> (node_id + value)"
type_synonym source = "string option \<Rightarrow> fact set"

definition fact_of :: "triple \<Rightarrow> fact option" where
  "fact_of t =
    (case t of
       Relation s p ob _ _ \<Rightarrow> Some (s, pred_str p, Inl ob)
     | Property s p v _ \<Rightarrow> Some (s, pred_str p, Inr v)
     | _ \<Rightarrow> None)"

definition object_id :: "'m ext_scheme \<Rightarrow> node_id + value \<Rightarrow> node_id" where
  "object_id X ob = (case ob of Inl i \<Rightarrow> i | Inr v \<Rightarrow> value_object (xxh3_128 X) v)"

definition slots_fit :: "'m ext_scheme \<Rightarrow> fact \<Rightarrow> pattern \<Rightarrow> bool" where
  "slots_fit X = (\<lambda>(s, _, ob) p. slot_is (pat_subject p) s \<and> slot_is (pat_object p) (object_id X ob))"

text \<open>A scan answers from a source: the facts that fit the bound slots, all of them, and no error.\<close>

definition answers :: "'m ext_scheme \<Rightarrow> (pattern \<Rightarrow> triple list qrun) \<Rightarrow> source \<Rightarrow> bool" where
  "answers X scan C \<longleftrightarrow> (\<forall>p n. \<exists>ts k. scan p n = (Inr ts, k) \<and>
    fact_of ` set ts = Some ` {c \<in> C (pat_predicate p). slots_fit X c p})"

definition extend_fact :: "bool \<Rightarrow> fact \<Rightarrow> var_pattern \<Rightarrow> solution \<Rightarrow> solution option" where
  "extend_fact bv = (\<lambda>(s, pn, ob) vp sol.
    Option.bind (bind_node (vp_subject vp) s sol) (\<lambda>s1.
    Option.bind (case vp_object vp of
        Literal w \<Rightarrow> (case ob of Inr v \<Rightarrow> if value_eq v w then Some s1 else None | _ \<Rightarrow> None)
      | Var name \<Rightarrow> (case ob of Inl i \<Rightarrow> bind_node (Var name) i s1
          | Inr v \<Rightarrow> if bv \<and> bindable v then bind_value name v s1 else None)
      | _ \<Rightarrow> Some s1) (\<lambda>s2.
    bind_predicate pn (vp_predicate_var vp) s2)))"

text \<open>The constants of a pattern, which extending a solution leaves to the scan.\<close>

definition constants_ok :: "'m ext_scheme \<Rightarrow> fact \<Rightarrow> var_pattern \<Rightarrow> bool" where
  "constants_ok X = (\<lambda>(s, _, ob) vp.
    (case vp_subject vp of Bound i \<Rightarrow> s = i | _ \<Rightarrow> True) \<and>
    (case vp_object vp of Bound i \<Rightarrow> object_id X ob = i
      | Literal w \<Rightarrow> object_id X ob = value_object (xxh3_128 X) w | _ \<Rightarrow> True))"

definition naive_step :: "'m ext_scheme \<Rightarrow> source \<Rightarrow> bool \<Rightarrow> var_pattern \<Rightarrow> solution \<Rightarrow> solution set" where
  "naive_step X C bv vp sol =
    {sol'. \<exists>c\<in>C (pat_predicate (substitute X vp sol)). constants_ok X c vp \<and> extend_fact bv c vp sol = Some sol'}"

fun naive_join :: "'m ext_scheme \<Rightarrow> source \<Rightarrow> bool \<Rightarrow> var_pattern list \<Rightarrow> solution set \<Rightarrow> solution set" where
  "naive_join X C bv [] S = S"
| "naive_join X C bv (vp # vps) S = naive_join X C bv vps (\<Union>sol\<in>S. naive_step X C bv vp sol)"

lemma naive_join_empty [simp]: "naive_join X C bv vps {} = {}"
  by (induction vps) simp_all

lemma naive_step_mono:
  "(\<And>x. C x \<subseteq> C' x) \<Longrightarrow> naive_step X C bv vp sol \<subseteq> naive_step X C' bv vp sol"
  unfolding naive_step_def by blast

lemma naive_join_mono:
  "(\<And>x. C x \<subseteq> C' x) \<Longrightarrow> S \<subseteq> S' \<Longrightarrow> naive_join X C bv vps S \<subseteq> naive_join X C' bv vps S'"
proof (induction vps arbitrary: S S')
  case (Cons vp vps)
  have "(\<Union>sol\<in>S. naive_step X C bv vp sol) \<subseteq> (\<Union>sol\<in>S'. naive_step X C' bv vp sol)"
    using Cons.prems naive_step_mono [of C C'] by (meson UN_mono subsetD)
  with Cons.IH [OF Cons.prems(1)] show ?case by simp
qed simp

text \<open>The pattern looks at the default union of the graphs, one step at a time.\<close>

definition plain :: "var_pattern \<Rightarrow> bool" where
  "plain vp \<longleftrightarrow> vp_edge_var vp = None \<and> vp_max_hops vp = None \<and> vp_graph vp = GUnion"

lemma extend_full_fact:
  assumes "vp_edge_var vp = None" and "fact_of t = Some c"
  shows "extend_full t vp sol bv = extend_fact bv c vp sol"
  using assms
  by (cases t; cases "vp_object vp")
    (auto simp: extend_full_def extend_fact_def extend_edge_def extend_object_def fact_of_def)

lemma value_eq_hash:
  assumes "value_eq w v" and "bindable v"
  shows "value_object H w = value_object H v"
proof -
  have "canonical_bytes w = canonical_bytes v"
    using assms by (cases "(w, v)" rule: value_eq.cases)
      (auto simp: bindable_def f64_eq_def f64_canonical_def)
  then show ?thesis by (simp add: value_object_def content_hash_def)
qed

lemma bind_node_keeps:
  "bind_node t i sol = Some s1 \<Longrightarrow>
    sol_values s1 = sol_values sol \<and> sol_preds s1 = sol_preds sol \<and>
    (\<forall>x j. sol_nodes sol x = Some j \<longrightarrow> sol_nodes s1 x = Some j)"
  by (auto simp: bind_node_def split: qterm.splits if_splits option.splits)

lemma pushdown:
  assumes "extend_fact bv c vp sol = Some sol'"
  shows "slots_fit X c (substitute X vp sol) \<longleftrightarrow> constants_ok X c vp"
proof -
  obtain s pn ob where c: "c = (s, pn, ob)" by (cases c)
  obtain s1 where s1: "bind_node (vp_subject vp) s sol = Some s1"
    using assms by (auto simp: extend_fact_def c Option.bind_eq_Some_conv)
  have subj: "slot_is (resolve_term X (vp_subject vp) sol) s \<longleftrightarrow>
      (case vp_subject vp of Bound i \<Rightarrow> s = i | _ \<Rightarrow> True)"
    using s1 by (auto simp: slot_is_def resolve_term_def bind_node_def split: qterm.splits option.splits if_splits)
  note keeps = bind_node_keeps [OF s1]
  have obj: "slot_is (resolve_term X (vp_object vp) sol) (object_id X ob) \<longleftrightarrow>
      (case vp_object vp of Bound i \<Rightarrow> object_id X ob = i
        | Literal w \<Rightarrow> object_id X ob = value_object (xxh3_128 X) w | _ \<Rightarrow> True)"
  proof (cases "vp_object vp")
    case (Var name)
    show ?thesis
    proof (cases ob)
      case (Inl i)
      then obtain s2 where "bind_node (Var name) i s1 = Some s2"
        using assms s1 Var by (auto simp: extend_fact_def c Option.bind_eq_Some_conv)
      then have "sol_values sol name = None" "\<And>j. sol_nodes s1 name = Some j \<Longrightarrow> j = i"
        using keeps by (auto simp: bind_node_def split: if_splits option.splits)
      with keeps Inl Var show ?thesis
        by (auto simp: slot_is_def resolve_term_def object_id_def split: option.splits)
    next
      case (Inr v)
      then obtain s2 where b: "bindable v" "bind_value name v s1 = Some s2"
        using assms s1 Var by (auto simp: extend_fact_def c Option.bind_eq_Some_conv split: if_splits)
      then have "sol_nodes s1 name = None" "\<And>w. sol_values sol name = Some w \<Longrightarrow> value_eq w v"
        using keeps by (auto simp: bind_value_def split: if_splits option.splits)
      moreover then have "sol_nodes sol name = None" using keeps by (metis not_Some_eq)
      ultimately show ?thesis
        using Inr Var b(1) value_eq_hash [of _ v]
        by (auto simp: slot_is_def resolve_term_def object_id_def split: option.splits)
    qed
  qed (auto simp: slot_is_def resolve_term_def)
  show ?thesis
    using subj obj by (simp add: slots_fit_def constants_ok_def c substitute_def)
qed

lemma match_pattern_step:
  assumes "answers E scan C" and "plain vp"
  shows "\<exists>out k. match_pattern E W st sn vp (substitute E vp sol) sol bv scan n = (Inr out, k) \<and>
    set out = naive_step E C bv vp sol"
proof -
  let ?p = "substitute E vp sol"
  obtain ts k where ts: "scan ?p n = (Inr ts, k)"
    "fact_of ` set ts = Some ` {c \<in> C (pat_predicate ?p). slots_fit E c ?p}"
    using assms(1) unfolding answers_def by blast
  let ?out = "List.map_filter (\<lambda>t. extend_full t vp sol bv) ts"
  have "match_pattern E W st sn vp ?p sol bv scan n = (Inr ?out, k)"
    using assms(2) ts(1) by (simp add: match_pattern_def plain_def graph_scope_of_def qbind_def qret_def)
  moreover have "set ?out = naive_step E C bv vp sol"
  proof -
    have "x \<in> set ?out \<longleftrightarrow> (\<exists>t\<in>set ts. extend_full t vp sol bv = Some x)" for x
      by (force simp: List.map_filter_def)
    also have "\<dots> x \<longleftrightarrow> (\<exists>t\<in>set ts. \<exists>c. fact_of t = Some c \<and> extend_fact bv c vp sol = Some x)" for x
    proof -
      have "fact_of t \<in> Some ` {c \<in> C (pat_predicate ?p). slots_fit E c ?p}" if "t \<in> set ts" for t
        using ts(2) that by blast
      then show ?thesis
        using extend_full_fact [of vp] assms(2) unfolding plain_def by (metis (no_types, lifting) imageE)
    qed
    also have "\<dots> x \<longleftrightarrow> (\<exists>c. Some c \<in> fact_of ` set ts \<and> extend_fact bv c vp sol = Some x)" for x
      unfolding image_iff by metis
    also have "\<dots> x \<longleftrightarrow> (\<exists>c\<in>C (pat_predicate ?p). slots_fit E c ?p \<and> extend_fact bv c vp sol = Some x)" for x
      unfolding ts(2) by auto
    also have "\<dots> x \<longleftrightarrow> x \<in> naive_step E C bv vp sol" for x
      using pushdown [of bv _ vp sol x E] unfolding naive_step_def by blast
    finally show ?thesis by blast
  qed
  ultimately show ?thesis by blast
qed

lemma qtraverse_union:
  assumes "\<And>x n. x \<in> set xs \<Longrightarrow> \<exists>out k. f x n = (Inr out, k) \<and> set out = F x"
  shows "\<exists>outs k. qtraverse f xs n = (Inr outs, k) \<and> set (concat outs) = (\<Union>x\<in>set xs. F x)"
  using assms
proof (induction xs arbitrary: n)
  case (Cons x xs)
  obtain out k where one: "f x n = (Inr out, k)" "set out = F x"
    using Cons.prems [of x n] by (meson list.set_intros(1))
  obtain outs j where rest: "qtraverse f xs k = (Inr outs, j)" "set (concat outs) = (\<Union>x\<in>set xs. F x)"
    using Cons.IH [of k] Cons.prems by auto
  show ?case
    by (intro exI [of _ "out # outs"] exI [of _ j]) (use one rest in \<open>auto simp: qbind_def qret_def\<close>)
qed (auto simp: qret_def)

lemma eval_patterns_join:
  assumes "answers E scan C" and "\<And>m. \<not> w_late W m" and "\<forall>vp\<in>set vps. plain vp"
  shows "\<exists>out k. eval_patterns E W st sn bv scan vps sols n = (Inr out, k) \<and>
    set out = naive_join E C bv vps (set sols)"
  using assms(3)
proof (induction vps arbitrary: sols n)
  case (Cons vp vps)
  have pl: "plain vp" using Cons.prems by simp
  have "\<exists>outs k. qtraverse (\<lambda>sol. match_pattern E W st sn vp (substitute E vp sol) sol bv scan) sols (Suc n)
      = (Inr outs, k) \<and> set (concat outs) = (\<Union>sol\<in>set sols. naive_step E C bv vp sol)"
    by (rule qtraverse_union) (rule match_pattern_step [OF assms(1) pl])
  then obtain outs k where outs: "qtraverse (\<lambda>sol. match_pattern E W st sn vp (substitute E vp sol) sol bv scan)
      sols (Suc n) = (Inr outs, k)" "set (concat outs) = (\<Union>sol\<in>set sols. naive_step E C bv vp sol)" by blast
  have stp: "pattern_step E W st sn bv scan vp sols (Suc n) = (Inr (concat outs), k)"
    using pl outs(1) by (simp add: pattern_step_def plain_def qbind_def qret_def)
  show ?case
  proof (cases "concat outs = []")
    case True
    then have "(\<Union>sol\<in>set sols. naive_step E C bv vp sol) = {}" using outs(2) by (metis list.set(1))
    with True stp assms(2) [of n] show ?thesis
      by (intro exI [of _ "[]"] exI [of _ k]) (auto simp: qbind_def qret_def check_deadline_def)
  next
    case False
    obtain out j where "eval_patterns E W st sn bv scan vps (concat outs) k = (Inr out, j)"
      "set out = naive_join E C bv vps (set (concat outs))" using Cons by (meson list.set_intros(2))
    with False stp assms(2) [of n] outs(2) show ?thesis
      by (intro exI [of _ out] exI [of _ j]) (auto simp: qbind_def qret_def check_deadline_def)
  qed
qed (auto simp: qret_def)

lemma evaluate_solutions_join:
  assumes "answers E scan C" and "\<And>m. \<not> w_late W m" and "\<forall>vp\<in>set q. plain vp"
  shows "\<exists>out k. evaluate_solutions E W st sn q initial bv scan n = (Inr out, k) \<and>
    set out = naive_join E C bv q (set initial)"
proof (cases "initial = []")
  case True
  then show ?thesis by (auto simp: evaluate_solutions_def qret_def)
next
  case False
  then show ?thesis using eval_patterns_join [OF assms] by (simp add: evaluate_solutions_def)
qed


section \<open>The facts of a snapshot\<close>

definition stored :: "('d, 'm) env_scheme \<Rightarrow> timestamp \<Rightarrow> 'd store \<Rightarrow> snapshot \<Rightarrow> source" where
  "stored E now st sn x =
    {c. \<exists>all t. sn_scan_all E now st sn = Inr all \<and> t \<in> set all \<and> fact_of t = Some c \<and>
      (case x of None \<Rightarrow> True | Some n \<Rightarrow> fst (snd c) = canonical_name st n)}"

context kv_engine
begin

lemma rebuilt_fact:
  assumes "values_ok E st" and "union_reads now st at spo tr"
  shows "fact_of tr \<noteq> None"
proof -
  obtain ids t b where "rebuild E st ids t b = Inr tr" using assms(2) unfolding union_reads_def by blast
  then obtain s p ob g name dv where "ids = (s, p, ob, g)" and r: "(case dv of
        DecodedRelation e r \<Rightarrow> Inr (Relation s (Predicate name) ob e (r\<lparr>tt := t\<rparr>))
      | DecodedProperty v r \<Rightarrow> Inr (Property s (Predicate name) v (r\<lparr>tt := t\<rparr>))
      | DecodedPropertyRef r \<Rightarrow>
          rbind (load_blob E ob st) (\<lambda>v. Inr (Property s (Predicate name) v (r\<lparr>tt := t\<rparr>)))) = Inr tr"
    unfolding rebuild_def reconstruct_def by (cases ids) (auto simp only: prod.case rbind_Inr_iff)
  then show ?thesis by (cases dv) (auto simp: fact_of_def)
qed

lemma evaluate_answers:
  assumes ok: "store_ok E st" "values_ok E st"
  shows "answers E (\<lambda>p. qlift (evaluate E now st sn p)) (stored E now st sn)"
  unfolding answers_def
proof (intro allI)
  fix p n
  obtain all out where a: "sn_scan_all E now st sn = Inr all" "evaluate E now st sn p = Inr out"
    "set out = {t \<in> set all. fits E st t p}"
    using evaluate_filtered_scan [OF ok] by blast
  obtain all' where "evaluate E now st sn pattern_new = Inr all'"
    "\<And>tr. tr \<in> set all' \<longleftrightarrow> (\<exists>spo. union_reads now st (read_at_of sn) spo tr)"
    using evaluate_reads [OF ok, of now sn pattern_new] by (auto simp: fits_def pattern_new_def)
  moreover from this have "sn_scan_all E now st sn = Inr all'"
    by (simp add: evaluate_def pattern_new_def choose_index_cases)
  ultimately have fact: "fact_of t \<noteq> None" if "t \<in> set all" for t
    using that a(1) rebuilt_fact [OF ok(2)] by (metis sum.inject(2))
  have fit: "fits E st t p \<longleftrightarrow> slots_fit E c p \<and>
      (case pat_predicate p of None \<Rightarrow> True | Some n \<Rightarrow> fst (snd c) = canonical_name st n)"
    if "fact_of t = Some c" for t c
    using that by (cases t) (auto simp: fact_of_def fits_def slots_fit_def slot_is_def object_matches_def
        object_id_def split: option.splits)
  have "fact_of ` set out = Some ` {c \<in> stored E now st sn (pat_predicate p). slots_fit E c p}"
  proof (intro subset_antisym subsetI)
    fix x assume "x \<in> fact_of ` set out"
    then obtain t where t: "t \<in> set all" "fits E st t p" "x = fact_of t" using a(3) by blast
    with fact obtain c where "fact_of t = Some c" by blast
    with t fit [of t c] a(1) show "x \<in> Some ` {c \<in> stored E now st sn (pat_predicate p). slots_fit E c p}"
      by (auto simp: stored_def)
  next
    fix x assume "x \<in> Some ` {c \<in> stored E now st sn (pat_predicate p). slots_fit E c p}"
    then obtain c t where "x = Some c" "t \<in> set all" "fact_of t = Some c" "slots_fit E c p"
      "case pat_predicate p of None \<Rightarrow> True | Some n \<Rightarrow> fst (snd c) = canonical_name st n"
      using a(1) by (auto simp: stored_def)
    with fit [of t c] a(3) show "x \<in> fact_of ` set out" by (force simp: image_iff)
  qed
  with a(2) show "\<exists>ts k. qlift (evaluate E now st sn p) n = (Inr ts, k) \<and>
      fact_of ` set ts = Some ` {c \<in> stored E now st sn (pat_predicate p). slots_fit E c p}"
    by (auto simp: qlift_def)
qed

end

end
