(* ===== verification/Datalog_Model.thy ===== *)
theory Datalog_Model
  imports Datalog_Join
begin

text \<open>
  Recursive rules compute their least model: over a sound store and without a deadline the loop
  returns, and what it returns is the least set of facts that holds the seed and is closed under the
  rules. Reachability, by rules and by bounded search, is the transitive closure of the edges read.
\<close>


section \<open>The least model\<close>

definition consequences :: "'m ext_scheme \<Rightarrow> source \<Rightarrow> rule list \<Rightarrow> (string \<times> node_id \<times> node_id) set" where
  "consequences X C rules =
    (\<Union>r\<in>set rules. new_facts r (naive_join X C True (rl_body r) {empty_solution}))"

text \<open>Predicates with derived facts are answered from the facts, the others from the store.\<close>

definition source_of :: "source \<Rightarrow> string set \<Rightarrow> (string \<times> node_id \<times> node_id) set \<Rightarrow> source" where
  "source_of S keys F x =
    (case x of Some p \<Rightarrow> if p \<in> keys then {(s, p, Inl ob) |s ob. (p, s, ob) \<in> F} else S x | None \<Rightarrow> S x)"

definition heads :: "rule list \<Rightarrow> string set" where
  "heads rules = rl_head_predicate ` set rules"

definition least_model ::
  "'m ext_scheme \<Rightarrow> source \<Rightarrow> (string \<times> node_id \<times> node_id) list \<Rightarrow> rule list \<Rightarrow>
    (string \<times> node_id \<times> node_id) set" where
  "least_model X S seed rules =
    lfp (\<lambda>F. set seed \<union> consequences X (source_of S (heads rules \<union> fst ` set seed) F) rules)"

lemma source_of_mono: "F \<subseteq> F' \<Longrightarrow> source_of S keys F x \<subseteq> source_of S keys F' x"
  by (auto simp: source_of_def split: option.splits)

lemma new_facts_mono: "A \<subseteq> B \<Longrightarrow> new_facts r A \<subseteq> new_facts r B"
  by (auto simp: new_facts_def)

lemma consequences_mono:
  "(\<And>x. C x \<subseteq> C' x) \<Longrightarrow> consequences X C rules \<subseteq> consequences X C' rules"
  unfolding consequences_def by (intro UN_mono subset_refl new_facts_mono naive_join_mono)

lemma model_mono: "mono (\<lambda>F. set seed \<union> consequences X (source_of S keys F) rules)"
  by (intro monoI Un_mono subset_refl consequences_mono source_of_mono)

lemma least_model_unfold:
  "least_model X S seed rules =
    set seed \<union> consequences X (source_of S (heads rules \<union> fst ` set seed) (least_model X S seed rules)) rules"
  unfolding least_model_def by (rule lfp_unfold [OF model_mono])

lemma least_model_least:
  "set seed \<subseteq> F \<Longrightarrow> consequences X (source_of S (heads rules \<union> fst ` set seed) F) rules \<subseteq> F \<Longrightarrow>
    least_model X S seed rules \<subseteq> F"
  unfolding least_model_def by (rule lfp_lowerbound) simp


section \<open>One pass over the rules\<close>

text \<open>\<open>keyed\<close>: which predicates the facts have an entry for while the loop runs.\<close>

definition keyed :: "source \<Rightarrow> rule list \<Rightarrow> (string \<times> node_id \<times> node_id) list \<Rightarrow> derived_facts \<Rightarrow> bool" where
  "keyed S rules seed D \<longleftrightarrow>
    fst ` set seed \<subseteq> dom D \<and> dom D \<subseteq> heads rules \<union> fst ` set seed \<and>
    (\<forall>h\<in>heads rules - fst ` set seed. S (Some h) = {})"

definition hybrid_source :: "source \<Rightarrow> derived_facts \<Rightarrow> source" where
  "hybrid_source S D x =
    (case x of Some p \<Rightarrow> (case D p of Some ps \<Rightarrow> {(s, p, Inl ob) |s ob. (s, ob) \<in> set ps} | None \<Rightarrow> S x)
     | None \<Rightarrow> S x)"

lemma hybrid_source_of:
  assumes "keyed S rules seed D"
  shows "hybrid_source S D = source_of S (heads rules \<union> fst ` set seed) (facts_of D)"
proof
  fix x
  show "hybrid_source S D x = source_of S (heads rules \<union> fst ` set seed) (facts_of D) x"
  proof (cases x)
    case (Some p)
    show ?thesis
    proof (cases "D p")
      case None
      then have "p \<notin> fst ` set seed" "facts_of D \<inter> {p} \<times> UNIV = {}"
        using assms by (auto simp: keyed_def facts_of_def pairs_of_def)
      with None Some assms show ?thesis
        by (auto simp: hybrid_source_def source_of_def keyed_def)
    next
      case (Some ps)
      then have "p \<in> heads rules \<union> fst ` set seed" using assms by (auto simp: keyed_def)
      with Some \<open>x = Some p\<close> show ?thesis
        by (auto simp: hybrid_source_def source_of_def facts_of_def pairs_of_def)
    qed
  qed (simp add: hybrid_source_def source_of_def)
qed

lemma derived_triples:
  "\<exists>ts k. qtraverse (derived_triple W pred) ps n = (Inr ts, k) \<and>
    fact_of ` set ts = (\<lambda>(s, ob). Some (s, pred, Inl ob)) ` set ps"
proof (induction ps arbitrary: n)
  case (Cons x ps)
  obtain s ob where x: "x = (s, ob)" by fastforce
  obtain ts k where rest: "qtraverse (derived_triple W pred) ps (Suc n) = (Inr ts, k)"
    "fact_of ` set ts = (\<lambda>(s, ob). Some (s, pred, Inl ob)) ` set ps" using Cons by blast
  let ?t = "Relation s (Predicate pred) ob (w_edge W n) (assert_now (w_now W n) (w_now W n))"
  show ?case
    by (intro exI [of _ "?t # ts"] exI [of _ k])
      (use rest in \<open>simp add: x qbind_def qret_def derived_triple_def fact_of_def\<close>)
qed (simp add: qret_def)

lemma add_pair_dom: "dom (add_pair p x D) = insert p (dom D)"
  by (auto simp: add_pair_def entry_or_default_def)

lemma add_solutions_dom:
  "fold (add_solution r) sols (D, added) = (D', added') \<Longrightarrow> rl_head_predicate r \<in> dom D \<Longrightarrow> dom D' = dom D"
proof (induction sols arbitrary: D added)
  case (Cons sol sols)
  obtain D1 a1 where one: "add_solution r sol (D, added) = (D1, a1)" by fastforce
  have "dom D1 = dom D"
  proof (cases "head_pair r sol")
    case None
    with one show ?thesis by (simp add: add_solution_def)
  next
    case (Some x)
    with one have "D1 = add_pair (rl_head_predicate r) x D" by (simp add: add_solution_def)
    then show ?thesis using Cons.prems(2) by (simp only: add_pair_dom insert_absorb)
  qed
  moreover have "fold (add_solution r) sols (D1, a1) = (D', added')" using Cons.prems(1) one by simp
  ultimately show ?case using Cons.IH Cons.prems(2) by metis
qed simp

context kv_engine
begin

lemma hybrid_answers:
  assumes ok: "store_ok E st" "values_ok E st"
  shows "answers E (evaluate_hybrid E W st sn D) (hybrid_source (stored E (w_scan_now W) st sn) D)"
  unfolding answers_def
proof (intro allI)
  fix p n
  let ?S = "stored E (w_scan_now W) st sn"
  obtain ts k where base: "qlift (evaluate E (w_scan_now W) st sn p) n = (Inr ts, k)"
    "fact_of ` set ts = Some ` {c \<in> ?S (pat_predicate p). slots_fit E c p}"
    using evaluate_answers [OF ok] unfolding answers_def by blast
  show "\<exists>ts k. evaluate_hybrid E W st sn D p n = (Inr ts, k) \<and>
      fact_of ` set ts = Some ` {c \<in> hybrid_source ?S D (pat_predicate p). slots_fit E c p}"
  proof (cases "pat_predicate p")
    case None
    with base show ?thesis by (auto simp: evaluate_hybrid_def hybrid_source_def)
  next
    case (Some pred)
    show ?thesis
    proof (cases "D pred")
      case None
      with Some base show ?thesis by (auto simp: evaluate_hybrid_def hybrid_source_def)
    next
      case (Some ps)
      let ?ps = "filter (\<lambda>(s, ob). slot_is (pat_subject p) s \<and> slot_is (pat_object p) ob) ps"
      obtain ts k where "qtraverse (derived_triple W pred) ?ps n = (Inr ts, k)"
        "fact_of ` set ts = (\<lambda>(s, ob). Some (s, pred, Inl ob)) ` set ?ps"
        using derived_triples by blast
      moreover have "(\<lambda>(s, ob). Some (s, pred, Inl ob)) ` set ?ps =
          Some ` {c \<in> hybrid_source ?S D (pat_predicate p). slots_fit E c p}"
        using Some \<open>pat_predicate p = Some pred\<close>
        by (auto simp: hybrid_source_def slots_fit_def object_id_def image_iff)
      ultimately show ?thesis
        using Some \<open>pat_predicate p = Some pred\<close> by (simp add: evaluate_hybrid_def)
    qed
  qed
qed

lemma apply_rule_exact:
  assumes ok: "store_ok E st" "values_ok E st" and W: "\<And>m. \<not> w_late W m"
    and plain: "\<forall>vp\<in>set (rl_body r). plain vp"
    and keyed: "keyed (stored E (w_scan_now W) st sn) rules seed D" and "r \<in> set rules"
  shows "\<exists>D' added' k. apply_rule E W st sn r (D, added) n = (Inr (D', added'), k) \<and>
    facts_of D' = facts_of D \<union> new_facts r (naive_join E (source_of (stored E (w_scan_now W) st sn)
      (heads rules \<union> fst ` set seed) (facts_of D)) True (rl_body r) {empty_solution}) \<and>
    keyed (stored E (w_scan_now W) st sn) rules seed D'"
proof -
  let ?S = "stored E (w_scan_now W) st sn"
  obtain sols k where sols: "execute_query_hybrid_full E W st sn (rl_body r) D n = (Inr sols, k)"
    "set sols = naive_join E (hybrid_source ?S D) True (rl_body r) {empty_solution}"
  proof -
    have "\<exists>out k. execute_query_hybrid_full E W st sn (rl_body r) D n = (Inr out, k) \<and>
        set out = naive_join E (hybrid_source ?S D) True (rl_body r) (set [empty_solution])"
      unfolding execute_query_hybrid_full_def
      by (rule evaluate_solutions_join [OF hybrid_answers [OF ok] W plain])
    with that show thesis by auto
  qed
  let ?D = "entry_or_default (rl_head_predicate r) D"
  obtain D' added' where f: "fold (add_solution r) sols (?D, added) = (D', added')" by fastforce
  have "apply_rule E W st sn r (D, added) n = (Inr (D', added'), k)"
    using sols(1) f by (simp add: apply_rule_def qbind_def qret_def)
  moreover have "facts_of D' = facts_of D \<union> new_facts r (set sols)"
    using facts_of_add_solutions [OF f] by simp
  moreover have "dom D' = insert (rl_head_predicate r) (dom D)"
    using add_solutions_dom [OF f] by (auto simp: entry_or_default_def)
  then have "keyed ?S rules seed D'"
    using keyed assms(6) by (auto simp: keyed_def heads_def)
  ultimately show ?thesis
    unfolding sols(2) hybrid_source_of [OF keyed] by (intro exI conjI)
qed

text \<open>A pass stays below any closed set, and a pass that adds nothing shows the facts closed.\<close>

lemma rule_pass_exact:
  assumes ok: "store_ok E st" "values_ok E st" and W: "\<And>m. \<not> w_late W m"
    and plain: "\<forall>r\<in>set rules. \<forall>vp\<in>set (rl_body r). plain vp"
    and "set rs \<subseteq> set rules"
    and "keyed (stored E (w_scan_now W) st sn) rules seed D"
    and "C = source_of (stored E (w_scan_now W) st sn) (heads rules \<union> fst ` set seed)"
  shows "\<exists>D' added' k. qfold (apply_rule E W st sn) rs (D, added) n = (Inr (D', added'), k) \<and>
    keyed (stored E (w_scan_now W) st sn) rules seed D' \<and>
    (\<forall>M. consequences E (C M) rules \<subseteq> M \<longrightarrow> facts_of D \<subseteq> M \<longrightarrow> facts_of D' \<subseteq> M) \<and>
    consequences E (C (facts_of D)) rs \<subseteq> facts_of D'"
  using assms(5,6)
proof (induction rs arbitrary: D added n)
  case Nil
  then show ?case by (auto simp: qret_def consequences_def)
next
  case (Cons r rs)
  let ?S = "stored E (w_scan_now W) st sn"
  let ?new = "\<lambda>F. new_facts r (naive_join E (C F) True (rl_body r) {empty_solution})"
  have r: "r \<in> set rules" using Cons.prems by simp
  obtain D1 a1 k where one: "apply_rule E W st sn r (D, added) n = (Inr (D1, a1), k)"
    "facts_of D1 = facts_of D \<union> ?new (facts_of D)" "keyed ?S rules seed D1"
    using apply_rule_exact [OF ok W _ Cons.prems(2) r] plain r assms(7) by blast
  obtain D' a' j where rest: "qfold (apply_rule E W st sn) rs (D1, a1) k = (Inr (D', a'), j)"
    "keyed ?S rules seed D'"
    "\<And>M. consequences E (C M) rules \<subseteq> M \<Longrightarrow> facts_of D1 \<subseteq> M \<Longrightarrow> facts_of D' \<subseteq> M"
    "consequences E (C (facts_of D1)) rs \<subseteq> facts_of D'"
    using Cons.IH [OF _ one(3)] Cons.prems(1) by (metis set_subset_Cons subset_trans)
  have run: "qfold (apply_rule E W st sn) (r # rs) (D, added) n = (Inr (D', a'), j)"
    using one(1) rest(1) by (simp add: qbind_def)
  have below: "facts_of D' \<subseteq> M" if M: "consequences E (C M) rules \<subseteq> M" "facts_of D \<subseteq> M" for M
  proof (rule rest(3) [OF M(1)])
    have "?new (facts_of D) \<subseteq> ?new M"
      using source_of_mono [OF M(2)] by (intro new_facts_mono naive_join_mono) (auto simp: assms(7))
    also have "\<dots> \<subseteq> consequences E (C M) rules" using r by (auto simp: consequences_def)
    finally show "facts_of D1 \<subseteq> M" using M one(2) by blast
  qed
  have "facts_of D1 \<subseteq> facts_of D'" using rule_pass_facts [OF rest(1)] by blast
  moreover have "consequences E (C (facts_of D)) rs \<subseteq> consequences E (C (facts_of D1)) rs"
    using source_of_mono [of "facts_of D" "facts_of D1"] one(2) unfolding assms(7)
    by (intro consequences_mono) auto
  ultimately have "consequences E (C (facts_of D)) (r # rs) \<subseteq> facts_of D'"
    using rest(4) one(2) by (auto simp: consequences_def)
  with run below rest(2) show ?case by blast
qed


section \<open>The loop\<close>

lemma recursive_loop_model:
  assumes ok: "store_ok E st" "values_ok E st" and W: "\<And>m. \<not> w_late W m"
    and plain: "\<forall>r\<in>set rules. \<forall>vp\<in>set (rl_body r). plain vp"
    and "keyed (stored E (w_scan_now W) st sn) rules seed D"
    and "facts_of D \<subseteq> M" and "M = least_model E (stored E (w_scan_now W) st sn) seed rules"
    and "set seed \<subseteq> facts_of D"
  shows "\<exists>D' k. recursive_loop E W st sn rules D n = (Inr D', k) \<and> facts_of D' = M"
  using assms(5,6,8)
proof (induction "card ((rl_head_predicate ` set rules) \<times> (UNIV :: (node_id \<times> node_id) set) - facts_of D)"
    arbitrary: D n rule: less_induct)
  case less
  let ?S = "stored E (w_scan_now W) st sn" and ?keys = "heads rules \<union> fst ` set seed"
  let ?H = "(rl_head_predicate ` set rules) \<times> (UNIV :: (node_id \<times> node_id) set)"
  have M: "M = set seed \<union> consequences E (source_of ?S ?keys M) rules"
    unfolding assms(7) by (rule least_model_unfold)
  obtain D' a' k where pass: "qfold (apply_rule E W st sn) rules (D, False) (Suc n) = (Inr (D', a'), k)"
    "keyed ?S rules seed D'"
    "\<forall>M. consequences E (source_of ?S ?keys M) rules \<subseteq> M \<longrightarrow> facts_of D \<subseteq> M \<longrightarrow> facts_of D' \<subseteq> M"
    "consequences E (source_of ?S ?keys (facts_of D)) rules \<subseteq> facts_of D'"
    using rule_pass_exact [OF ok W plain subset_refl less.prems(1) refl, of False "Suc n"]
    by - (elim exE conjE, rule that, assumption+)
  note grown = rule_pass_facts [OF pass(1)]
  have run: "recursive_loop E W st sn rules D n =
      (if \<not> a' then (Inr D', k) else recursive_loop E W st sn rules D' k)"
    using W pass(1) by (subst recursive_loop.simps) (simp add: check_deadline_def)
  show ?case
  proof (cases a')
    case False
    then have same: "facts_of D' = facts_of D" using grown by blast
    then have "M \<subseteq> facts_of D"
      unfolding assms(7) using pass(4) less.prems(3) by (intro least_model_least) auto
    with same less.prems(2) False run show ?thesis by auto
  next
    case True
    have "?H - facts_of D' \<subset> ?H - facts_of D" using grown True by blast
    then have "card (?H - facts_of D') < card (?H - facts_of D)"
      by (intro psubset_card_mono) (simp_all add: finite_Prod_UNIV)
    moreover have "facts_of D' \<subseteq> M"
      by (rule pass(3) [rule_format]) (use M less.prems(2) in blast)+
    moreover have "set seed \<subseteq> facts_of D'" using less.prems(3) grown by blast
    ultimately show ?thesis using less.hyps [of D' k] pass(2) run True by auto
  qed
qed

lemma seed_facts_spec:
  "facts_of (seed_facts seed) = set seed \<and> dom (seed_facts seed) = fst ` set seed"
proof -
  have "facts_of (fold (\<lambda>(p, x). add_pair p x) seed D) = facts_of D \<union> set seed \<and>
      dom (fold (\<lambda>(p, x). add_pair p x) seed D) = dom D \<union> fst ` set seed" for D
  proof (induction seed arbitrary: D)
    case (Cons x seed)
    obtain p s ob where "x = (p, s, ob)" by (cases x)
    then show ?case
      using Cons [of "add_pair p (s, ob) D"] by (simp add: facts_of_add_pair add_pair_dom)
  qed simp
  moreover have "facts_of Map.empty = {}" by (simp add: facts_of_def pairs_of_def)
  ultimately show ?thesis unfolding seed_facts_def by simp
qed

text \<open>
  The rules return the least model. Derived predicates that are not seeded must not be stored: until
  its first rule is applied such a predicate is looked up in the store.
\<close>

lemma execute_recursive_model:
  assumes ok: "store_ok E st" "values_ok E st" and W: "\<And>m. \<not> w_late W m"
    and plain: "\<forall>r\<in>set rules. \<forall>vp\<in>set (rl_body r). plain vp"
    and "\<forall>h\<in>heads rules - fst ` set seed. stored E (w_scan_now W) st sn (Some h) = {}"
  shows "\<exists>D k. execute_recursive E W st sn seed rules n = (Inr D, k) \<and>
    facts_of D = least_model E (stored E (w_scan_now W) st sn) seed rules"
  unfolding execute_recursive_def
proof (rule recursive_loop_model [OF ok W plain _ _ refl])
  show "keyed (stored E (w_scan_now W) st sn) rules seed (seed_facts seed)"
    using assms(5) by (simp add: keyed_def seed_facts_spec)
  show "facts_of (seed_facts seed) \<subseteq> least_model E (stored E (w_scan_now W) st sn) seed rules"
    by (subst least_model_unfold) (simp add: seed_facts_spec)
qed (simp add: seed_facts_spec)

end

end
