(* ===== verification/Reachability.thy ===== *)
theory Reachability
  imports Datalog_Model
begin

text \<open>
  Paths. The bounded search finds exactly the nodes at most so many steps away; the recursive rule
  finds exactly the transitive closure. Edges are the relations of a predicate the snapshot reads.
\<close>

definition edges_read ::
  "('d, 'm) env_scheme \<Rightarrow> timestamp \<Rightarrow> 'd store \<Rightarrow> snapshot \<Rightarrow> string \<Rightarrow> (node_id \<times> node_id) set" where
  "edges_read E now st sn pred = {(a, b). \<exists>pn. (a, pn, Inl b) \<in> stored E now st sn (Some pred)}"


section \<open>Bounded search\<close>

lemma map_filter_mem: "x \<in> set (List.map_filter f ts) \<longleftrightarrow> (\<exists>t\<in>set ts. f t = Some x)"
  by (induction ts) (auto simp: map_filter_simps split: option.splits)

lemma visit_pair: "visit i (V, N) = (if i \<in> set V then (V, N) else (V @ [i], N @ [i]))"
  by (simp add: visit_def)

lemma fold_visit:
  "fold visit xs (V, N) = (V', N') \<Longrightarrow> set V' = set V \<union> set xs \<and> set N' = set N \<union> (set xs - set V)"
proof (induction xs arbitrary: V N)
  case (Cons x xs)
  show ?case
  proof (cases "x \<in> set V")
    case True
    with Cons.prems have "fold visit xs (V, N) = (V', N')" by (simp add: visit_pair)
    from Cons.IH [OF this] True show ?thesis by auto
  next
    case False
    with Cons.prems have "fold visit xs (V @ [x], N @ [x]) = (V', N')" by (simp add: visit_pair)
    from Cons.IH [OF this] False show ?thesis by auto
  qed
qed simp

lemma relation_objects_iff:
  "b \<in> set (relation_objects ts) \<longleftrightarrow> (\<exists>s p e r. Relation s p b e r \<in> set ts)"
proof -
  have "b \<in> set (relation_objects ts) \<longleftrightarrow>
      (\<exists>t\<in>set ts. (case t of Relation _ _ ob _ _ \<Rightarrow> Some ob | _ \<Rightarrow> None) = Some b)"
    unfolding relation_objects_def by (rule map_filter_mem)
  also have "\<dots> \<longleftrightarrow> (\<exists>s p e r. Relation s p b e r \<in> set ts)"
  proof
    assume "\<exists>t\<in>set ts. (case t of Relation _ _ ob _ _ \<Rightarrow> Some ob | _ \<Rightarrow> None) = Some b"
    then obtain t where t: "t \<in> set ts" "(case t of Relation _ _ ob _ _ \<Rightarrow> Some ob | _ \<Rightarrow> None) = Some b" by blast
    from t(2) have "\<exists>s p e r. t = Relation s p b e r" by (cases t) simp_all
    with \<open>t \<in> set ts\<close> show "\<exists>s p e r. Relation s p b e r \<in> set ts" by metis
  qed force
  finally show ?thesis .
qed

definition within :: "(node_id \<times> node_id) set \<Rightarrow> nat \<Rightarrow> node_id set \<Rightarrow> node_id set" where
  "within R k F = {z. \<exists>x\<in>F. \<exists>i. 1 \<le> i \<and> i \<le> k \<and> (x, z) \<in> R ^^ i}"

lemma within_I: "x \<in> F \<Longrightarrow> 1 \<le> i \<Longrightarrow> i \<le> k \<Longrightarrow> (x, z) \<in> R ^^ i \<Longrightarrow> z \<in> within R k F"
  unfolding within_def by blast

lemma within_0 [simp]: "within R 0 F = {}"
  by (simp add: within_def)

lemma within_empty [simp]: "within R k {} = {}"
  by (simp add: within_def)

lemma within_Suc: "within R (Suc k) F = R `` F \<union> within R k (R `` F)"
proof (intro subset_antisym subsetI)
  fix z assume "z \<in> within R (Suc k) F"
  then obtain x i where x: "x \<in> F" "1 \<le> i" "i \<le> Suc k" "(x, z) \<in> R ^^ i" by (auto simp: within_def)
  then obtain j where j: "i = Suc j" by (cases i) auto
  with x(4) obtain y where y: "(x, y) \<in> R" "(y, z) \<in> R ^^ j" by (meson relpow_Suc_D2)
  show "z \<in> R `` F \<union> within R k (R `` F)"
  proof (cases j)
    case 0
    with y x(1) show ?thesis by auto
  next
    case (Suc _)
    from y(1) x(1) have "y \<in> R `` F" by blast
    with Suc x(3) j within_I [OF _ _ _ y(2), of "R `` F" k] show ?thesis by simp
  qed
next
  fix z assume "z \<in> R `` F \<union> within R k (R `` F)"
  then consider x where "x \<in> F" "(x, z) \<in> R"
    | x y i where "x \<in> F" "(x, y) \<in> R" "1 \<le> i" "i \<le> k" "(y, z) \<in> R ^^ i"
    by (auto simp: within_def)
  then show "z \<in> within R (Suc k) F"
  proof cases
    case 1
    then show ?thesis by (auto simp: within_def intro!: bexI [of _ x] exI [of _ 1])
  next
    case 2
    then show ?thesis
      using relpow_Suc_I2 [of x y R z i] by (auto simp: within_def intro!: bexI [of _ x] exI [of _ "Suc i"])
  qed
qed

text \<open>What is reached from the nodes visited before is visited, or reached from the new ones.\<close>

lemma within_visited:
  assumes "R `` V \<subseteq> V \<union> F'"
  shows "within R k V \<subseteq> V \<union> F' \<union> within R k F'"
proof -
  have "x \<in> V \<Longrightarrow> (x, z) \<in> R ^^ i \<Longrightarrow> i \<le> k \<Longrightarrow> z \<in> V \<union> F' \<union> within R k F'" for x z i
  proof (induction i arbitrary: x)
    case (Suc i)
    from Suc.prems(2) obtain y where y: "(x, y) \<in> R" "(y, z) \<in> R ^^ i" by (meson relpow_Suc_D2)
    with assms Suc.prems(1) consider "y \<in> V" | "y \<in> F'" by blast
    then show ?case
    proof cases
      case 2
      with y Suc.prems(3) within_I [of y F' i k z R] show ?thesis by (cases "i = 0") auto
    qed (use Suc y in auto)
  qed simp
  then show ?thesis by (auto simp: within_def)
qed

context kv_engine
begin

lemma subject_predicate_evaluate:
  "sn_scan_by_subject_predicate E now st sn s pred =
    evaluate E now st sn \<lparr>pat_subject = Some s, pat_predicate = Some pred, pat_object = None\<rparr>"
  by (simp add: evaluate_def choose_index_cases)

text \<open>The relations a pattern with a predicate reads are the edges that its bound slots admit.\<close>

lemma relations_read:
  assumes ok: "store_ok E st" "values_ok E st"
  shows "\<exists>ts. evaluate E now st sn \<lparr>pat_subject = x, pat_predicate = Some pred, pat_object = y\<rparr> = Inr ts \<and>
    (\<forall>a b. (\<exists>p e r. Relation a p b e r \<in> set ts) \<longleftrightarrow>
      slot_is x a \<and> slot_is y b \<and> (a, b) \<in> edges_read E now st sn pred)"
proof -
  let ?p = "\<lparr>pat_subject = x, pat_predicate = Some pred, pat_object = y\<rparr>"
  obtain ts k where run: "qlift (evaluate E now st sn ?p) (0::nat) = (Inr ts, k)"
    and facts: "fact_of ` set ts = Some ` {c \<in> stored E now st sn (pat_predicate ?p). slots_fit E c ?p}"
    using evaluate_answers [OF ok] unfolding answers_def by blast
  have "(\<exists>p e r. Relation a p b e r \<in> set ts) \<longleftrightarrow>
      slot_is x a \<and> slot_is y b \<and> (a, b) \<in> edges_read E now st sn pred" for a b
  proof -
    have "(\<exists>p e r. Relation a p b e r \<in> set ts) \<longleftrightarrow> (\<exists>pn. Some (a, pn, Inl b) \<in> fact_of ` set ts)"
    proof
      assume "\<exists>pn. Some (a, pn, Inl b) \<in> fact_of ` set ts"
      then obtain pn t where t: "t \<in> set ts" "fact_of t = Some (a, pn, Inl b)" by (metis imageE)
      from t(2) have "\<exists>p e r. t = Relation a p b e r" by (cases t) (simp_all add: fact_of_def)
      with t(1) show "\<exists>p e r. Relation a p b e r \<in> set ts" by metis
    qed (force simp: fact_of_def image_iff)
    also have "\<dots> \<longleftrightarrow> slot_is x a \<and> slot_is y b \<and> (a, b) \<in> edges_read E now st sn pred"
    proof -
      have "Some (a, pn, Inl b) \<in> Some ` A \<longleftrightarrow> (a, pn, Inl b) \<in> A" for pn and A :: "fact set" by auto
      then show ?thesis unfolding facts by (auto simp: edges_read_def slots_fit_def object_id_def)
    qed
    finally show ?thesis .
  qed
  moreover have "evaluate E now st sn ?p = Inr ts" using run by (simp add: qlift_Inr_iff)
  ultimately show ?thesis by blast
qed

lemma neighbours:
  assumes "store_ok E st" "values_ok E st"
  shows "\<exists>ts. evaluate E now st sn \<lparr>pat_subject = Some s, pat_predicate = Some pred, pat_object = None\<rparr> = Inr ts \<and>
    set (relation_objects ts) = edges_read E now st sn pred `` {s} \<and>
    (\<forall>a p b e r. Relation a p b e r \<in> set ts \<longrightarrow> a = s)"
proof -
  obtain ts where ts: "evaluate E now st sn
      \<lparr>pat_subject = Some s, pat_predicate = Some pred, pat_object = None\<rparr> = Inr ts"
    and rel: "\<And>a b. (\<exists>p e r. Relation a p b e r \<in> set ts) \<longleftrightarrow>
      slot_is (Some s) a \<and> slot_is None b \<and> (a, b) \<in> edges_read E now st sn pred"
    using relations_read [OF assms] by blast
  have "set (relation_objects ts) = edges_read E now st sn pred `` {s}"
    using rel by (auto simp: relation_objects_iff slot_is_def)
  moreover have "a = s" if "Relation a p b e r \<in> set ts" for a p b e r
    using rel [of a b] that by (auto simp: slot_is_def)
  ultimately show ?thesis using ts by blast
qed

lemma expand_frontier:
  assumes ok: "store_ok E st" "values_ok E st" and "R = edges_read E (w_scan_now W) st sn pred"
  shows "\<exists>V' N'. qfold (expand_node E W st sn pred) F (V, N) n = (Inr (V', N'), n) \<and>
    set V' = set V \<union> R `` set F \<and> set N' = set N \<union> (R `` set F - set V)"
proof (induction F arbitrary: V N)
  case (Cons x F)
  obtain ts where ts: "sn_scan_by_subject_predicate E (w_scan_now W) st sn x pred = Inr ts"
    "set (relation_objects ts) = R `` {x}"
    using neighbours [OF ok, of "w_scan_now W" sn x pred] by (auto simp: subject_predicate_evaluate assms(3))
  obtain V1 N1 where f: "fold visit (relation_objects ts) (V, N) = (V1, N1)" by fastforce
  have one: "expand_node E W st sn pred x (V, N) n = (Inr (V1, N1), n)"
    using ts(1) f by (simp add: expand_node_def qbind_def qlift_def qret_def)
  obtain V' N' where rest: "qfold (expand_node E W st sn pred) F (V1, N1) n = (Inr (V', N'), n)"
    "set V' = set V1 \<union> R `` set F" "set N' = set N1 \<union> (R `` set F - set V1)" using Cons by blast
  have "qfold (expand_node E W st sn pred) (x # F) (V, N) n = (Inr (V', N'), n)"
    using one rest(1) by (simp add: qbind_def)
  with rest(2,3) fold_visit [OF f] ts(2) show ?case by auto
qed (simp add: qret_def)

lemma hops_loop_within:
  assumes ok: "store_ok E st" "values_ok E st" and W: "\<And>m. \<not> w_late W m"
    and R: "R = edges_read E (w_scan_now W) st sn pred"
  shows "R `` (set V - set F) \<subseteq> set V \<Longrightarrow>
    \<exists>out j. hops_loop E W st sn pred k F V n = (Inr out, j) \<and> set out = set V \<union> within R k (set F)"
proof (induction k arbitrary: F V n)
  case (Suc k)
  obtain V' N where e: "qfold (expand_node E W st sn pred) F (V, []) (Suc n) = (Inr (V', N), Suc n)"
    "set V' = set V \<union> R `` set F" "set N = R `` set F - set V"
    using expand_frontier [OF ok R, of F V "[]" "Suc n"] by auto
  have closed: "R `` set V \<subseteq> set V \<union> set N" using Suc.prems e(3) by auto
  have "within R (Suc k) (set F) = R `` set F \<union> within R k (R `` set F)" by (rule within_Suc)
  moreover have "within R k (R `` set F) = within R k (set N) \<union> within R k (R `` set F \<inter> set V)"
    using e(3) by (auto simp: within_def)
  moreover have "within R k (R `` set F \<inter> set V) \<subseteq> set V \<union> set N \<union> within R k (set N)"
    using within_visited [OF closed, of k] by (auto simp: within_def)
  ultimately have sets: "set V \<union> within R (Suc k) (set F) = set V' \<union> within R k (set N)"
    unfolding e(2) using e(3) by blast
  have chk: "check_deadline W n = (Inr (), Suc n)" using W by (simp add: check_deadline_def)
  show ?case
  proof (cases "N = []")
    case True
    with e(1) chk sets show ?thesis
      by (intro exI [of _ V'] exI [of _ "Suc n"]) (simp add: qbind_def qret_def)
  next
    case False
    have "R `` (set V' - set N) \<subseteq> set V'" using closed e(2,3) by blast
    from Suc.IH [OF this] obtain out j where "hops_loop E W st sn pred k N V' (Suc n) = (Inr out, j)"
      "set out = set V' \<union> within R k (set N)" by blast
    with e(1) chk sets False show ?thesis
      by (intro exI [of _ out] exI [of _ j]) (simp add: qbind_def)
  qed
qed (simp add: qret_def)

lemma reachable_from_hops_spec:
  assumes "store_ok E st" and "values_ok E st" and "\<And>m. \<not> w_late W m"
  shows "\<exists>out j. reachable_from_hops E W st sn start pred k n = (Inr out, j) \<and>
    set out = {z. \<exists>i. 1 \<le> i \<and> i \<le> k \<and> (start, z) \<in> edges_read E (w_scan_now W) st sn pred ^^ i}"
proof (cases "k = 0")
  case True
  then show ?thesis by (auto simp: reachable_from_hops_def qret_def)
next
  case False
  have "edges_read E (w_scan_now W) st sn pred `` (set [] - set [start]) \<subseteq> set []" by simp
  from hops_loop_within [OF assms refl this, of k n] False show ?thesis
    by (auto simp: reachable_from_hops_def within_def)
qed


section \<open>The recursive rule\<close>

lemma reachable_body:
  "new_facts (reachable_rule pred)
      (naive_join X (source_of S {''reachable''} F) True (rl_body (reachable_rule pred)) {empty_solution}) =
    {(''reachable'', a, c) |a b c. (''reachable'', a, b) \<in> F \<and>
      (\<exists>pn. (b, pn, Inl c) \<in> source_of S {''reachable''} F (Some pred))}"
    (is "?L = ?R")
proof -
  let ?C = "source_of S {''reachable''} F"
  let ?p1 = "var_pattern_new\<lparr>vp_subject := Var ''x'', vp_predicate := Some ''reachable'', vp_object := Var ''y''\<rparr>"
  let ?p2 = "var_pattern_new\<lparr>vp_subject := Var ''y'', vp_predicate := Some pred, vp_object := Var ''z''\<rparr>"
  let ?s1 = "\<lambda>a b. solution_from_nodes (Map.empty(''x'' \<mapsto> a, ''y'' \<mapsto> b))"
  have C1: "?C (Some ''reachable'') = {(s, ''reachable'', Inl ob) |s ob. (''reachable'', s, ob) \<in> F}"
    by (simp add: source_of_def)
  have sub: "pat_predicate (substitute X ?p1 sol) = Some ''reachable''"
    "pat_predicate (substitute X ?p2 sol) = Some pred" for sol
    by (simp_all add: substitute_def var_pattern_new_def)
  have ext1: "extend_fact True (s, ''reachable'', Inl ob) ?p1 empty_solution = Some (?s1 s ob)" for s ob
    by (simp add: extend_fact_def var_pattern_new_def bind_node_def bind_predicate_def empty_solution_def
        solution_from_nodes_def)
  have ok: "constants_ok X c ?p1" "constants_ok X c ?p2" for c
    by (cases c; simp add: constants_ok_def var_pattern_new_def)+
  have step1: "naive_step X ?C True ?p1 empty_solution = {?s1 a b |a b. (''reachable'', a, b) \<in> F}"
  proof -
    have "naive_step X ?C True ?p1 empty_solution =
        {sol'. \<exists>s ob. (''reachable'', s, ob) \<in> F \<and> extend_fact True (s, ''reachable'', Inl ob) ?p1 empty_solution = Some sol'}"
      unfolding naive_step_def sub C1 using ok(1) by blast
    moreover have "{sol'. \<exists>s ob. (''reachable'', s, ob) \<in> F \<and>
        extend_fact True (s, ''reachable'', Inl ob) ?p1 empty_solution = Some sol'} =
        {?s1 a b |a b. (''reachable'', a, b) \<in> F}"
      unfolding ext1 option.inject by (rule Collect_cong) metis
    ultimately show ?thesis by (rule trans)
  qed
  have ext2: "extend_fact True (s, pn, ob) ?p2 (?s1 a b) =
      (if s \<noteq> b then None else case ob of
         Inl c \<Rightarrow> Some (solution_from_nodes (Map.empty(''x'' \<mapsto> a, ''y'' \<mapsto> b, ''z'' \<mapsto> c)))
       | Inr v \<Rightarrow> if bindable v then Some ((?s1 a b)\<lparr>sol_values := [''z'' \<mapsto> v]\<rparr>) else None)" for s pn ob a b
    by (simp add: extend_fact_def var_pattern_new_def bind_node_def bind_predicate_def bind_value_def
        solution_from_nodes_def split: sum.splits)
  have step2: "naive_step X ?C True ?p2 (?s1 a b) =
      {sol'. \<exists>s pn ob. (s, pn, ob) \<in> ?C (Some pred) \<and> extend_fact True (s, pn, ob) ?p2 (?s1 a b) = Some sol'}"
    for a b
  proof -
    have "(\<exists>c\<in>A. constants_ok X c ?p2 \<and> P c) \<longleftrightarrow> (\<exists>s pn ob. (s, pn, ob) \<in> A \<and> P (s, pn, ob))" for A P
      using ok(2) by (metis prod_cases3)
    then show ?thesis unfolding naive_step_def sub by presburger
  qed
  have head: "head_pair (reachable_rule pred)
      (solution_from_nodes (Map.empty(''x'' \<mapsto> a, ''y'' \<mapsto> b, ''z'' \<mapsto> c))) = Some (a, c)"
    "head_pair (reachable_rule pred) ((?s1 a b)\<lparr>sol_values := w\<rparr>) = None" for a b c w
    by (simp_all add: head_pair_def reachable_rule_def solution_from_nodes_def)
  have pick: "(\<exists>sol. extend_fact True (s, pn, ob) ?p2 (?s1 a' b) = Some sol \<and>
      head_pair (reachable_rule pred) sol = Some (a, c)) \<longleftrightarrow> s = b \<and> a' = a \<and> ob = Inl c" for s pn ob a' b a c
    unfolding ext2 using head by (cases ob) auto
  have "naive_join X ?C True (rl_body (reachable_rule pred)) {empty_solution} =
      (\<Union>sol1\<in>{?s1 a b |a b. (''reachable'', a, b) \<in> F}. naive_step X ?C True ?p2 sol1)"
    unfolding step1 [symmetric] by (simp add: reachable_rule_def)
  then have join: "sol \<in> naive_join X ?C True (rl_body (reachable_rule pred)) {empty_solution} \<longleftrightarrow>
      (\<exists>a b s pn ob. (''reachable'', a, b) \<in> F \<and> (s, pn, ob) \<in> ?C (Some pred) \<and>
        extend_fact True (s, pn, ob) ?p2 (?s1 a b) = Some sol)" for sol
    using step2 by blast
  have "(p, a, c) \<in> ?L \<longleftrightarrow> p = ''reachable'' \<and>
      (\<exists>a' b s pn ob. (''reachable'', a', b) \<in> F \<and> (s, pn, ob) \<in> ?C (Some pred) \<and>
        (\<exists>sol. extend_fact True (s, pn, ob) ?p2 (?s1 a' b) = Some sol \<and>
          head_pair (reachable_rule pred) sol = Some (a, c)))" for p a c
  proof -
    have "rl_head_predicate (reachable_rule pred) = ''reachable''" by (simp add: reachable_rule_def)
    then have "(p, a, c) \<in> ?L \<longleftrightarrow> p = ''reachable'' \<and>
        (\<exists>sol\<in>naive_join X ?C True (rl_body (reachable_rule pred)) {empty_solution}.
          head_pair (reachable_rule pred) sol = Some (a, c))"
      unfolding new_facts_def by simp
    then show ?thesis unfolding Bex_def join by metis
  qed
  then have iff: "(p, a, c) \<in> ?L \<longleftrightarrow> p = ''reachable'' \<and>
      (\<exists>b pn. (''reachable'', a, b) \<in> F \<and> (b, pn, Inl c) \<in> ?C (Some pred))" for p a c
    unfolding pick by metis
  show ?thesis
  proof (intro set_eqI)
    fix x :: "string \<times> node_id \<times> node_id"
    obtain p a c where "x = (p, a, c)" by (cases x)
    then show "x \<in> ?L \<longleftrightarrow> x \<in> ?R" using iff by auto
  qed
qed

lemma reachable_model:
  assumes "pred \<noteq> ''reachable''" and "\<And>x. x \<in> set seed \<Longrightarrow> fst x = ''reachable''" and "seed \<noteq> []"
    and "\<And>a b. (''reachable'', a, b) \<in> set seed \<longleftrightarrow> a = start \<and> (start, b) \<in> R"
    and R: "R = {(a, b). \<exists>pn. (a, pn, Inl b) \<in> S (Some pred)}"
  shows "least_model X S seed [reachable_rule pred] = {(''reachable'', start, z) |z. (start, z) \<in> R\<^sup>+}"
    (is "?M = ?T")
proof -
  have keys: "heads [reachable_rule pred] \<union> fst ` set seed = {''reachable''}"
    using assms(2,3) by (cases seed) (auto simp: heads_def reachable_rule_def)
  have cons: "consequences X (source_of S {''reachable''} F) [reachable_rule pred] =
      {(''reachable'', a, c) |a b c. (''reachable'', a, b) \<in> F \<and> (b, c) \<in> R}" for F
    unfolding consequences_def list.set(2) list.set(1) UN_insert UN_empty Un_empty_right
      reachable_body R using assms(1) by (simp add: source_of_def)
  have seed: "x \<in> set seed \<longleftrightarrow> (\<exists>b. x = (''reachable'', start, b) \<and> (start, b) \<in> R)" for x
    using assms(2) [of x] assms(4) by (cases x) auto
  show ?thesis
  proof (intro subset_antisym)
    show "?M \<subseteq> ?T"
    proof (rule least_model_least)
      show "set seed \<subseteq> ?T" using seed by auto
      show "consequences X (source_of S (heads [reachable_rule pred] \<union> fst ` set seed) ?T) [reachable_rule pred] \<subseteq> ?T"
        unfolding keys cons by (auto intro: trancl_into_trancl)
    qed
  next
    have M: "x \<in> ?M \<longleftrightarrow> x \<in> set seed \<or> (\<exists>a b c. x = (''reachable'', a, c) \<and> (''reachable'', a, b) \<in> ?M \<and> (b, c) \<in> R)" for x
      by (subst least_model_unfold) (auto simp: keys cons)
    have "(''reachable'', start, z) \<in> ?M" if "(start, z) \<in> R\<^sup>+" for z
      using that by (induction rule: trancl_induct) (subst M, use seed in blast)+
    then show "?T \<subseteq> ?M" by blast
  qed
qed

lemma reachable_model_own_name:
  assumes "seed \<noteq> []" and mem: "\<And>x. x \<in> set seed \<longleftrightarrow> (\<exists>b. x = (''reachable'', start, b) \<and> (start, b) \<in> R)"
  shows "least_model X S seed [reachable_rule ''reachable''] = set seed" (is "?M = _")
proof -
  have keys: "heads [reachable_rule ''reachable''] \<union> fst ` set seed = {''reachable''}"
  proof -
    obtain x where "x \<in> set seed" using assms(1) by (cases seed) auto
    moreover have "\<forall>x\<in>set seed. fst x = ''reachable''" using mem by fastforce
    ultimately have "fst ` set seed = {''reachable''}" by force
    then show ?thesis by (simp add: heads_def reachable_rule_def)
  qed
  have cons: "consequences X (source_of S {''reachable''} F) [reachable_rule ''reachable''] =
      {(''reachable'', a, c) |a b c. (''reachable'', a, b) \<in> F \<and> (''reachable'', b, c) \<in> F}" for F
    unfolding consequences_def list.set(2) list.set(1) UN_insert UN_empty Un_empty_right
      reachable_body by (simp add: source_of_def)
  show ?thesis
  proof (intro subset_antisym)
    show "?M \<subseteq> set seed"
    proof (rule least_model_least)
      show "consequences X (source_of S (heads [reachable_rule ''reachable''] \<union> fst ` set seed) (set seed))
          [reachable_rule ''reachable''] \<subseteq> set seed"
        unfolding keys cons by (auto simp: mem)
    qed simp
    show "set seed \<subseteq> ?M" by (subst least_model_unfold) blast
  qed
qed

text \<open>What both cases share: the seed is the edges at the start, the rule's facts the model's.\<close>

lemma reachable_from_model:
  assumes ok: "store_ok E st" "values_ok E st" and W: "\<And>m. \<not> w_late W m"
  shows "\<exists>seed. (\<forall>x. x \<in> set seed \<longleftrightarrow>
        (\<exists>b. x = (''reachable'', start, b) \<and> (start, b) \<in> edges_read E (w_scan_now W) st sn pred)) \<and>
    (\<exists>out j. reachable_from E W st sn start pred n = (Inr out, j) \<and>
      set out = (if seed = [] then {} else {z. (''reachable'', start, z) \<in>
        least_model E (stored E (w_scan_now W) st sn) seed [reachable_rule pred]}))"
proof -
  let ?S = "stored E (w_scan_now W) st sn" and ?R = "edges_read E (w_scan_now W) st sn pred"
  let ?pick = "\<lambda>t. case t of Relation s _ ob _ _ \<Rightarrow> Some (''reachable'', s, ob) | _ \<Rightarrow> None"
  obtain ts where ts: "evaluate E (w_scan_now W) st sn
      \<lparr>pat_subject = Some start, pat_predicate = Some pred, pat_object = None\<rparr> = Inr ts"
    "set (relation_objects ts) = ?R `` {start}"
    "\<And>a p b e r. Relation a p b e r \<in> set ts \<Longrightarrow> a = start"
    using neighbours [OF ok, of "w_scan_now W" sn start pred] by blast
  define seed where "seed = List.map_filter ?pick ts"
  have mem: "x \<in> set seed \<longleftrightarrow> (\<exists>b. x = (''reachable'', start, b) \<and> (start, b) \<in> ?R)" for x
  proof -
    have "x \<in> set seed \<longleftrightarrow> (\<exists>t\<in>set ts. ?pick t = Some x)"
      unfolding seed_def by (rule map_filter_mem)
    also have "\<dots> \<longleftrightarrow> (\<exists>b. x = (''reachable'', start, b) \<and> b \<in> set (relation_objects ts))"
      
    proof
      assume "\<exists>t\<in>set ts. ?pick t = Some x"
      then obtain t where t: "t \<in> set ts" "?pick t = Some x" by blast
      from t(2) obtain s p ob e r where "t = Relation s p ob e r" "x = (''reachable'', s, ob)"
        by (cases t) simp_all
      with t(1) ts(3) [of s p ob e r] show "\<exists>b. x = (''reachable'', start, b) \<and> b \<in> set (relation_objects ts)"
        unfolding relation_objects_iff by blast
    next
      assume "\<exists>b. x = (''reachable'', start, b) \<and> b \<in> set (relation_objects ts)"
      then obtain b s p e r where "x = (''reachable'', start, b)" "Relation s p b e r \<in> set ts"
        unfolding relation_objects_iff by blast
      with ts(3) [of s p b e r] show "\<exists>t\<in>set ts. ?pick t = Some x" by force
    qed
    finally show ?thesis using ts(2) by auto
  qed
  have "\<exists>out j. reachable_from E W st sn start pred n = (Inr out, j) \<and>
      set out = (if seed = [] then {} else {z. (''reachable'', start, z) \<in>
        least_model E ?S seed [reachable_rule pred]})"
  proof (cases "seed = []")
    case True
    with ts(1) show ?thesis
      by (intro exI [of _ "[]"] exI [of _ n]) (simp add: reachable_from_def seed_def [symmetric] qbind_def qlift_def qret_def)
  next
    case False
    have "\<exists>D k. execute_recursive E W st sn seed [reachable_rule pred] n = (Inr D, k) \<and>
        facts_of D = least_model E ?S seed [reachable_rule pred]"
    proof (rule execute_recursive_model [OF ok W])
      show "\<forall>r\<in>set [reachable_rule pred]. \<forall>vp\<in>set (rl_body r). plain vp"
        by (simp add: reachable_rule_def plain_def var_pattern_new_def)
      have "''reachable'' \<in> fst ` set seed" 
      proof -
        from False obtain x where "x \<in> set seed" by (cases seed) auto
        moreover from this obtain b where "x = (''reachable'', start, b)" using mem by blast
        ultimately show ?thesis by (metis fst_conv image_eqI)
      qed
      then show "\<forall>h\<in>heads [reachable_rule pred] - fst ` set seed. ?S (Some h) = {}"
        by (simp add: heads_def reachable_rule_def)
    qed
    then obtain D k where D: "execute_recursive E W st sn seed [reachable_rule pred] n = (Inr D, k)"
      "facts_of D = least_model E ?S seed [reachable_rule pred]" by blast
    have "(''reachable'', start, z) \<in> facts_of D \<longleftrightarrow> (start, z) \<in> set (pairs_of D ''reachable'')" for z
      by (rule facts_of_iff)
    then have "set (map snd (filter (\<lambda>(s, _). s = start) (pairs_of D ''reachable''))) =
        {z. (''reachable'', start, z) \<in> facts_of D}"
      by force
    with D ts(1) False show ?thesis
      by (simp add: reachable_from_def seed_def [symmetric] Let_def qbind_def qlift_def qret_def)
  qed
  with mem show ?thesis by blast
qed

lemma reachable_from_spec:
  assumes "store_ok E st" "values_ok E st" "\<And>m. \<not> w_late W m" and "pred \<noteq> ''reachable''"
  shows "\<exists>out j. reachable_from E W st sn start pred n = (Inr out, j) \<and>
    set out = {z. (start, z) \<in> (edges_read E (w_scan_now W) st sn pred)\<^sup>+}"
proof -
  let ?R = "edges_read E (w_scan_now W) st sn pred"
  obtain seed out j where run: "reachable_from E W st sn start pred n = (Inr out, j)"
    and mem: "\<And>x. x \<in> set seed \<longleftrightarrow> (\<exists>b. x = (''reachable'', start, b) \<and> (start, b) \<in> ?R)"
    and out: "set out = (if seed = [] then {} else {z. (''reachable'', start, z) \<in>
        least_model E (stored E (w_scan_now W) st sn) seed [reachable_rule pred]})"
    using reachable_from_model [OF assms(1-3), of start sn pred n] by blast
  have "set out = {z. (start, z) \<in> ?R\<^sup>+}"
  proof (cases "seed = []")
    case True
    then have "\<And>b. (start, b) \<notin> ?R" using mem by auto
    with True out show ?thesis by (auto dest: tranclD)
  next
    case False
    have "least_model E (stored E (w_scan_now W) st sn) seed [reachable_rule pred] =
        {(''reachable'', start, z) |z. (start, z) \<in> ?R\<^sup>+}"
      by (rule reachable_model [OF assms(4)]) (use False mem in \<open>auto simp: edges_read_def\<close>)
    with False out show ?thesis by simp
  qed
  with run show ?thesis by blast
qed

lemma reachable_from_own_name:
  assumes "store_ok E st" "values_ok E st" "\<And>m. \<not> w_late W m"
  shows "\<exists>out j. reachable_from E W st sn start ''reachable'' n = (Inr out, j) \<and>
    set out = edges_read E (w_scan_now W) st sn ''reachable'' `` {start}"
proof -
  let ?R = "edges_read E (w_scan_now W) st sn ''reachable''"
  obtain seed out j where run: "reachable_from E W st sn start ''reachable'' n = (Inr out, j)"
    and mem: "\<And>x. x \<in> set seed \<longleftrightarrow> (\<exists>b. x = (''reachable'', start, b) \<and> (start, b) \<in> ?R)"
    and out: "set out = (if seed = [] then {} else {z. (''reachable'', start, z) \<in>
        least_model E (stored E (w_scan_now W) st sn) seed [reachable_rule ''reachable'']})"
    using reachable_from_model [OF assms, of start sn "''reachable''" n] by blast
  have "set out = {z. (''reachable'', start, z) \<in> set seed}"
    using out reachable_model_own_name [OF _ mem] by auto
  then have "set out = ?R `` {start}" unfolding mem by auto
  with run show ?thesis by blast
qed

end

end
