(* ===== verification/Query_Claims.thy ===== *)
theory Query_Claims
  imports Demo Reachability
begin

text \<open>
  What the query engine guarantees: an index never changes an answer, a pattern list is the join of
  its patterns over the stored facts, recursive rules give the least model, and a deadline loses a
  query but never a part of its answer.
\<close>

definition demo_world :: world where
  "demo_world = \<lparr>w_late = \<lambda>_. False, w_edge = \<lambda>_. EdgeId 0, w_now = \<lambda>_. Timestamp 9,
    w_scan_now = Timestamp 9\<rparr>"

definition demo_snapshot :: snapshot where
  "demo_snapshot = snapshot_new (Timestamp 200) (Timestamp 200)"

lemma demo_world_fields [simp]: "\<not> w_late demo_world m" "w_scan_now demo_world = Timestamp 9"
  by (simp_all add: demo_world_def)


section \<open>Patterns\<close>

text \<open>C24. The index a pattern is planned onto does not show: on a sound store, evaluating a pattern
  succeeds and gives exactly the triples of the full scan that the pattern fits.\<close>

theorem plan_equals_filtered_scan:
  assumes "kv_engine E" and "store_ok E st" and "values_ok E st"
  shows "\<exists>all out. sn_scan_all E now st sn = Inr all \<and> evaluate E now st sn p = Inr out \<and>
    set out = {t \<in> set all. fits E st t p}"
  by (rule kv_engine.evaluate_filtered_scan [OF assms])

theorem plan_equals_filtered_scan_witness:
  "\<exists>all out. sn_scan_all demo_env (Timestamp 9) demo_after demo_snapshot = Inr all \<and>
    evaluate demo_env (Timestamp 9) demo_after demo_snapshot
      \<lparr>pat_subject = Some (triple_subject demo_triple), pat_predicate = Some ''p'', pat_object = None\<rparr> = Inr out \<and>
    set out = {t \<in> set all. fits demo_env demo_after t
      \<lparr>pat_subject = Some (triple_subject demo_triple), pat_predicate = Some ''p'', pat_object = None\<rparr>}"
  by (rule plan_equals_filtered_scan [OF demo_engine demo_after_ok])

text \<open>C25. Substituting what earlier patterns bound and asking an index for the rest is the join: a
  query of plain patterns without a registry succeeds and its solutions are those of joining the
  patterns one by one over the set of all stored facts.\<close>

theorem query_is_join:
  assumes "kv_engine E" and "store_ok E st" and "values_ok E st" and "\<forall>m. \<not> w_late W m"
    and "\<forall>vp\<in>set q. plain vp"
  shows "\<exists>out k. execute_query_full E W st sn q None n = (Inr out, k) \<and>
    set out = naive_join E (stored E (w_scan_now W) st sn) True q {empty_solution}"
proof -
  have "answers E (\<lambda>p. qlift (evaluate E (w_scan_now W) st sn p)) (stored E (w_scan_now W) st sn)"
    by (rule kv_engine.evaluate_answers [OF assms(1-3)])
  then have "answers E (registry_scan_run E W st sn None) (stored E (w_scan_now W) st sn)"
    unfolding registry_scan_run_def by (simp add: evaluate_with_registry_def cong: option.case_cong)
  from evaluate_solutions_join [OF this _ assms(5), of W st sn "[empty_solution]" True n] assms(4)
  show ?thesis
    by (simp add: execute_query_full_def execute_query_seeded_full_def empty_solution_def solution_from_nodes_def)
qed

definition demo_query :: "var_pattern list" where
  "demo_query =
    [var_pattern_new\<lparr>vp_subject := Var ''x'', vp_predicate := Some ''p'', vp_object := Var ''y''\<rparr>,
     var_pattern_new\<lparr>vp_subject := Var ''y'', vp_predicate := Some ''q'', vp_object := Any\<rparr>]"

lemma demo_query_plain: "\<forall>vp\<in>set demo_query. plain vp"
  by (simp add: demo_query_def plain_def var_pattern_new_def)

theorem query_is_join_witness:
  "\<exists>out k. execute_query_full demo_env demo_world demo_after demo_snapshot demo_query None 0 = (Inr out, k) \<and>
    set out = naive_join demo_env (stored demo_env (Timestamp 9) demo_after demo_snapshot) True demo_query
      {empty_solution}"
  using query_is_join [OF demo_engine demo_after_ok _ demo_query_plain, of demo_world demo_snapshot 0] by simp

text \<open>C26. A deadline cuts a query off, it never shortens its answer: a query and a recursive rule
  set either time out, or do what they do when no deadline is set, which is never to time out.\<close>

theorem deadline_all_or_nothing:
  "(fst (execute_query_full E W st sn q registry n) = Inl Timeout \<or>
      execute_query_full E W st sn q registry n = execute_query_full E (no_deadline W) st sn q registry n) \<and>
    fst (execute_query_full E (no_deadline W) st sn q registry n) \<noteq> Inl Timeout \<and>
    (fst (execute_recursive E W st sn seed rules n) = Inl Timeout \<or>
      execute_recursive E W st sn seed rules n = execute_recursive E (no_deadline W) st sn seed rules n) \<and>
    fst (execute_recursive E (no_deadline W) st sn seed rules n) \<noteq> Inl Timeout"
  using timely_execute_query_full [of E st sn q registry] timely_recursive_loop [of E W st sn rules "seed_facts seed" n]
  unfolding timely_def execute_recursive_def by blast


section \<open>Recursion and paths\<close>

text \<open>C27. Recursive rules reach their fixpoint and stop: with no deadline and plain bodies, the loop
  returns, and the facts it returns are the least set that holds the seed and is closed under the
  rules. A head predicate without a seed must not be stored, since the first pass would read it
  from the store and later ones would not.\<close>

theorem recursion_least_model:
  assumes "kv_engine E" and "store_ok E st" and "values_ok E st" and "\<forall>m. \<not> w_late W m"
    and "\<forall>r\<in>set rules. \<forall>vp\<in>set (rl_body r). plain vp"
    and "\<forall>h\<in>heads rules - fst ` set seed. stored E (w_scan_now W) st sn (Some h) = {}"
  shows "\<exists>D k. execute_recursive E W st sn seed rules n = (Inr D, k) \<and>
    facts_of D = least_model E (stored E (w_scan_now W) st sn) seed rules"
  using kv_engine.execute_recursive_model [OF assms(1-3) _ assms(5,6)] assms(4) by blast

definition demo_rule :: rule where
  "demo_rule = \<lparr>rl_head_predicate = ''r'', rl_head_subject = ''x'', rl_head_object = ''y'', rl_body = demo_query\<rparr>"

theorem recursion_least_model_witness:
  "\<exists>D k. execute_recursive demo_env demo_world demo_after demo_snapshot
      [(''r'', NodeId 1, NodeId 2)] [demo_rule] 0 = (Inr D, k) \<and>
    facts_of D = least_model demo_env (stored demo_env (Timestamp 9) demo_after demo_snapshot)
      [(''r'', NodeId 1, NodeId 2)] [demo_rule]"
  using recursion_least_model [OF demo_engine demo_after_ok, of demo_world "[demo_rule]"
      "[(''r'', NodeId 1, NodeId 2)]" demo_snapshot 0] demo_query_plain
  by (simp add: heads_def demo_rule_def)

text \<open>C28. A search over at most \<open>k\<close> hops finds exactly the nodes that some path of one to \<open>k\<close>
  edges leads to; it returns the start only when a cycle leads back to it.\<close>

theorem bounded_search_exact:
  assumes "kv_engine E" and "store_ok E st" and "values_ok E st" and "\<forall>m. \<not> w_late W m"
  shows "\<exists>out j. reachable_from_hops E W st sn start pred k n = (Inr out, j) \<and>
    set out = {z. \<exists>i. 1 \<le> i \<and> i \<le> k \<and> (start, z) \<in> edges_read E (w_scan_now W) st sn pred ^^ i}"
  using kv_engine.reachable_from_hops_spec [OF assms(1-3)] assms(4) by blast

theorem bounded_search_exact_witness:
  "\<exists>out j. reachable_from_hops demo_env demo_world demo_after demo_snapshot (NodeId 1) ''p'' 3 0 = (Inr out, j) \<and>
    set out = {z. \<exists>i. 1 \<le> i \<and> i \<le> 3 \<and>
      (NodeId 1, z) \<in> edges_read demo_env (Timestamp 9) demo_after demo_snapshot ''p'' ^^ i}"
  using bounded_search_exact [OF demo_engine demo_after_ok, of demo_world demo_snapshot "NodeId 1" "''p''" 3 0] by simp

text \<open>C29. The recursive search returns exactly the transitive closure of the stored edges, for every
  predicate but one: asked for a predicate that is itself called \<open>reachable\<close>, it reads the name of
  its own rule and returns the direct successors only.\<close>

theorem reachable_is_closure:
  assumes "kv_engine E" and "store_ok E st" and "values_ok E st" and "\<forall>m. \<not> w_late W m"
  shows "\<exists>out j. reachable_from E W st sn start pred n = (Inr out, j) \<and>
    set out = (if pred = ''reachable''
      then edges_read E (w_scan_now W) st sn pred `` {start}
      else (edges_read E (w_scan_now W) st sn pred)\<^sup>+ `` {start})"
proof (cases "pred = ''reachable''")
  case True
  then show ?thesis using kv_engine.reachable_from_own_name [OF assms(1-3)] assms(4) by auto
next
  case False
  then show ?thesis using kv_engine.reachable_from_spec [OF assms(1-3) _ False] assms(4) by (auto simp: Image_def)
qed

theorem reachable_is_closure_witness:
  "\<exists>out j. reachable_from demo_env demo_world demo_after demo_snapshot (NodeId 1) ''p'' 0 = (Inr out, j) \<and>
    set out = (edges_read demo_env (Timestamp 9) demo_after demo_snapshot ''p'')\<^sup>+ `` {NodeId 1}"
  using reachable_is_closure [OF demo_engine demo_after_ok, of demo_world demo_snapshot "NodeId 1" "''p''" 0] by simp

end
