(* ===== verification/Type_Hierarchy.thy ===== *)
theory Type_Hierarchy
  imports Type_Registry
begin

text \<open>
  Facts about the hierarchy of node types: the check \<open>register_type\<close> makes is exact, so the hierarchy
  stays acyclic; the subtype test is reachability; and on an acyclic hierarchy the collection of the
  inherited fields ends, with one field per name, the nearest first.
\<close>


section \<open>Reachability\<close>

definition hierarchy_ok :: "type_cache \<Rightarrow> bool" where
  "hierarchy_ok cache \<longleftrightarrow> acyclic (parent_rel cache)"

lemma parent_rel_iff: "(c, p) \<in> parent_rel cache \<longleftrightarrow> (\<exists>d. hm_get cache c = Some d \<and> p \<in> set (nt_parents d))"
  unfolding parent_rel_def parents_of_def by (cases "hm_get cache c") auto

lemma parent_rel_insert:
  "parent_rel (hm_insert n d cache) =
    {(c, p). if c = n then p \<in> set (nt_parents d) else (c, p) \<in> parent_rel cache}"
  by (auto simp: parent_rel_iff hm_get_insert split: if_splits)

lemma finite_parent_rel: "finite (parent_rel cache)"
proof -
  have "parent_rel cache \<subseteq> (\<Union>n\<in>fst ` set cache. {n} \<times> set (parents_of cache n))"
    using hm_get_fst by (fastforce simp: parent_rel_iff parents_of_def)
  then show ?thesis by (rule finite_subset) auto
qed

lemma dfs_reach:
  "acyclic (parent_rel cache) \<Longrightarrow>
    dfs_cycle_check cache anc cur \<longleftrightarrow> (\<forall>x. (cur, x) \<in> (parent_rel cache)\<^sup>* \<longrightarrow> x \<notin> anc)"
proof (induction cache anc cur rule: dfs_cycle_check.induct)
  case (1 cache anc cur)
  let ?R = "parent_rel cache"
  have step: "(cur, x) \<in> ?R\<^sup>* \<longleftrightarrow> x = cur \<or> (\<exists>p. (cur, p) \<in> ?R \<and> (p, x) \<in> ?R\<^sup>*)" for x
    by (auto elim: converse_rtranclE intro: converse_rtrancl_into_rtrancl)
  have fresh: "x \<noteq> cur" if "(cur, p) \<in> ?R" "(p, x) \<in> ?R\<^sup>*" for p x
    using that "1.prems" by (auto simp: acyclic_def dest: rtrancl_into_trancl2)
  show ?case
  proof (cases "cur \<in> anc")
    case True
    then show ?thesis by (subst dfs_cycle_check.simps) auto
  next
    case notin: False
    show ?thesis
    proof (cases "hm_get cache cur")
      case None
      then have "x = cur" if "(cur, x) \<in> ?R\<^sup>*" for x
        using that step [of x] by (simp add: parent_rel_iff)
      with None notin show ?thesis by (subst dfs_cycle_check.simps) auto
    next
      case (Some d)
      have "dfs_cycle_check cache anc cur \<longleftrightarrow>
          (\<forall>p\<in>set (nt_parents d). \<forall>x. (p, x) \<in> ?R\<^sup>* \<longrightarrow> x \<notin> insert cur anc)"
        using "1.IH" [OF notin Some] "1.prems" Some notin
        by (subst dfs_cycle_check.simps) (simp add: list_all_iff)
      also have "\<dots> \<longleftrightarrow> (\<forall>p. (cur, p) \<in> ?R \<longrightarrow> (\<forall>x. (p, x) \<in> ?R\<^sup>* \<longrightarrow> x \<notin> anc))"
        using fresh Some by (auto simp: parent_rel_iff)
      also have "\<dots> \<longleftrightarrow> (\<forall>x. (cur, x) \<in> ?R\<^sup>* \<longrightarrow> x \<notin> anc)"
      proof -
        have "(\<forall>p. (cur, p) \<in> ?R \<longrightarrow> (\<forall>x. (p, x) \<in> ?R\<^sup>* \<longrightarrow> x \<notin> anc)) \<longleftrightarrow>
            (\<forall>x. x = cur \<or> (\<exists>p. (cur, p) \<in> ?R \<and> (p, x) \<in> ?R\<^sup>*) \<longrightarrow> x \<notin> anc)"
          using notin by blast
        then show ?thesis by (simp only: step)
      qed
      finally show ?thesis .
    qed
  qed
qed

lemma check_parents_iff:
  "check_parents cache n ps = Inr () \<longleftrightarrow> (\<forall>p\<in>set ps. dfs_cycle_check cache {n} p)"
  by (induction ps) auto

text \<open>Replacing the edges out of one name closes a cycle exactly when a new edge leads back to it.\<close>

lemma acyclic_replace:
  assumes "acyclic R"
  shows "acyclic {(c, p). if c = n then p \<in> P else (c, p) \<in> R} \<longleftrightarrow> (\<forall>p\<in>P. (p, n) \<notin> R\<^sup>*)"
    (is "acyclic ?R' \<longleftrightarrow> _")
proof
  have new: "(p, n) \<in> ?R'\<^sup>*" if "(p, n) \<in> R\<^sup>*" for p
    using that
  proof (induction rule: converse_rtrancl_induct)
    case (step y z)
    show ?case
    proof (cases "y = n")
      case False
      with step.hyps(1) have "(y, z) \<in> ?R'" by auto
      from this step.IH show ?thesis by (rule converse_rtrancl_into_rtrancl)
    qed simp
  qed simp
  assume ac: "acyclic ?R'"
  show "\<forall>p\<in>P. (p, n) \<notin> R\<^sup>*"
  proof
    fix p assume "p \<in> P"
    then have "(n, p) \<in> ?R'" by simp
    then show "(p, n) \<notin> R\<^sup>*"
      using new [of p] ac unfolding acyclic_def by (meson rtrancl_into_trancl2)
  qed
next
  assume cyc: "\<forall>p\<in>P. (p, n) \<notin> R\<^sup>*"
  have old: "(x, n) \<in> R\<^sup>*" if "(x, n) \<in> ?R'\<^sup>*" for x
    using that
  proof (induction rule: converse_rtrancl_induct)
    case (step y z)
    show ?case
    proof (cases "y = n")
      case False
      with step.hyps(1) have "(y, z) \<in> R" by auto
      from this step.IH show ?thesis by (rule converse_rtrancl_into_rtrancl)
    qed simp
  qed simp
  have n_free: "(n, n) \<notin> ?R'\<^sup>+"
  proof
    assume "(n, n) \<in> ?R'\<^sup>+"
    then obtain p where "(n, p) \<in> ?R'" "(p, n) \<in> ?R'\<^sup>*" by (meson tranclD)
    with cyc old show False by auto
  qed
  have "(x, y) \<in> R\<^sup>+ \<or> (x, n) \<in> ?R'\<^sup>* \<and> (n, y) \<in> ?R'\<^sup>*" if "(x, y) \<in> ?R'\<^sup>+" for x y
    using that
  proof (induction rule: trancl_induct)
    case (base y)
    then show ?case by (cases "x = n") auto
  next
    case (step y z)
    show ?case
    proof (cases "y = n")
      case True
      with step show ?thesis by (meson trancl_into_rtrancl r_into_rtrancl)
    next
      case False
      with step have "(y, z) \<in> R" by simp
      with step show ?thesis by (meson rtrancl.rtrancl_into_rtrancl trancl.trancl_into_trancl)
    qed
  qed
  moreover have "(x, x) \<notin> R\<^sup>+" for x using assms by (simp add: acyclic_def)
  moreover have "\<not> ((x, n) \<in> ?R'\<^sup>* \<and> (n, x) \<in> ?R'\<^sup>*)" if "(x, x) \<in> ?R'\<^sup>+" for x
  proof
    assume "(x, n) \<in> ?R'\<^sup>* \<and> (n, x) \<in> ?R'\<^sup>*"
    with that have "(n, n) \<in> ?R'\<^sup>+"
      by (meson rtrancl_trancl_trancl trancl_rtrancl_trancl)
    with n_free show False ..
  qed
  ultimately show "acyclic ?R'" by (meson acyclic_def)
qed

lemma check_no_cycle_iff:
  assumes "hierarchy_ok cache"
  shows "check_no_cycle n ps cache = Inr () \<longleftrightarrow>
    hierarchy_ok (hm_insert n (d\<lparr>nt_parents := ps\<rparr>) cache)"
proof -
  have "check_no_cycle n ps cache = Inr () \<longleftrightarrow> (\<forall>p\<in>set ps. (p, n) \<notin> (parent_rel cache)\<^sup>*)"
    using assms by (auto simp: check_no_cycle_def check_parents_iff dfs_reach hierarchy_ok_def)
  also have "\<dots> \<longleftrightarrow> acyclic {(c, p). if c = n then p \<in> set ps else (c, p) \<in> parent_rel cache}"
    by (rule acyclic_replace [symmetric]) (use assms in \<open>simp add: hierarchy_ok_def\<close>)
  also have "{(c, p). if c = n then p \<in> set ps else (c, p) \<in> parent_rel cache}
      = parent_rel (hm_insert n (d\<lparr>nt_parents := ps\<rparr>) cache)"
    unfolding parent_rel_insert by simp
  also have "acyclic \<dots> \<longleftrightarrow> hierarchy_ok (hm_insert n (d\<lparr>nt_parents := ps\<rparr>) cache)"
    by (simp only: hierarchy_ok_def)
  finally show ?thesis .
qed

lemma register_type_hierarchy:
  assumes "hierarchy_ok (nr_cache R)" and "register_type E X now wall d R = (r, R')"
  shows "hierarchy_ok (nr_cache R')"
proof -
  have "d\<lparr>nt_parents := nt_parents d\<rparr> = d" by simp
  then have "check_no_cycle (nt_name d) (nt_parents d) (nr_cache R) = Inr () \<longleftrightarrow>
      hierarchy_ok (hm_insert (nt_name d) d (nr_cache R))"
    using check_no_cycle_iff [OF assms(1)] by metis
  then show ?thesis
    using assms by (auto simp: register_type_def split: sum.splits prod.splits)
qed


section \<open>Subtypes\<close>

text \<open>
  The work list finds the ancestor exactly when it is reachable from a name on the list, provided
  whatever a visited name leads to in one step is on the list or visited.
\<close>

lemma walk_list_sound:
  "walk_list cache a vis ps \<Longrightarrow> \<exists>p\<in>set ps. (p, a) \<in> (parent_rel cache)\<^sup>*"
proof (induction cache a vis ps rule: walk_list.induct)
  case (2 cache a vis p ps)
  consider "p = a" | "p \<noteq> a" "p \<notin> vis" | "p \<noteq> a" "p \<in> vis" by blast
  then show ?case
  proof cases
    case 2
    with "2.prems" "2.IH"(1) obtain q where q: "q \<in> set (parents_of cache p @ ps)" "(q, a) \<in> (parent_rel cache)\<^sup>*"
      by auto
    then show ?thesis
      by (auto simp: parent_rel_def intro: converse_rtrancl_into_rtrancl)
  qed (use "2" in auto)
qed simp

lemma walk_list_complete:
  "\<forall>v\<in>vis. \<forall>q. (v, q) \<in> parent_rel cache \<longrightarrow> q \<in> vis \<union> set ps \<Longrightarrow> a \<notin> vis \<Longrightarrow>
    \<not> walk_list cache a vis ps \<Longrightarrow>
    \<exists>S. vis \<union> set ps \<subseteq> S \<and> a \<notin> S \<and> (\<forall>v\<in>S. \<forall>q. (v, q) \<in> parent_rel cache \<longrightarrow> q \<in> S)"
proof (induction cache a vis ps rule: walk_list.induct)
  case (2 cache a vis p ps)
  from "2.prems"(3) have "p \<noteq> a" by auto
  show ?case
  proof (cases "p \<in> vis")
    case True
    have "\<exists>S. vis \<union> set ps \<subseteq> S \<and> a \<notin> S \<and> (\<forall>v\<in>S. \<forall>q. (v, q) \<in> parent_rel cache \<longrightarrow> q \<in> S)"
    proof (rule "2.IH"(2))
      show "\<forall>v\<in>vis. \<forall>q. (v, q) \<in> parent_rel cache \<longrightarrow> q \<in> vis \<union> set ps"
        using "2.prems"(1) True by simp blast
      show "\<not> walk_list cache a vis ps" using "2.prems"(3) True \<open>p \<noteq> a\<close> by simp
    qed (use True \<open>p \<noteq> a\<close> "2.prems"(2) in auto)
    then obtain S where "vis \<union> set ps \<subseteq> S" "a \<notin> S" "\<forall>v\<in>S. \<forall>q. (v, q) \<in> parent_rel cache \<longrightarrow> q \<in> S"
      by (elim exE conjE)
    with True show ?thesis by (intro exI [of _ S]) auto
  next
    case False
    have "\<exists>S. insert p vis \<union> set (parents_of cache p @ ps) \<subseteq> S \<and> a \<notin> S \<and>
        (\<forall>v\<in>S. \<forall>q. (v, q) \<in> parent_rel cache \<longrightarrow> q \<in> S)"
      using False \<open>p \<noteq> a\<close> "2.prems" by (intro "2.IH"(1)) (auto simp: parent_rel_def)
    then show ?thesis by auto
  qed
qed auto

lemma is_subtype_iff: "is_subtype_of cache n a \<longleftrightarrow> (n, a) \<in> (parent_rel cache)\<^sup>*"
proof (cases "walk_list cache a {} (parents_of cache n)")
  case True
  then obtain p where "p \<in> set (parents_of cache n)" "(p, a) \<in> (parent_rel cache)\<^sup>*"
    using walk_list_sound by blast
  then have "(n, a) \<in> (parent_rel cache)\<^sup>*"
    by (auto simp: parent_rel_def intro: converse_rtrancl_into_rtrancl)
  with True show ?thesis by (simp add: is_subtype_of_def)
next
  case False
  then obtain S where S: "set (parents_of cache n) \<subseteq> S" "a \<notin> S"
    "\<And>v q. v \<in> S \<Longrightarrow> (v, q) \<in> parent_rel cache \<Longrightarrow> q \<in> S"
    using walk_list_complete [of "{}" cache "parents_of cache n" a] by auto
  have "n = a" if "(n, a) \<in> (parent_rel cache)\<^sup>*"
  proof (rule ccontr)
    assume "n \<noteq> a"
    with that obtain p where p: "(n, p) \<in> parent_rel cache" "(p, a) \<in> (parent_rel cache)\<^sup>*"
      by (meson converse_rtranclE)
    have "x \<in> S" if "(p, x) \<in> (parent_rel cache)\<^sup>*" for x
      using that by (induction rule: rtrancl_induct) (use p S in \<open>auto simp: parent_rel_def\<close>)
    with p S show False by blast
  qed
  with False show ?thesis by (auto simp: is_subtype_of_def)
qed


section \<open>Inherited fields\<close>

lemma collect_fields_Nil [simp]: "collect_fields cache [] acc = Some (snd acc)"
  by (subst collect_fields.simps) simp

lemma collect_fields_Cons [simp]:
  "collect_fields cache (n # ns) acc =
    (case hm_get cache n of None \<Rightarrow> collect_fields cache ns acc
     | Some d \<Rightarrow> collect_fields cache (nt_parents d @ ns) (fold add_field (nt_fields d) acc))"
  by (subst collect_fields.simps) simp

text \<open>
  The walk ends exactly when no cycle lies above the name: on a finite relation, when the name is
  accessible.
\<close>

definition acyclic_above :: "type_cache \<Rightarrow> string \<Rightarrow> bool" where
  "acyclic_above cache n \<longleftrightarrow> (\<forall>x. (n, x) \<in> (parent_rel cache)\<^sup>* \<longrightarrow> (x, x) \<notin> (parent_rel cache)\<^sup>+)"

lemma hierarchy_ok_above: "hierarchy_ok cache \<Longrightarrow> acyclic_above cache n"
  by (simp add: hierarchy_ok_def acyclic_def acyclic_above_def)

lemma acc_no_loop: "x \<in> Wellfounded.acc r \<Longrightarrow> (x, x) \<notin> r\<^sup>+"
proof (induction rule: acc_induct_rule)
  case (1 x)
  show ?case
  proof
    assume "(x, x) \<in> r\<^sup>+"
    then obtain y where y: "(y, x) \<in> r" "(x, y) \<in> r\<^sup>*" by (blast dest: tranclD2)
    then have "(y, y) \<in> r\<^sup>+" by (rule rtrancl_into_trancl2)
    with 1 y(1) show False by blast
  qed
qed

lemma acyclic_above_acc: "acyclic_above cache n \<longleftrightarrow> n \<in> Wellfounded.acc ((parent_rel cache)\<inverse>)"
proof
  let ?R = "parent_rel cache"
  assume acc: "n \<in> Wellfounded.acc (?R\<inverse>)"
  have "(x, x) \<notin> ?R\<^sup>+" if "(n, x) \<in> ?R\<^sup>*" for x
  proof -
    have "(x, n) \<in> (?R\<inverse>)\<^sup>*" using that by (simp add: rtrancl_converse)
    from acc_downwards [OF acc this] have "x \<in> Wellfounded.acc (?R\<inverse>)" .
    from acc_no_loop [OF this] show ?thesis by (simp add: trancl_converse)
  qed
  then show "acyclic_above cache n" by (simp add: acyclic_above_def)
next
  let ?R = "parent_rel cache"
  let ?U = "{x. (n, x) \<in> ?R\<^sup>*}"
  let ?S = "?R \<inter> ?U \<times> ?U"
  assume above: "acyclic_above cache n"
  have "acyclic ?S"
  proof (rule acyclicI, intro allI notI)
    fix x assume loop: "(x, x) \<in> ?S\<^sup>+"
    then have "(x, x) \<in> ?R\<^sup>+" by (rule trancl_mono) blast
    moreover from loop have "x \<in> ?U" by (meson tranclD IntE SigmaE2)
    ultimately show False using above by (simp add: acyclic_above_def)
  qed
  then have "wf (?S\<inverse>)" using finite_parent_rel by (simp add: finite_acyclic_wf_converse)
  then have "x \<in> ?U \<longrightarrow> x \<in> Wellfounded.acc (?R\<inverse>)" for x
  proof (induction x rule: wf_induct_rule)
    case (less x)
    show ?case
    proof (rule impI, rule accI)
      fix y assume "x \<in> ?U" "(y, x) \<in> ?R\<inverse>"
      then have "(y, x) \<in> ?S\<inverse>" "y \<in> ?U" by (auto intro: rtrancl_into_rtrancl)
      with less show "y \<in> Wellfounded.acc (?R\<inverse>)" by blast
    qed
  qed
  then show "n \<in> Wellfounded.acc (?R\<inverse>)" by simp
qed

lemma collect_fields_acc:
  assumes "collect_fields cache stack acc = Some fs"
  shows "\<forall>x\<in>set stack. x \<in> Wellfounded.acc ((parent_rel cache)\<inverse>)"
  using _ assms
proof (rule collect_fields.raw_induct
    [where P = "\<lambda>cache stack _ _. \<forall>x\<in>set stack. x \<in> Wellfounded.acc ((parent_rel cache)\<inverse>)"])
  fix walk :: "type_cache \<Rightarrow> string list \<Rightarrow> string set \<times> field_def list \<Rightarrow> field_def list option"
  fix cache stack acc fs
  let ?A = "Wellfounded.acc ((parent_rel cache)\<inverse>)"
  assume IH: "\<And>cache stack acc fs. walk cache stack acc = Some fs \<Longrightarrow>
      \<forall>x\<in>set stack. x \<in> Wellfounded.acc ((parent_rel cache)\<inverse>)"
    and run: "(case stack of [] \<Rightarrow> Some (snd acc)
      | n # ns \<Rightarrow> (case hm_get cache n of None \<Rightarrow> walk cache ns acc
        | Some d \<Rightarrow> walk cache (nt_parents d @ ns) (fold add_field (nt_fields d) acc))) = Some fs"
  show "\<forall>x\<in>set stack. x \<in> ?A"
  proof (cases stack)
    case (Cons n ns)
    show ?thesis
    proof (cases "hm_get cache n")
      case None
      then have "\<forall>x\<in>set ns. x \<in> ?A" using run Cons IH [of cache ns acc fs] by simp
      moreover have "n \<in> ?A" by (rule accI) (use None in \<open>simp add: parent_rel_iff\<close>)
      ultimately show ?thesis using Cons by simp
    next
      case (Some d)
      then have all: "\<forall>x\<in>set (nt_parents d @ ns). x \<in> ?A"
        using run Cons IH [of cache "nt_parents d @ ns" "fold add_field (nt_fields d) acc" fs] by simp
      have "n \<in> ?A" by (rule accI) (use all Some in \<open>auto simp: parent_rel_iff\<close>)
      with all Cons show ?thesis by simp
    qed
  qed simp
qed

text \<open>The names the walk visits from a name, in its order.\<close>

lemma lineage_exists:
  assumes "acyclic_above cache n"
  shows "\<exists>ds. (\<forall>ns acc. collect_fields cache (n # ns) acc =
      collect_fields cache ns (fold add_field (concat (map nt_fields ds)) acc)) \<and>
    set ds = {d. \<exists>x. (n, x) \<in> (parent_rel cache)\<^sup>* \<and> hm_get cache x = Some d} \<and>
    (\<forall>d. hm_get cache n = Some d \<longrightarrow> ds \<noteq> [] \<and> hd ds = d)"
proof -
  have "n \<in> Wellfounded.acc ((parent_rel cache)\<inverse>)" using assms by (simp add: acyclic_above_acc)
  then show ?thesis
  proof (induction rule: acc_induct_rule)
    case (1 n)
    let ?R = "parent_rel cache"
    have step: "(n, x) \<in> ?R\<^sup>* \<longleftrightarrow> x = n \<or> (\<exists>p. (n, p) \<in> ?R \<and> (p, x) \<in> ?R\<^sup>*)" for x
      by (auto elim: converse_rtranclE intro: converse_rtrancl_into_rtrancl)
    show ?case
    proof (cases "hm_get cache n")
      case None
      then have "(n, x) \<in> ?R\<^sup>* \<longleftrightarrow> x = n" for x using step [of x] by (simp add: parent_rel_iff)
      with None show ?thesis by (intro exI [of _ "[]"]) auto
    next
      case (Some d)
      have "\<exists>ds. (\<forall>ns acc. collect_fields cache (ps @ ns) acc =
          collect_fields cache ns (fold add_field (concat (map nt_fields ds)) acc)) \<and>
        set ds = {d. \<exists>p\<in>set ps. \<exists>x. (p, x) \<in> ?R\<^sup>* \<and> hm_get cache x = Some d}"
        if "set ps \<subseteq> set (nt_parents d)" for ps
        using that
      proof (induction ps)
        case Nil
        show ?case by (intro exI [of _ "[]"]) simp
      next
        case (Cons p ps)
        then obtain ds2 where ds2: "\<And>ns acc. collect_fields cache (ps @ ns) acc =
            collect_fields cache ns (fold add_field (concat (map nt_fields ds2)) acc)"
          "set ds2 = {d. \<exists>p\<in>set ps. \<exists>x. (p, x) \<in> ?R\<^sup>* \<and> hm_get cache x = Some d}" by auto
        have "(p, n) \<in> ?R\<inverse>" using Cons.prems Some by (auto simp: parent_rel_iff)
        from 1(2) [OF this] obtain ds1 where ds1: "\<And>ns acc. collect_fields cache (p # ns) acc =
            collect_fields cache ns (fold add_field (concat (map nt_fields ds1)) acc)"
          "set ds1 = {d. \<exists>x. (p, x) \<in> ?R\<^sup>* \<and> hm_get cache x = Some d}" by blast
        show ?case
          using ds1 ds2 by (intro exI [of _ "ds1 @ ds2"]) (auto simp del: collect_fields_Cons)
      qed
      then obtain ds where ds: "\<And>ns acc. collect_fields cache (nt_parents d @ ns) acc =
          collect_fields cache ns (fold add_field (concat (map nt_fields ds)) acc)"
        "set ds = {d'. \<exists>p\<in>set (nt_parents d). \<exists>x. (p, x) \<in> ?R\<^sup>* \<and> hm_get cache x = Some d'}" by blast
      show ?thesis
      proof (intro exI [of _ "d # ds"] conjI allI)
        show "set (d # ds) = {d. \<exists>x. (n, x) \<in> ?R\<^sup>* \<and> hm_get cache x = Some d}"
          using Some by (auto simp: ds(2) step parent_rel_iff)
      qed (use Some ds(1) in auto)
    qed
  qed
qed

lemma add_field_pair:
  "add_field f (seen, out) =
    (if fd_name f \<in> seen then (seen, out) else (insert (fd_name f) seen, out @ [f]))"
  by (simp add: add_field_def)

lemma add_field_fold:
  assumes "seen = fd_name ` set out" and "distinct (map fd_name out)"
  shows "fst (fold add_field fs (seen, out)) = fd_name ` set (snd (fold add_field fs (seen, out))) \<and>
    distinct (map fd_name (snd (fold add_field fs (seen, out)))) \<and>
    fd_name ` set (snd (fold add_field fs (seen, out))) = fd_name ` set out \<union> fd_name ` set fs \<and>
    set (snd (fold add_field fs (seen, out))) \<subseteq> set out \<union> set fs \<and>
    (\<exists>more. snd (fold add_field fs (seen, out)) = out @ more)"
  using assms
proof (induction fs arbitrary: seen out)
  case (Cons f fs)
  show ?case
  proof (cases "fd_name f \<in> seen")
    case True
    with Cons.IH [OF Cons.prems] Cons.prems show ?thesis by (auto simp: add_field_pair)
  next
    case False
    let ?out = "out @ [f]" and ?seen = "insert (fd_name f) seen"
    have "?seen = fd_name ` set ?out" "distinct (map fd_name ?out)" using Cons.prems False by auto
    from Cons.IH [OF this] False Cons.prems show ?thesis by (auto simp: add_field_pair)
  qed
qed auto

lemma add_field_own:
  assumes "distinct (map fd_name fs)"
  shows "snd (fold add_field (fs @ gs) ({}, [])) = fs @ drop (length fs) (snd (fold add_field (fs @ gs) ({}, [])))"
proof -
  have own: "fold add_field fs (fd_name ` set out, out) = (fd_name ` set (out @ fs), out @ fs)"
    if "distinct (map fd_name (out @ fs))" for out fs
    using that
  proof (induction fs arbitrary: out)
    case (Cons f fs)
    then have "fold add_field fs (fd_name ` set (out @ [f]), out @ [f]) =
        (fd_name ` set ((out @ [f]) @ fs), (out @ [f]) @ fs)" by (intro Cons.IH) auto
    with Cons.prems show ?case by (simp add: add_field_pair image_Un)
  qed simp
  from own [of "[]" fs] assms have "fold add_field fs ({}, []) = (fd_name ` set fs, fs)" by simp
  moreover obtain more where "snd (fold add_field gs (fd_name ` set fs, fs)) = fs @ more"
    using add_field_fold [of "fd_name ` set fs" fs gs] assms by blast
  ultimately show ?thesis by simp
qed

lemma resolved_fields_ends: "resolved_fields cache n \<noteq> None \<longleftrightarrow> acyclic_above cache n"
proof
  assume "resolved_fields cache n \<noteq> None"
  then obtain fs where "collect_fields cache [n] ({}, []) = Some fs" by (auto simp: resolved_fields_def)
  from collect_fields_acc [OF this] show "acyclic_above cache n" by (simp add: acyclic_above_acc)
next
  assume "acyclic_above cache n"
  from lineage_exists [OF this] obtain ds :: "node_type_def list" where
    "\<And>ns acc. collect_fields cache (n # ns) acc =
      collect_fields cache ns (fold add_field (concat (map nt_fields ds)) acc)" by metis
  then show "resolved_fields cache n \<noteq> None" by (simp add: resolved_fields_def del: collect_fields_Cons)
qed

lemma resolved_fields_spec:
  assumes "acyclic_above cache n"
  shows "\<exists>fs. resolved_fields cache n = Some fs \<and> distinct (map fd_name fs) \<and>
    (\<forall>f\<in>set fs. \<exists>x d. (n, x) \<in> (parent_rel cache)\<^sup>* \<and> hm_get cache x = Some d \<and> f \<in> set (nt_fields d)) \<and>
    (\<forall>x d f. (n, x) \<in> (parent_rel cache)\<^sup>* \<longrightarrow> hm_get cache x = Some d \<longrightarrow> f \<in> set (nt_fields d) \<longrightarrow>
      fd_name f \<in> fd_name ` set fs) \<and>
    (\<forall>d. hm_get cache n = Some d \<longrightarrow> distinct (map fd_name (nt_fields d)) \<longrightarrow>
      (\<exists>inherited. fs = nt_fields d @ inherited))"
proof -
  obtain ds where ds: "\<And>ns acc. collect_fields cache (n # ns) acc =
      collect_fields cache ns (fold add_field (concat (map nt_fields ds)) acc)"
    "set ds = {d. \<exists>x. (n, x) \<in> (parent_rel cache)\<^sup>* \<and> hm_get cache x = Some d}"
    "\<And>d. hm_get cache n = Some d \<Longrightarrow> ds \<noteq> [] \<and> hd ds = d"
    using lineage_exists [OF assms] by blast
  let ?all = "concat (map nt_fields ds)"
  let ?fs = "snd (fold add_field ?all ({}, []))"
  have fs: "resolved_fields cache n = Some ?fs"
    using ds(1) [of "[]" "({}, [])"] by (simp add: resolved_fields_def del: collect_fields_Cons)
  have spec: "distinct (map fd_name ?fs)" "fd_name ` set ?fs = fd_name ` set ?all" "set ?fs \<subseteq> set ?all"
    using add_field_fold [of "{}" "[]" ?all] by simp_all
  have "\<exists>inherited. ?fs = nt_fields d @ inherited"
    if own: "hm_get cache n = Some d" "distinct (map fd_name (nt_fields d))" for d
  proof -
    obtain rest where "ds = d # rest" using ds(3) [OF own(1)] by (cases ds) auto
    then have "?all = nt_fields d @ concat (map nt_fields rest)" by simp
    then show ?thesis using add_field_own [OF own(2), of "concat (map nt_fields rest)"] by metis
  qed
  moreover have "\<exists>x d. (n, x) \<in> (parent_rel cache)\<^sup>* \<and> hm_get cache x = Some d \<and> f \<in> set (nt_fields d)"
    if "f \<in> set ?fs" for f
    using that spec(3) ds(2) by fastforce
  moreover have "fd_name f \<in> fd_name ` set ?fs"
    if "(n, x) \<in> (parent_rel cache)\<^sup>*" "hm_get cache x = Some d" "f \<in> set (nt_fields d)" for x d f
    unfolding spec(2) using that ds(2) by fastforce
  ultimately show ?thesis using fs spec(1) by blast
qed


section \<open>Validation\<close>

lemma field_errors_Nil:
  "field_errors props fs = [] \<longleftrightarrow>
    (\<forall>f\<in>set fs. case hm_get props (fd_name f) of None \<Rightarrow> \<not> fd_required f
      | Some v \<Rightarrow> field_matches (fd_kind f) v)"
  by (induction fs) (auto split: option.splits)

end
