(* ===== verification/Schema_Claims.thy ===== *)
theory Schema_Claims
  imports Demo Reachability Type_Hierarchy
begin

text \<open>
  What the registries guarantee: the type hierarchy and the questions asked of it, the validation of
  properties and of cardinalities.
\<close>

section \<open>Inputs of the witnesses\<close>

definition demo_type :: "string \<Rightarrow> string list \<Rightarrow> node_type_def" where
  "demo_type n ps =
    \<lparr>nt_name = n, nt_fields = [field_required ''name'' KText, field_optional n KInt],
     nt_vector_space = None, nt_parents = ps\<rparr>"

definition demo_cache :: type_cache where
  "demo_cache = [(''A'', demo_type ''A'' []), (''B'', demo_type ''B'' [''A''])]"

definition demo_codec :: schema_codec where
  "demo_codec =
    \<lparr>node_to_json = \<lambda>w. Inr (concat (map fd_name (ns_fields w))), node_from_json = \<lambda>_. None,
     fields_from_json = \<lambda>_. None, edge_to_json = \<lambda>w. Inr (concat (map fd_name (es_fields w))),
     edge_from_json = \<lambda>_. None\<rparr>"

definition demo_registry :: "ref_db node_registry" where
  "demo_registry = \<lparr>nr_store = demo_store, nr_cache = demo_cache\<rparr>"

lemma hm_get_single: "hm_get [(k, v)] k' = (if k' = k then Some v else None)"
  by (simp add: hm_get_def)

lemma demo_cache_get: "hm_get demo_cache n =
    (if n = ''A'' then Some (demo_type ''A'' []) else if n = ''B'' then Some (demo_type ''B'' [''A'']) else None)"
  by (simp add: demo_cache_def hm_get_def)

lemma demo_cache_ok: "hierarchy_ok demo_cache"
proof -
  have "parent_rel demo_cache = {(''B'', ''A'')}"
    by (auto simp: parent_rel_iff demo_cache_get demo_type_def split: if_splits)
  then show ?thesis unfolding hierarchy_ok_def by (simp only: acyclic_insert) (simp add: acyclic_def)
qed


section \<open>The type hierarchy\<close>

text \<open>C30. Registering a type keeps the hierarchy acyclic, and refuses a definition exactly when it
  would close a cycle, the earlier definition of the name being replaced.\<close>

theorem register_keeps_acyclic:
  assumes "hierarchy_ok (nr_cache R)"
  shows "hierarchy_ok (nr_cache (snd (register_type E X now wall d R))) \<and>
    (check_no_cycle (nt_name d) (nt_parents d) (nr_cache R) = Inr () \<longleftrightarrow>
      hierarchy_ok (hm_insert (nt_name d) d (nr_cache R)))"
proof
  show "hierarchy_ok (nr_cache (snd (register_type E X now wall d R)))"
    using register_type_hierarchy [OF assms] by (metis surjective_pairing)
  have "d\<lparr>nt_parents := nt_parents d\<rparr> = d" by simp
  then show "check_no_cycle (nt_name d) (nt_parents d) (nr_cache R) = Inr () \<longleftrightarrow>
      hierarchy_ok (hm_insert (nt_name d) d (nr_cache R))"
    using check_no_cycle_iff [OF assms] by metis
qed

theorem register_keeps_acyclic_witness:
  "hierarchy_ok (nr_cache (snd (register_type demo_env demo_codec (Timestamp 9) (Timestamp 100)
      (demo_type ''A'' [''B'']) demo_registry))) \<and>
    (check_no_cycle ''A'' [''B''] demo_cache = Inr () \<longleftrightarrow>
      hierarchy_ok (hm_insert ''A'' (demo_type ''A'' [''B'']) demo_cache))"
  using register_keeps_acyclic [of demo_registry demo_env demo_codec "Timestamp 9" "Timestamp 100"
      "demo_type ''A'' [''B'']"] demo_cache_ok
  by (simp add: demo_registry_def demo_type_def)

text \<open>C31. Two clients break what one keeps: the cycle check reads the cache under a lock that is
  given back before the insertion. Two definitions, each the parent of the other, can both pass the
  check and both be inserted; then collecting the fields of either name does not end.\<close>

theorem registration_race:
  fixes d e :: node_type_def
  assumes "nt_name d = a" and "nt_parents d = [b]" and "nt_name e = b" and "nt_parents e = [a]" and "a \<noteq> b"
  shows "\<exists>cache. registry_step\<^sup>*\<^sup>* ([], []) (cache, []) \<and> \<not> hierarchy_ok cache \<and> resolved_fields cache a = None"
proof -
  let ?c1 = "hm_insert (nt_name d) d []"
  let ?c2 = "hm_insert (nt_name e) e ?c1"
  have free: "check_no_cycle x [y] [] = Inr ()" if "x \<noteq> y" for x y
    using that by (simp add: check_no_cycle_def dfs_cycle_check.simps)
  have "d \<noteq> e" using assms by auto
  have "registry_step ([], []) ([], [d])" using free assms by (auto intro: registry_checks)
  also have "registry_step\<^sup>*\<^sup>* ([], [d]) ([], [e, d])"
    using free [of b a] assms by (auto intro!: r_into_rtranclp registry_checks)
  also have "registry_step\<^sup>*\<^sup>* ([], [e, d]) (?c1, [e])"
    using registry_inserts [of d "[e, d]" "[]"] \<open>d \<noteq> e\<close> by auto
  also have "registry_step\<^sup>*\<^sup>* (?c1, [e]) (?c2, [])"
    using registry_inserts [of e "[e]" ?c1] by auto
  finally have run: "registry_step\<^sup>*\<^sup>* ([], []) (?c2, [])" by simp
  have "(a, b) \<in> parent_rel ?c2" "(b, a) \<in> parent_rel ?c2"
    using assms by (auto simp: parent_rel_iff hm_get_insert)
  then have loop: "(a, a) \<in> (parent_rel ?c2)\<^sup>+" by auto
  then have "resolved_fields ?c2 a = None"
    using resolved_fields_ends [of ?c2 a] by (auto simp: acyclic_above_def)
  moreover have "\<not> hierarchy_ok ?c2" using loop by (auto simp: hierarchy_ok_def acyclic_def)
  ultimately show ?thesis using run by blast
qed

theorem registration_race_witness:
  "\<exists>cache. registry_step\<^sup>*\<^sup>* ([], []) (cache, []) \<and> \<not> hierarchy_ok cache \<and> resolved_fields cache ''A'' = None"
  by (rule registration_race [of "demo_type ''A'' [''B'']" _ "''B''" "demo_type ''B'' [''A'']"])
    (simp_all add: demo_type_def)

text \<open>C32. The subtype test is reachability: it returns, cycles or not, and holds exactly when the
  second name is reached from the first over declared parents.\<close>

theorem subtype_is_reachability:
  "is_subtype_of cache n ancestor \<longleftrightarrow> (n, ancestor) \<in> (parent_rel cache)\<^sup>*"
  by (rule is_subtype_iff)

text \<open>C33. Collecting the fields of a type ends exactly when no cycle lies above it. Then the names
  are distinct, every field is declared by the type or an ancestor, every declared name occurs, and
  the type's own fields come first, so that they override.\<close>

theorem inherited_fields:
  "case resolved_fields cache n of
     None \<Rightarrow> \<not> acyclic_above cache n
   | Some fs \<Rightarrow> acyclic_above cache n \<and> distinct (map fd_name fs) \<and>
      set fs \<subseteq> {f. \<exists>x d. (n, x) \<in> (parent_rel cache)\<^sup>* \<and> hm_get cache x = Some d \<and> f \<in> set (nt_fields d)} \<and>
      fd_name ` set fs = fd_name ` {f. \<exists>x d. (n, x) \<in> (parent_rel cache)\<^sup>* \<and> hm_get cache x = Some d \<and>
        f \<in> set (nt_fields d)} \<and>
      (\<forall>d. hm_get cache n = Some d \<longrightarrow> distinct (map fd_name (nt_fields d)) \<longrightarrow>
        (\<exists>inherited. fs = nt_fields d @ inherited))"
proof (cases "acyclic_above cache n")
  case True
  then obtain fs where fs: "resolved_fields cache n = Some fs" "distinct (map fd_name fs)"
    "\<forall>f\<in>set fs. \<exists>x d. (n, x) \<in> (parent_rel cache)\<^sup>* \<and> hm_get cache x = Some d \<and> f \<in> set (nt_fields d)"
    "\<forall>x d f. (n, x) \<in> (parent_rel cache)\<^sup>* \<longrightarrow> hm_get cache x = Some d \<longrightarrow> f \<in> set (nt_fields d) \<longrightarrow>
      fd_name f \<in> fd_name ` set fs"
    "\<forall>d. hm_get cache n = Some d \<longrightarrow> distinct (map fd_name (nt_fields d)) \<longrightarrow>
      (\<exists>inherited. fs = nt_fields d @ inherited)"
    using resolved_fields_spec by blast
  let ?F = "{f. \<exists>x d. (n, x) \<in> (parent_rel cache)\<^sup>* \<and> hm_get cache x = Some d \<and> f \<in> set (nt_fields d)}"
  have "set fs \<subseteq> ?F" using fs(3) by blast
  moreover have "fd_name ` set fs = fd_name ` ?F" using calculation fs(4) by blast
  ultimately show ?thesis using True fs(1,2,5) by simp
next
  case False
  then show ?thesis using resolved_fields_ends [of cache n] by (auto split: option.split)
qed

theorem inherited_fields_witness:
  "\<exists>fs inherited. resolved_fields demo_cache ''B'' = Some fs \<and>
    fs = nt_fields (demo_type ''B'' [''A'']) @ inherited"
  using inherited_fields [of demo_cache "''B''"] hierarchy_ok_above [OF demo_cache_ok]
  by (auto simp: demo_cache_get demo_type_def field_required_def field_optional_def split: option.splits)


section \<open>Validation\<close>

text \<open>C34. Validation accepts a node exactly when its type is known, its fields can be collected, and
  each of them is well typed: present if it is required, of the declared kind if it is present.\<close>

theorem validation_exact:
  "validate_properties R n props = Some (Inr ()) \<longleftrightarrow>
    get_type R n \<noteq> None \<and> (\<exists>fs. resolved_fields (nr_cache R) n = Some fs \<and>
      (\<forall>f\<in>set fs. case hm_get props (fd_name f) of None \<Rightarrow> \<not> fd_required f
        | Some v \<Rightarrow> field_matches (fd_kind f) v))"
  unfolding field_errors_Nil [symmetric]
  by (auto simp: validate_properties_def ok_if_none_def)

theorem validation_exact_witness:
  "validate_properties demo_registry ''A'' [(''name'', VText ''x'')] = Some (Inr ()) \<and>
    validate_properties demo_registry ''A'' [(''A'', VInt 3)] \<noteq> Some (Inr ())"
proof -
  have "resolved_fields demo_cache ''A'' = Some [field_required ''name'' KText, field_optional ''A'' KInt]"
    by (simp add: resolved_fields_def demo_cache_get demo_type_def add_field_pair field_required_def
        field_optional_def)
  then show ?thesis
    unfolding validation_exact
    by (simp add: demo_registry_def get_type_def demo_cache_get hm_get_single field_required_def
        field_optional_def)
qed

definition latest_snapshot :: "('d, 's) store_scheme \<Rightarrow> snapshot" where
  "latest_snapshot st = \<lparr>sn_ts = read_ts st, sn_vt = None, sn_readable = None\<rparr>"

lemma latest_snapshot_read: "read_at_of (latest_snapshot st) = latest_of st"
  by (simp add: read_at_of_def latest_snapshot_def latest_of_def read_at_latest_def)

lemma list_ex_relation: "list_ex is_relation ts \<longleftrightarrow> (\<exists>a b p e r. Relation a p b e r \<in> set ts)"
proof
  assume "list_ex is_relation ts"
  then obtain t where t: "t \<in> set ts" "is_relation t" by (auto simp: list_ex_iff)
  from t(2) obtain a p b e r where "t = Relation a p b e r" by (cases t) (simp_all add: is_relation_def)
  with t(1) show "\<exists>a b p e r. Relation a p b e r \<in> set ts" by blast
qed (force simp: list_ex_iff is_relation_def)

context kv_engine
begin

lemma out_edges_scan:
  assumes "store_ok E st" "values_ok E st"
  shows "list_ex is_relation (unwrap_or_default (scan_by_subject_predicate E now st s pred)) \<longleftrightarrow>
    s \<in> Domain (edges_read E now st (latest_snapshot st) pred)"
proof -
  obtain ts where ts: "evaluate E now st (latest_snapshot st)
      \<lparr>pat_subject = Some s, pat_predicate = Some pred, pat_object = None\<rparr> = Inr ts"
    and rel: "\<And>a b. (\<exists>p e r. Relation a p b e r \<in> set ts) \<longleftrightarrow>
      slot_is (Some s) a \<and> slot_is None b \<and> (a, b) \<in> edges_read E now st (latest_snapshot st) pred"
    using relations_read [OF assms] by blast
  have "scan_by_subject_predicate E now st s pred = Inr ts"
    using ts by (simp add: subject_predicate_evaluate [symmetric] sn_scan_by_subject_predicate_def
        scan_by_subject_predicate_def latest_snapshot_read)
  then show ?thesis using rel by (auto simp: list_ex_relation unwrap_or_default_def slot_is_def Domain_iff)
qed

lemma in_edges_scan:
  assumes "store_ok E st" "values_ok E st"
  shows "list_ex is_relation (unwrap_or_default (scan_by_predicate_object E now st pred ob)) \<longleftrightarrow>
    ob \<in> Range (edges_read E now st (latest_snapshot st) pred)"
proof -
  obtain ts where ts: "evaluate E now st (latest_snapshot st)
      \<lparr>pat_subject = None, pat_predicate = Some pred, pat_object = Some ob\<rparr> = Inr ts"
    and rel: "\<And>a b. (\<exists>p e r. Relation a p b e r \<in> set ts) \<longleftrightarrow>
      slot_is None a \<and> slot_is (Some ob) b \<and> (a, b) \<in> edges_read E now st (latest_snapshot st) pred"
    using relations_read [OF assms] by blast
  have "scan_by_predicate_object E now st pred ob = Inr ts"
    using ts by (simp add: evaluate_def choose_index_cases sn_scan_by_predicate_object_def
        scan_by_predicate_object_def latest_snapshot_read)
  then show ?thesis using rel by (auto simp: list_ex_relation unwrap_or_default_def slot_is_def Range_iff)
qed

end

text \<open>C35. The cardinality check is exact on a sound store: it accepts a new edge exactly when the
  subject has no edge of the predicate yet, if subjects may have one only, and the object none, if
  objects may. What the store holds is what the latest snapshot reads in the default union.\<close>

theorem cardinality_exact:
  assumes "kv_engine E" and "store_ok E st" and "values_ok E st" and "get_edge_type R pred = Some d"
  shows "validate_cardinality E now R pred s ob st = Inr () \<longleftrightarrow>
    \<not> (et_cardinality d \<in> {OneToMany, OneToOne} \<and> s \<in> Domain (edges_read E now st (latest_snapshot st) pred)) \<and>
    \<not> (et_cardinality d \<in> {ManyToOne, OneToOne} \<and> ob \<in> Range (edges_read E now st (latest_snapshot st) pred))"
  unfolding validate_cardinality_def assms(4) option.case Let_def
    kv_engine.out_edges_scan [OF assms(1-3)] kv_engine.in_edges_scan [OF assms(1-3)]
  by (cases "et_cardinality d") simp_all

definition demo_edge_registry :: "ref_db edge_registry" where
  "demo_edge_registry = \<lparr>er_store = demo_after, er_cache =
    [(''p'', (edge_type_new ''p'' None None [])\<lparr>et_cardinality := OneToOne\<rparr>)]\<rparr>"

theorem cardinality_exact_witness:
  "validate_cardinality demo_env (Timestamp 9) demo_edge_registry ''p'' (NodeId 1) (NodeId 2) demo_after = Inr () \<longleftrightarrow>
    NodeId 1 \<notin> Domain (edges_read demo_env (Timestamp 9) demo_after (latest_snapshot demo_after) ''p'') \<and>
    NodeId 2 \<notin> Range (edges_read demo_env (Timestamp 9) demo_after (latest_snapshot demo_after) ''p'')"
proof -
  have "get_edge_type demo_edge_registry ''p'' = Some ((edge_type_new ''p'' None None [])\<lparr>et_cardinality := OneToOne\<rparr>)"
    by (simp add: get_edge_type_def demo_edge_registry_def hm_get_single)
  from cardinality_exact [OF demo_engine demo_after_ok this] show ?thesis by simp
qed

end
