(* ===== verification/Graph_Ops.thy ===== *)
theory Graph_Ops
  imports Changes Snapshot_Reads
begin

text \<open>
  \<open>polargraph-storage/src/graphs.rs\<close>: named graphs. Creating one, its metadata in the system graph, its
  live quads, drop, copy and move. Several transactions commit in turn and each reads the clock, so
  an operation runs on the store with a clock: the \<open>n\<close>-th reading is \<open>ck_now n\<close>.
\<close>


section \<open>A store with a clock\<close>

record 'd clocked =
  ck_store :: "'d store"
  ck_now :: "nat \<Rightarrow> timestamp"
  ck_ticks :: nat

definition clock_now :: "('d clocked, timestamp) op" where
  "clock_now c = (Inr (ck_now c (ck_ticks c)), c\<lparr>ck_ticks := Suc (ck_ticks c)\<rparr>)"

definition on_store :: "('d store, 'a) op \<Rightarrow> ('d clocked, 'a) op" where
  "on_store m c = (case m (ck_store c) of (r, st) \<Rightarrow> (r, c\<lparr>ck_store := st\<rparr>))"

definition read_store :: "('d store \<Rightarrow> 'a) \<Rightarrow> ('d clocked, 'a) op" where
  "read_store f c = (Inr (f (ck_store c)), c)"

definition commit_tx :: "('d, 'm) env_scheme \<Rightarrow> transaction \<Rightarrow> ('d clocked, timestamp) op" where
  "commit_tx E tx = sbind clock_now (\<lambda>wall. on_store (commit E wall tx))"

text \<open>\<open>self.snapshot(Timestamp(self.oracle_ts()))\<close>: its valid time is the clock of the moment.\<close>

definition snapshot_now :: "('d clocked, snapshot) op" where
  "snapshot_now = sbind clock_now (\<lambda>now. read_store (\<lambda>st. snapshot_new now (read_ts st)))"

definition on_snapshot :: "('d store \<Rightarrow> snapshot \<Rightarrow> 'a res) \<Rightarrow> ('d clocked, 'a) op" where
  "on_snapshot f = sbind snapshot_now (\<lambda>sn. on_store (slift (\<lambda>st. f st sn)))"

text \<open>\<open>slice::chunks\<close>.\<close>

function chunks :: "nat \<Rightarrow> 'a list \<Rightarrow> 'a list list" where
  "chunks n xs = (if xs = [] \<or> n = 0 then [] else take n xs # chunks n (drop n xs))"
  by auto
termination by (relation "measure (\<lambda>(_, xs). length xs)") auto

declare chunks.simps [simp del]

lemma concat_chunks: "0 < n \<Longrightarrow> concat (chunks n xs) = xs"
  by (induction n xs rule: chunks.induct) (subst chunks.simps, auto)

lemma chunks_empty: "0 < n \<Longrightarrow> chunks n xs = [] \<longleftrightarrow> xs = []"
  by (subst chunks.simps) auto


section \<open>Graphs and their metadata\<close>

definition SYSTEM_GRAPH_IRI :: string where "SYSTEM_GRAPH_IRI = ''urn:pg:graph:meta''"
definition COPY_IN_PROGRESS_PRED :: string where "COPY_IN_PROGRESS_PRED = ''urn:pg:copyInProgress''"
definition GRAPH_OP_CHUNK :: nat where "GRAPH_OP_CHUNK = 50000"

record graph_stats =
  live_quads_n :: u64
  last_write_tt :: u64

fun close_at :: "timestamp \<Rightarrow> triple \<Rightarrow> triple" where
  "close_at now (Relation s p ob e t) = Relation s p ob e (t\<lparr>vt_end := max now (vt_start t)\<rparr>)"
| "close_at now (Property s p v t) = Property s p v (t\<lparr>vt_end := max now (vt_start t)\<rparr>)"
| "close_at now other = other"

definition system_graph :: "('d, 'm) env_scheme \<Rightarrow> ('d clocked, graph_id) op" where
  "system_graph E = on_store (intern_graph E SYSTEM_GRAPH_IRI)"

definition not_named :: "graph_id \<Rightarrow> string \<Rightarrow> storage_error" where
  "not_named g why = ValidationError (''g'' @ nat_str (unat (graph_num g)) @ '' is not a named graph '' @ why)"

definition graph_node_or_err :: "('d, 'm) env_scheme \<Rightarrow> graph_id \<Rightarrow> ('d clocked, node_id) op" where
  "graph_node_or_err E g = on_store (slift (\<lambda>st. ok_or (graph_node E st g)
    (not_named g ''(the default graph has no metadata)'')))"

text \<open>One transaction: what \<open>fill\<close> buffers, committed.\<close>

definition in_tx ::
  "('d, 'm) env_scheme \<Rightarrow> (transaction \<Rightarrow> ('d clocked, transaction) op) \<Rightarrow> ('d clocked, unit) op" where
  "in_tx E fill =
    sbind (read_store begin_tx) (\<lambda>tx. sbind (fill tx) (\<lambda>tx'. sbind (commit_tx E tx') (\<lambda>_. sret ())))"

definition insert_metadata ::
  "node_id \<Rightarrow> graph_id \<Rightarrow> string \<times> value \<Rightarrow> transaction \<Rightarrow> ('d clocked, transaction) op" where
  "insert_metadata node meta = (\<lambda>(pred, v) tx.
    sbind clock_now (\<lambda>from. sbind clock_now (\<lambda>now.
    sret (tx_insert_in (Property node (Predicate pred) v (assert_now now from)) meta Replace tx))))"

definition set_graph_metadata ::
  "('d, 'm) env_scheme \<Rightarrow> graph_id \<Rightarrow> (string \<times> value) list \<Rightarrow> ('d clocked, unit) op" where
  "set_graph_metadata E g metadata =
    sbind (graph_node_or_err E g) (\<lambda>node.
    sbind (system_graph E) (\<lambda>meta.
    in_tx E (smapM (insert_metadata node meta) metadata)))"

definition create_graph_by ::
  "('d, 'm) env_scheme \<Rightarrow> string \<Rightarrow> (string \<times> value) list \<Rightarrow> string \<Rightarrow> ('d clocked, graph_id) op" where
  "create_graph_by E iri metadata author =
    sbind (read_store (\<lambda>st. graph_id_of st iri = None)) (\<lambda>is_new.
    sbind (on_store (intern_graph E iri)) (\<lambda>g.
    sbind (if is_new
      then in_tx E (\<lambda>tx. sret (record_graph_op (Created g) (set_author author tx))) else sret ()) (\<lambda>_.
    sbind (if metadata \<noteq> [] then set_graph_metadata E g metadata else sret ()) (\<lambda>_.
    sret g))))"

definition create_graph ::
  "('d, 'm) env_scheme \<Rightarrow> string \<Rightarrow> (string \<times> value) list \<Rightarrow> ('d clocked, graph_id) op" where
  "create_graph E iri metadata = create_graph_by E iri metadata []"

definition graph_metadata ::
  "('d, 'm) env_scheme \<Rightarrow> graph_id \<Rightarrow> ('d clocked, (string \<times> value) list) op" where
  "graph_metadata E g =
    sbind (read_store (\<lambda>st. (graph_node E st g, graph_id_of st SYSTEM_GRAPH_IRI))) (\<lambda>x.
    case x of
      (Some node, Some meta) \<Rightarrow>
        sbind (on_snapshot (\<lambda>st sn. sn_scan_by_subject_in_graph E END_OF_TIME st sn meta node)) (\<lambda>ts.
        sret (sort_key fst (List.map_filter (\<lambda>t. case t of
          Property _ p v _ \<Rightarrow> Some (pred_str p, v) | _ \<Rightarrow> None) ts)))
    | _ \<Rightarrow> sret [])"

text \<open>A snapshot fixes its valid time, so the clock argument of its scans (here the end of time) is not read.\<close>

definition live_quads :: "('d, 'm) env_scheme \<Rightarrow> graph_id \<Rightarrow> ('d clocked, triple list) op" where
  "live_quads E g = on_snapshot (\<lambda>st sn. sn_scan_graph E END_OF_TIME st sn g)"

definition graph_stats_of :: "('d, 'm) env_scheme \<Rightarrow> graph_id \<Rightarrow> ('d clocked, graph_stats) op" where
  "graph_stats_of E g = sbind (live_quads E g) (\<lambda>live.
    sret \<lparr>live_quads_n = of_nat (length live),
      last_write_tt = (if live = [] then 0
        else ts_us (fold (\<lambda>t m. max m (tt (triple_temporal t))) (tl live) (tt (triple_temporal (hd live)))))\<rparr>)"


section \<open>Drop, copy, move\<close>

text \<open>
  The loop over the chunks: each is one transaction with the writes \<open>w\<close> of its quads, the last one
  with the operation; without a chunk there is one transaction with the operation alone.
\<close>

fun write_chunks ::
  "('d, 'm) env_scheme \<Rightarrow> string \<Rightarrow> graph_id \<Rightarrow> graph_op \<Rightarrow> (triple \<Rightarrow> triple) \<Rightarrow> triple list list \<Rightarrow>
    ('d clocked, unit) op" where
  "write_chunks E author g gop w [] = sret ()"
| "write_chunks E author g gop w (chunk # rest) =
    sbind (in_tx E (\<lambda>tx.
      (let tx1 = fold (\<lambda>t. tx_insert_in (w t) g Add) chunk (set_author author tx)
       in sret (if rest = [] then record_graph_op gop tx1 else tx1)))) (\<lambda>_.
    write_chunks E author g gop w rest)"

definition write_all ::
  "('d, 'm) env_scheme \<Rightarrow> string \<Rightarrow> graph_id \<Rightarrow> graph_op \<Rightarrow> (triple \<Rightarrow> triple) \<Rightarrow> triple list \<Rightarrow>
    ('d clocked, unit) op" where
  "write_all E author g gop w live =
    (let cs = chunks GRAPH_OP_CHUNK live in
     sbind (write_chunks E author g gop w cs) (\<lambda>_.
     if cs = [] then in_tx E (\<lambda>tx. sret (record_graph_op gop (set_author author tx))) else sret ()))"

definition drop_graph_by ::
  "('d, 'm) env_scheme \<Rightarrow> graph_id \<Rightarrow> string \<Rightarrow> ('d clocked, nat) op" where
  "drop_graph_by E g author =
    sbind clock_now (\<lambda>now.
    sbind (live_quads E g) (\<lambda>live.
    sbind (write_all E author g (Dropped g) (close_at now) live) (\<lambda>_.
    sret (length live))))"

definition drop_graph :: "('d, 'm) env_scheme \<Rightarrow> graph_id \<Rightarrow> ('d clocked, nat) op" where
  "drop_graph E g = drop_graph_by E g []"

definition clear_graph_metadata ::
  "('d, 'm) env_scheme \<Rightarrow> graph_id \<Rightarrow> string \<Rightarrow> ('d clocked, unit) op" where
  "clear_graph_metadata E g pred =
    sbind (read_store (\<lambda>st. (graph_node E st g, graph_id_of st SYSTEM_GRAPH_IRI))) (\<lambda>x.
    case x of
      (Some node, Some meta) \<Rightarrow>
        sbind snapshot_now (\<lambda>sn.
        sbind clock_now (\<lambda>now.
        in_tx E (\<lambda>tx.
          sbind (on_store (slift (\<lambda>st. sn_scan_by_subject_in_graph E END_OF_TIME st sn meta node))) (\<lambda>ts.
          sret (fold (\<lambda>t. tx_insert_in (close_at now t) meta Add)
            (filter (\<lambda>t. pred_str (triple_predicate t) = pred) ts) tx)))))
    | _ \<Rightarrow> sret ())"

definition copy_graph_by ::
  "('d, 'm) env_scheme \<Rightarrow> graph_id \<Rightarrow> graph_id \<Rightarrow> bool \<Rightarrow> string \<Rightarrow> ('d clocked, nat) op" where
  "copy_graph_by E src tgt clear_target author =
    (if src = tgt then sret 0
     else
       sbind (if clear_target then drop_graph_by E tgt author else sret 0) (\<lambda>_.
       sbind (live_quads E src) (\<lambda>live.
       (let chunked = length live > GRAPH_OP_CHUNK \<and> tgt \<noteq> DEFAULT_GRAPH in
       sbind (if chunked then set_graph_metadata E tgt [(COPY_IN_PROGRESS_PRED, VBool True)] else sret ()) (\<lambda>_.
       sbind (write_all E author tgt (Copied src tgt) id live) (\<lambda>_.
       sbind (if chunked then clear_graph_metadata E tgt COPY_IN_PROGRESS_PRED else sret ()) (\<lambda>_.
       sret (length live))))))))"

definition copy_graph :: "('d, 'm) env_scheme \<Rightarrow> graph_id \<Rightarrow> graph_id \<Rightarrow> bool \<Rightarrow> ('d clocked, nat) op" where
  "copy_graph E src tgt clear_target = copy_graph_by E src tgt clear_target []"

definition move_graph_by ::
  "('d, 'm) env_scheme \<Rightarrow> graph_id \<Rightarrow> graph_id \<Rightarrow> string \<Rightarrow> ('d clocked, nat) op" where
  "move_graph_by E src tgt author =
    (if src = tgt then sret 0
     else sbind (copy_graph_by E src tgt True author) (\<lambda>n.
       sbind (drop_graph_by E src author) (\<lambda>_. sret n)))"

definition move_graph :: "('d, 'm) env_scheme \<Rightarrow> graph_id \<Rightarrow> graph_id \<Rightarrow> ('d clocked, nat) op" where
  "move_graph E src tgt = move_graph_by E src tgt []"

end
