(* ===== verification/Owl_Rl.thy ===== *)
theory Owl_Rl
  imports Graph_Ops Query_Plan
begin

text \<open>
  \<open>polargraph-storage/src/owl_rl.rs\<close>: OWL 2 RL inference. A fact is a labelled relation; its label is
  the source graph of its premises, or \<open>Cross\<close> when they come from several. The schema is closed up
  front, so a rule is one step from an instance fact. A full run saturates the base facts in memory
  and writes the difference to the inferred graphs; an incremental run (DRed) deletes too much,
  derives again and inserts. Hash sets and maps are lists read as sets, multimaps lists of pairs;
  JSON is a parameter. A full saturation always ends; the loops of an incremental run read the store
  and are partial functions.
\<close>


section \<open>Vocabulary\<close>

definition RDFS_DOMAIN :: string where "RDFS_DOMAIN = ''http://www.w3.org/2000/01/rdf-schema#domain''"
definition RDFS_RANGE :: string where "RDFS_RANGE = ''http://www.w3.org/2000/01/rdf-schema#range''"
definition RDFS_SUBCLASS_OF :: string where
  "RDFS_SUBCLASS_OF = ''http://www.w3.org/2000/01/rdf-schema#subClassOf''"
definition RDFS_SUBPROP_OF :: string where
  "RDFS_SUBPROP_OF = ''http://www.w3.org/2000/01/rdf-schema#subPropertyOf''"
definition OWL_INVERSE_OF :: string where "OWL_INVERSE_OF = ''http://www.w3.org/2002/07/owl#inverseOf''"
definition OWL_SAME_AS :: string where "OWL_SAME_AS = ''http://www.w3.org/2002/07/owl#sameAs''"
definition OWL_SYMMETRIC_PROP :: string where
  "OWL_SYMMETRIC_PROP = ''http://www.w3.org/2002/07/owl#SymmetricProperty''"
definition OWL_TRANSITIVE_PROP :: string where
  "OWL_TRANSITIVE_PROP = ''http://www.w3.org/2002/07/owl#TransitiveProperty''"

definition TBOX_PREDICATES :: "string list" where
  "TBOX_PREDICATES = [RDFS_DOMAIN, RDFS_RANGE, RDFS_SUBCLASS_OF, RDFS_SUBPROP_OF, OWL_INVERSE_OF]"

definition INFERRED_GRAPH_PREFIX :: string where "INFERRED_GRAPH_PREFIX = ''urn:pg:inferred:''"
definition INFERRED_DEFAULT_GRAPH_IRI :: string where "INFERRED_DEFAULT_GRAPH_IRI = ''urn:pg:inferred:default''"
definition INFERRED_CROSS_GRAPH_IRI :: string where "INFERRED_CROSS_GRAPH_IRI = ''urn:pg:inferred:cross''"
definition INFERRED_FROM_PRED :: string where "INFERRED_FROM_PRED = ''urn:pg:inferredFrom''"
definition INFERENCE_AUTHOR :: string where "INFERENCE_AUTHOR = ''urn:pg:inference''"

definition META_INFERENCE_APPLIED :: bytes where "META_INFERENCE_APPLIED = as_bytes ''__inference__/applied_ts''"
definition META_SCHEMA_GRAPHS :: bytes where "META_SCHEMA_GRAPHS = as_bytes ''__inference__/schema_graphs''"
definition META_INFERRED_COUNT :: bytes where "META_INFERRED_COUNT = as_bytes ''__inference__/live_count''"

definition CHUNK :: nat where "CHUNK = 10000"

definition is_inferred_graph_iri :: "string \<Rightarrow> bool" where
  "is_inferred_graph_iri iri = prefix INFERRED_GRAPH_PREFIX iri"

text \<open>serde's form of a list of strings.\<close>

record strings_codec =
  strings_to_json :: "string list \<Rightarrow> string + bytes"
  strings_from_json :: "bytes \<Rightarrow> string list option"


section \<open>Facts\<close>

datatype label = LGraph graph_id | Cross

definition combine :: "label \<Rightarrow> label \<Rightarrow> label" where
  "combine a b = (if a = b then a else Cross)"

datatype owl_fact = OwlFact (of_s: node_id) (of_p: string) (of_o: node_id) (of_label: label)

definition is_schema :: "'m ext_scheme \<Rightarrow> owl_fact \<Rightarrow> bool" where
  "is_schema X f \<longleftrightarrow> of_p f \<in> set TBOX_PREDICATES \<or>
    (of_p f = RDF_TYPE \<and> (of_o f = iri_to_node_id X OWL_SYMMETRIC_PROP \<or>
      of_o f = iri_to_node_id X OWL_TRANSITIVE_PROP))"


section \<open>Inferred graphs\<close>

record inferred_graphs =
  ig_label_of :: "(graph_id \<times> label) list"
  ig_graph_of :: "(label \<times> graph_id) list"
  ig_system :: "graph_id option"
  ig_schema :: "graph_id list option"

definition schema_graphs ::
  "('d, 'm) env_scheme \<Rightarrow> strings_codec \<Rightarrow> ('d, 's) store_scheme \<Rightarrow> string list option res" where
  "schema_graphs E C st =
    rbind (cf_handle E cf_META st) (\<lambda>_.
    rbind (db_get E (st_db st) cf_META META_SCHEMA_GRAPHS) (\<lambda>r.
      Inr (Option.bind r (strings_from_json C))))"

definition graph_label :: "('d, 's) store_scheme \<Rightarrow> string \<Rightarrow> label option" where
  "graph_label st rest =
    (if rest = ''cross'' then Some Cross
     else if rest = ''default'' then Some (LGraph DEFAULT_GRAPH)
     else map_option LGraph (graph_id_of st rest))"

definition load_inferred ::
  "('d, 'm) env_scheme \<Rightarrow> strings_codec \<Rightarrow> ('d, 's) store_scheme \<Rightarrow> inferred_graphs" where
  "load_inferred E C st =
    fold (\<lambda>(g, iri) out.
      case strip_prefix INFERRED_GRAPH_PREFIX iri of
        None \<Rightarrow> out
      | Some rest \<Rightarrow>
          (case graph_label st rest of
             None \<Rightarrow> out
           | Some l \<Rightarrow> out\<lparr>ig_label_of := hm_insert g l (ig_label_of out),
               ig_graph_of := hm_insert l g (ig_graph_of out)\<rparr>))
      (list_graphs st)
      \<lparr>ig_label_of = [], ig_graph_of = [], ig_system = graph_id_of st SYSTEM_GRAPH_IRI,
       ig_schema = (case schema_graphs E C st of
           Inr (Some iris) \<Rightarrow> Some (List.map_filter (\<lambda>iri.
             if iri = [] then Some DEFAULT_GRAPH else graph_id_of st iri) iris)
         | _ \<Rightarrow> None)\<rparr>"

definition label_in :: "inferred_graphs \<Rightarrow> graph_id \<Rightarrow> label option" where
  "label_in G g =
    (if ig_system G = Some g then None
     else Some (case hm_get (ig_label_of G) g of Some l \<Rightarrow> l | None \<Rightarrow> LGraph g))"

definition is_inferred :: "inferred_graphs \<Rightarrow> graph_id \<Rightarrow> bool" where
  "is_inferred G g \<longleftrightarrow> hm_get (ig_label_of G) g \<noteq> None"

definition is_schema_graph :: "inferred_graphs \<Rightarrow> graph_id \<Rightarrow> bool" where
  "is_schema_graph G g \<longleftrightarrow> (case ig_schema G of None \<Rightarrow> True | Some gs \<Rightarrow> g \<in> set gs)"

definition inferred_ids :: "inferred_graphs \<Rightarrow> u32 set" where
  "inferred_ids G = graph_num ` fst ` set (ig_label_of G)"

definition companions :: "inferred_graphs \<Rightarrow> (graph_id \<times> graph_id) list" where
  "companions G = List.map_filter (\<lambda>(g, l). case l of LGraph src \<Rightarrow> Some (g, src) | Cross \<Rightarrow> None) (ig_label_of G)"

definition ensure ::
  "('d, 'm) env_scheme \<Rightarrow> label \<Rightarrow> inferred_graphs \<Rightarrow> ('d clocked, graph_id \<times> inferred_graphs) op" where
  "ensure E l G =
    (case hm_get (ig_graph_of G) l of
       Some g \<Rightarrow> sret (g, G)
     | None \<Rightarrow>
         sbind (case l of
             Cross \<Rightarrow> sret (INFERRED_CROSS_GRAPH_IRI, None)
           | LGraph g \<Rightarrow>
               if g = DEFAULT_GRAPH then sret (INFERRED_DEFAULT_GRAPH_IRI, None)
               else on_store (slift (\<lambda>st. rbind (ok_or (graph_iri st g)
                   (ValidationError (''unknown source graph '' @ nat_str (unat (graph_num g))))) (\<lambda>src.
                 Inr (INFERRED_GRAPH_PREFIX @ src, Some src))))) (\<lambda>(iri, src).
         sbind (create_graph_by E iri
             (case src of None \<Rightarrow> [] | Some s \<Rightarrow> [(INFERRED_FROM_PRED, VText s)]) INFERENCE_AUTHOR) (\<lambda>g.
         sret (g, G\<lparr>ig_label_of := hm_insert g l (ig_label_of G),
           ig_graph_of := hm_insert l g (ig_graph_of G)\<rparr>))))"


section \<open>Fact sources\<close>

record fact_source =
  fs_objects :: "string \<Rightarrow> node_id \<Rightarrow> (node_id \<times> label) list res"
  fs_subjects :: "string \<Rightarrow> node_id \<Rightarrow> (node_id \<times> label) list res"
  fs_present :: "owl_fact \<Rightarrow> bool res"

text \<open>\<open>MemFacts\<close>: the facts in the order of their insertion; its three indexes are computed.\<close>

definition mem_objects :: "owl_fact list \<Rightarrow> string \<Rightarrow> node_id \<Rightarrow> (node_id \<times> label) list" where
  "mem_objects M p s = map (\<lambda>f. (of_o f, of_label f)) (filter (\<lambda>f. of_p f = p \<and> of_s f = s) M)"

definition mem_subjects :: "owl_fact list \<Rightarrow> string \<Rightarrow> node_id \<Rightarrow> (node_id \<times> label) list" where
  "mem_subjects M p ob = map (\<lambda>f. (of_s f, of_label f)) (filter (\<lambda>f. of_p f = p \<and> of_o f = ob) M)"

definition mem_present :: "owl_fact list \<Rightarrow> owl_fact \<Rightarrow> bool" where
  "mem_present M f \<longleftrightarrow> f \<in> set M \<or>
    (of_label f = Cross \<and> (\<exists>x\<in>set M. of_s x = of_s f \<and> of_p x = of_p f \<and> of_o x = of_o f))"

definition mem_insert :: "owl_fact \<Rightarrow> owl_fact list \<Rightarrow> owl_fact list" where
  "mem_insert f M = (if f \<in> set M then M else M @ [f])"

definition mem_source :: "owl_fact list \<Rightarrow> fact_source" where
  "mem_source M =
    \<lparr>fs_objects = \<lambda>p s. Inr (mem_objects M p s), fs_subjects = \<lambda>p ob. Inr (mem_subjects M p ob),
     fs_present = \<lambda>f. Inr (mem_present M f)\<rparr>"

text \<open>The fact of a relation quad, \<open>None\<close> for other triples and for the system graph.\<close>

definition quad_fact :: "inferred_graphs \<Rightarrow> graph_id \<times> triple \<Rightarrow> owl_fact option" where
  "quad_fact G = (\<lambda>(g, t). case t of
     Relation s p ob _ _ \<Rightarrow> map_option (OwlFact s (pred_str p) ob) (label_in G g)
   | _ \<Rightarrow> None)"

definition store_facts_scan ::
  "('d, 'm) env_scheme \<Rightarrow> 'd store \<Rightarrow> snapshot \<Rightarrow> inferred_graphs \<Rightarrow> owl_fact list \<Rightarrow> node_id option \<Rightarrow>
    string \<Rightarrow> node_id option \<Rightarrow> owl_fact list res" where
  "store_facts_scan E st sn G removed s p ob =
    rbind (sn_scan_scoped E END_OF_TIME st sn s (Some p) ob Union) (\<lambda>quads.
    Inr (filter (\<lambda>f. f \<notin> set removed)
      (List.map_filter (\<lambda>(g, t). case t of
         Relation s' _ ob' _ _ \<Rightarrow> map_option (OwlFact s' p ob') (label_in G g) | _ \<Rightarrow> None) quads)))"

definition store_source ::
  "('d, 'm) env_scheme \<Rightarrow> 'd store \<Rightarrow> snapshot \<Rightarrow> inferred_graphs \<Rightarrow> owl_fact list \<Rightarrow> owl_fact list \<Rightarrow>
    fact_source" where
  "store_source E st sn G removed added =
    \<lparr>fs_objects = \<lambda>p s. rbind (store_facts_scan E st sn G removed (Some s) p None) (\<lambda>fs.
       Inr (map (\<lambda>f. (of_o f, of_label f)) fs @ mem_objects added p s)),
     fs_subjects = \<lambda>p ob. rbind (store_facts_scan E st sn G removed None p (Some ob)) (\<lambda>fs.
       Inr (map (\<lambda>f. (of_s f, of_label f)) fs @ mem_subjects added p ob)),
     fs_present = \<lambda>f. if mem_present added f then Inr True
       else rbind (store_facts_scan E st sn G removed (Some (of_s f)) (of_p f) (Some (of_o f))) (\<lambda>fs.
         Inr (list_ex (\<lambda>x. of_label x = of_label f \<or> of_label f = Cross) fs))\<rparr>"


section \<open>The schema\<close>

text \<open>A breadth-first search: the queue is first in, first out; a node is expanded when first seen.\<close>

definition succs :: "('a \<times> 'a) list \<Rightarrow> 'a \<Rightarrow> 'a list" where
  "succs es n = map snd (filter (\<lambda>(a, _). a = n) es)"

function bfs :: "('a \<times> 'a) list \<Rightarrow> 'a list \<Rightarrow> 'a list \<Rightarrow> 'a list" where
  "bfs es seen [] = seen"
| "bfs es seen (n # q) = (if n \<in> set seen then bfs es seen q else bfs es (seen @ [n]) (q @ succs es n))"
  by pat_completeness auto
termination
proof (relation "measures [\<lambda>(es, seen, _). card (fst ` set es - set seen), \<lambda>(_, _, q). length q]", goal_cases)
  case (3 es seen n q)
  show ?case
  proof (cases "n \<in> fst ` set es")
    case True
    with 3 have "fst ` set es - set (seen @ [n]) \<subset> fst ` set es - set seen" by auto
    then show ?thesis by (simp add: psubset_card_mono)
  next
    case False
    then have "succs es n = []" by (force simp: succs_def filter_empty_conv)
    moreover have "fst ` set es - set (seen @ [n]) = fst ` set es - set seen" using False by auto
    ultimately show ?thesis by simp
  qed
qed simp_all

definition closure :: "('a \<times> 'a) list \<Rightarrow> ('a \<times> 'a) list" where
  "closure es = concat (map (\<lambda>start. map (Pair start) (bfs es [] (succs es start))) (remdups (map fst es)))"

type_synonym labelled_edge = "node_id \<times> node_id \<times> label"

definition labelled_closure :: "labelled_edge list \<Rightarrow> labelled_edge list" where
  "labelled_closure es =
    (let of_label = (\<lambda>l. map (\<lambda>(a, b, _). (a, b)) (filter (\<lambda>(_, _, k). k = l) es));
         labels = remdups (map (\<lambda>(_, _, l). l) es);
         out = concat (map (\<lambda>l. map (\<lambda>(a, b). (a, b, l)) (closure (of_label l))) labels);
         covered = map (\<lambda>(a, b, _). (a, b)) out
     in out @ map (\<lambda>(a, b). (a, b, Cross))
       (filter (\<lambda>x. x \<notin> set covered) (closure (map (\<lambda>(a, b, _). (a, b)) es))))"

text \<open>
  The multimaps of \<open>Schema\<close> as lists of pairs; a backward map is its forward map read from the right.
\<close>

record owl_schema =
  os_domain :: "(string \<times> node_id) list"
  os_range :: "(string \<times> node_id) list"
  os_super_props :: "(string \<times> string) list"
  os_super_classes :: "(node_id \<times> node_id) list"
  os_inverse :: "(string \<times> string) list"
  os_symmetric :: "string set"
  os_transitive :: "string set"
  os_closure :: "owl_fact list"

definition by_key :: "('k \<times> 'v) list \<Rightarrow> 'k \<Rightarrow> 'v list" where
  "by_key m k = map snd (filter (\<lambda>(x, _). x = k) m)"

definition by_value :: "('k \<times> 'v) list \<Rightarrow> 'v \<Rightarrow> 'k list" where
  "by_value m v = map fst (filter (\<lambda>(_, y). y = v) m)"

definition load_names :: "('d, 'm) env_scheme \<Rightarrow> ('d, 's) store_scheme \<Rightarrow> (node_id \<times> string) list" where
  "load_names E st =
    fold (\<lambda>i m. case predicate_string st i of None \<Rightarrow> m | Some n \<Rightarrow> hm_insert (iri_to_node_id E n) n m)
      (map word_of_nat [1..<length (st_fwd st) + 2]) []"

definition property_name ::
  "('d, 'm) env_scheme \<Rightarrow> ('d, 's) store_scheme \<Rightarrow> (node_id \<times> string) list \<Rightarrow> node_id \<Rightarrow> string option" where
  "property_name E st names n =
    (case hm_get names n of Some name \<Rightarrow> Some name
     | None \<Rightarrow> (case iri_of E n st of Inl _ \<Rightarrow> None | Inr r \<Rightarrow> r))"

definition base_schema_quads ::
  "('d, 'm) env_scheme \<Rightarrow> 'd store \<Rightarrow> snapshot \<Rightarrow> inferred_graphs \<Rightarrow> string \<Rightarrow> node_id option \<Rightarrow>
    (graph_id \<times> triple) list res" where
  "base_schema_quads E st sn G p ob =
    rbind (sn_scan_scoped E END_OF_TIME st sn None (Some p) ob Union) (\<lambda>quads.
    Inr (filter (\<lambda>(g, _). \<not> is_inferred G g \<and> is_schema_graph G g) quads))"

definition schema_edges ::
  "('d, 'm) env_scheme \<Rightarrow> 'd store \<Rightarrow> snapshot \<Rightarrow> inferred_graphs \<Rightarrow> string \<Rightarrow> labelled_edge list res" where
  "schema_edges E st sn G p =
    rbind (base_schema_quads E st sn G p None) (\<lambda>quads.
    Inr (List.map_filter (\<lambda>(g, t). case t of
      Relation s _ ob _ _ \<Rightarrow> map_option (\<lambda>l. (s, ob, l)) (label_in G g) | _ \<Rightarrow> None) quads))"

definition typed_properties ::
  "('d, 'm) env_scheme \<Rightarrow> 'd store \<Rightarrow> snapshot \<Rightarrow> inferred_graphs \<Rightarrow> (node_id \<times> string) list \<Rightarrow> string \<Rightarrow>
    string set res" where
  "typed_properties E st sn G names cls =
    rbind (base_schema_quads E st sn G RDF_TYPE (Some (iri_to_node_id E cls))) (\<lambda>quads.
    Inr (set (List.map_filter (\<lambda>(_, t). property_name E st names (triple_subject t)) quads)))"

definition proper :: "labelled_edge list \<Rightarrow> labelled_edge list" where
  "proper es = filter (\<lambda>(a, b, _). a \<noteq> b) (labelled_closure es)"

definition closure_facts :: "string \<Rightarrow> labelled_edge list \<Rightarrow> owl_fact list" where
  "closure_facts p es = map (\<lambda>(a, b, l). OwlFact a p b l) (filter (\<lambda>e. e \<notin> set es) (proper es))"

definition load_schema ::
  "('d, 'm) env_scheme \<Rightarrow> 'd store \<Rightarrow> snapshot \<Rightarrow> inferred_graphs \<Rightarrow> owl_schema res" where
  "load_schema E st sn G =
    (let names = load_names E st; pname = property_name E st names in
     rbind (schema_edges E st sn G RDFS_SUBCLASS_OF) (\<lambda>sco.
     rbind (schema_edges E st sn G RDFS_SUBPROP_OF) (\<lambda>spo.
     rbind (schema_edges E st sn G RDFS_DOMAIN) (\<lambda>dm.
     rbind (schema_edges E st sn G RDFS_RANGE) (\<lambda>rg.
     rbind (schema_edges E st sn G OWL_INVERSE_OF) (\<lambda>inv.
     rbind (typed_properties E st sn G names OWL_SYMMETRIC_PROP) (\<lambda>sym.
     rbind (typed_properties E st sn G names OWL_TRANSITIVE_PROP) (\<lambda>trn.
     Inr \<lparr>os_domain = List.map_filter (\<lambda>(p, c, _). map_option (\<lambda>n. (n, c)) (pname p)) dm,
       os_range = List.map_filter (\<lambda>(p, c, _). map_option (\<lambda>n. (n, c)) (pname p)) rg,
       os_super_props = List.map_filter (\<lambda>(p, q, _).
         case (pname p, pname q) of (Some a, Some b) \<Rightarrow> Some (a, b) | _ \<Rightarrow> None) (proper spo),
       os_super_classes = map (\<lambda>(c, d, _). (c, d)) (proper sco),
       os_inverse = concat (map (\<lambda>(p, q, _).
         case (pname p, pname q) of (Some a, Some b) \<Rightarrow> [(a, b), (b, a)] | _ \<Rightarrow> []) inv),
       os_symmetric = sym, os_transitive = trn,
       os_closure = closure_facts RDFS_SUBCLASS_OF sco @ closure_facts RDFS_SUBPROP_OF spo\<rparr>))))))))"

end
