(* ===== verification/Owl_Run.thy ===== *)
theory Owl_Run
  imports Owl_Rl
begin

text \<open>
  \<open>polargraph-storage/src/owl_rl.rs\<close>, second half: the rules, the full run and the incremental run.
\<close>


section \<open>Rules\<close>

text \<open>What one step derives without a second premise.\<close>

definition local_consequences :: "owl_schema \<Rightarrow> owl_fact \<Rightarrow> owl_fact list" where
  "local_consequences S f =
    (let s = of_s f; p = of_p f; ob = of_o f; l = of_label f in
     map (\<lambda>c. OwlFact s RDF_TYPE c l) (by_key (os_domain S) p)
     @ map (\<lambda>c. OwlFact ob RDF_TYPE c l) (by_key (os_range S) p)
     @ map (\<lambda>q. OwlFact s q ob l) (by_key (os_super_props S) p)
     @ (if p = RDF_TYPE then map (\<lambda>d. OwlFact s RDF_TYPE d l) (by_key (os_super_classes S) ob) else [])
     @ (if p \<in> os_symmetric S \<or> p = OWL_SAME_AS then [OwlFact ob p s l] else [])
     @ map (\<lambda>q. OwlFact ob q s l) (by_key (os_inverse S) p))"

definition consequences ::
  "'m ext_scheme \<Rightarrow> owl_schema \<Rightarrow> fact_source \<Rightarrow> owl_fact \<Rightarrow> owl_fact list res" where
  "consequences X S src f =
    (if is_schema X f then Inr []
     else if of_p f \<in> os_transitive S \<or> of_p f = OWL_SAME_AS
     then rbind (fs_objects src (of_p f) (of_o f)) (\<lambda>nxt.
       rbind (fs_subjects src (of_p f) (of_s f)) (\<lambda>prev.
       Inr (local_consequences S f
         @ map (\<lambda>(o2, l2). OwlFact (of_s f) (of_p f) o2 (combine (of_label f) l2)) nxt
         @ map (\<lambda>(s0, l0). OwlFact s0 (of_p f) (of_o f) (combine l0 (of_label f))) prev)))
     else Inr (local_consequences S f))"

text \<open>\<open>||\<close> over lookups that can fail: the first that holds, or fails, decides.\<close>

fun any_of :: "('x \<Rightarrow> bool res) \<Rightarrow> 'x list \<Rightarrow> bool res" where
  "any_of f [] = Inr False"
| "any_of f (x # xs) = rbind (f x) (\<lambda>b. if b then Inr True else any_of f xs)"

definition has_fact :: "fact_source \<Rightarrow> label \<Rightarrow> string \<Rightarrow> node_id \<Rightarrow> node_id \<Rightarrow> bool res" where
  "has_fact src l p s ob = rbind (fs_objects src p s) (\<lambda>os. Inr ((ob, l) \<in> set os))"

definition transitive_support :: "fact_source \<Rightarrow> owl_fact \<Rightarrow> bool res" where
  "transitive_support src x =
    rbind (fs_objects src (of_p x) (of_s x)) (\<lambda>ms.
    any_of (\<lambda>(m, l1). rbind (fs_objects src (of_p x) m) (\<lambda>os.
      Inr (list_ex (\<lambda>(ob, l2). ob = of_o x \<and> combine l1 l2 = of_label x) os))) ms)"

definition labelled :: "label \<Rightarrow> (node_id \<times> label) list res \<Rightarrow> bool res" where
  "labelled l r = rbind r (\<lambda>xs. Inr (list_ex (\<lambda>(_, k). k = l) xs))"

definition supported :: "owl_schema \<Rightarrow> fact_source \<Rightarrow> owl_fact \<Rightarrow> bool res" where
  "supported S src x =
    (let s = of_s x; p = of_p x; ob = of_o x; l = of_label x in
     any_of (\<lambda>check. check ())
      ((if p = RDF_TYPE
        then map (\<lambda>q _. labelled l (fs_objects src q s)) (by_value (os_domain S) ob)
          @ map (\<lambda>q _. labelled l (fs_subjects src q s)) (by_value (os_range S) ob)
          @ map (\<lambda>c _. has_fact src l RDF_TYPE s c) (by_value (os_super_classes S) ob)
        else [])
       @ map (\<lambda>q _. has_fact src l q s ob) (by_value (os_super_props S) p)
       @ (if p \<in> os_symmetric S \<or> p = OWL_SAME_AS then [\<lambda>_. has_fact src l p ob s] else [])
       @ map (\<lambda>q _. has_fact src l q ob s) (by_value (os_inverse S) p)
       @ (if p \<in> os_transitive S \<or> p = OWL_SAME_AS then [\<lambda>_. transitive_support src x] else [])))"


section \<open>Saturation\<close>

text \<open>The facts the rules can ever make from a set of facts: a finite set.\<close>

definition rule_nodes :: "owl_schema \<Rightarrow> owl_fact set \<Rightarrow> node_id set" where
  "rule_nodes S F = of_s ` F \<union> of_o ` F \<union> snd ` set (os_domain S) \<union> snd ` set (os_range S)
    \<union> snd ` set (os_super_classes S)"

definition rule_preds :: "owl_schema \<Rightarrow> owl_fact set \<Rightarrow> string set" where
  "rule_preds S F = of_p ` F \<union> {RDF_TYPE} \<union> snd ` set (os_super_props S) \<union> snd ` set (os_inverse S)"

definition rule_labels :: "owl_fact set \<Rightarrow> label set" where
  "rule_labels F = of_label ` F \<union> {Cross}"

definition universe :: "owl_schema \<Rightarrow> owl_fact set \<Rightarrow> owl_fact set" where
  "universe S F = {x. of_s x \<in> rule_nodes S F \<and> of_p x \<in> rule_preds S F \<and> of_o x \<in> rule_nodes S F \<and>
    of_label x \<in> rule_labels F}"

lemmas rule_defs = rule_nodes_def rule_preds_def rule_labels_def

lemma universe_iff:
  "OwlFact s p ob l \<in> universe S F \<longleftrightarrow>
    s \<in> rule_nodes S F \<and> p \<in> rule_preds S F \<and> ob \<in> rule_nodes S F \<and> l \<in> rule_labels F"
  by (simp add: universe_def)

lemma universe_finite: "finite F \<Longrightarrow> finite (universe S F)"
proof -
  assume "finite F"
  then have "finite (rule_nodes S F \<times> rule_preds S F \<times> rule_nodes S F \<times> rule_labels F)"
    by (simp add: rule_defs)
  moreover have "universe S F \<subseteq> (\<lambda>(s, p, ob, l). OwlFact s p ob l) `
      (rule_nodes S F \<times> rule_preds S F \<times> rule_nodes S F \<times> rule_labels F)"
  proof
    fix x assume "x \<in> universe S F"
    then show "x \<in> (\<lambda>(s, p, ob, l). OwlFact s p ob l) `
        (rule_nodes S F \<times> rule_preds S F \<times> rule_nodes S F \<times> rule_labels F)"
      by (cases x) (simp add: universe_iff image_iff)
  qed
  ultimately show ?thesis by (meson finite_surj)
qed

lemma rule_mono:
  assumes "F \<subseteq> G"
  shows "rule_nodes S F \<subseteq> rule_nodes S G" "rule_preds S F \<subseteq> rule_preds S G" "rule_labels F \<subseteq> rule_labels G"
  using assms unfolding rule_defs by blast+

lemma universe_mono:
  assumes "F \<subseteq> G"
  shows "universe S F \<subseteq> universe S G"
  unfolding universe_def
  by (intro Collect_mono impI) (simp add: subsetD [OF rule_mono(1) [OF assms]] subsetD [OF rule_mono(2) [OF assms]]
      subsetD [OF rule_mono(3) [OF assms]])

lemma universe_absorb:
  assumes "G \<subseteq> universe S F"
  shows "universe S (F \<union> G) \<subseteq> universe S F"
proof -
  have "of_s ` G \<subseteq> rule_nodes S F" "of_o ` G \<subseteq> rule_nodes S F" "of_p ` G \<subseteq> rule_preds S F"
    "of_label ` G \<subseteq> rule_labels F"
    using assms unfolding universe_def by blast+
  then have "rule_nodes S (F \<union> G) \<subseteq> rule_nodes S F" "rule_preds S (F \<union> G) \<subseteq> rule_preds S F"
    "rule_labels (F \<union> G) \<subseteq> rule_labels F"
    unfolding rule_defs image_Un by blast+
  then show ?thesis unfolding universe_def by blast
qed

lemma rule_own: "f \<in> F \<Longrightarrow> of_s f \<in> rule_nodes S F" "f \<in> F \<Longrightarrow> of_o f \<in> rule_nodes S F"
  "f \<in> F \<Longrightarrow> of_p f \<in> rule_preds S F" "f \<in> F \<Longrightarrow> of_label f \<in> rule_labels F"
  unfolding rule_defs by blast+

lemma by_key_iff: "v \<in> set (by_key m k) \<longleftrightarrow> (k, v) \<in> set m"
  by (force simp: by_key_def)

lemma rule_schema:
  "(k, c) \<in> set (os_domain S) \<Longrightarrow> c \<in> rule_nodes S F" "(k, c) \<in> set (os_range S) \<Longrightarrow> c \<in> rule_nodes S F"
  "(n, c) \<in> set (os_super_classes S) \<Longrightarrow> c \<in> rule_nodes S F"
  "(p, q) \<in> set (os_super_props S) \<Longrightarrow> q \<in> rule_preds S F" "(p, q) \<in> set (os_inverse S) \<Longrightarrow> q \<in> rule_preds S F"
  "RDF_TYPE \<in> rule_preds S F"
  unfolding rule_defs by force+

text \<open>One step without a second premise, by rule.\<close>

lemma local_cases:
  "OwlFact s p ob l \<in> set (local_consequences S f) \<longleftrightarrow> l = of_label f \<and>
    ((s = of_s f \<and> p = RDF_TYPE \<and> (of_p f, ob) \<in> set (os_domain S)) \<or>
     (s = of_o f \<and> p = RDF_TYPE \<and> (of_p f, ob) \<in> set (os_range S)) \<or>
     (s = of_s f \<and> ob = of_o f \<and> (of_p f, p) \<in> set (os_super_props S)) \<or>
     (s = of_s f \<and> p = RDF_TYPE \<and> of_p f = RDF_TYPE \<and> (of_o f, ob) \<in> set (os_super_classes S)) \<or>
     (s = of_o f \<and> p = of_p f \<and> ob = of_s f \<and> (p \<in> os_symmetric S \<or> p = OWL_SAME_AS)) \<or>
     (s = of_o f \<and> ob = of_s f \<and> (of_p f, p) \<in> set (os_inverse S)))"
  unfolding local_consequences_def Let_def set_append Un_iff set_map image_iff Bex_def by_key_iff owl_fact.inject
  by (auto simp: by_key_iff)

lemma local_universe:
  assumes "c \<in> set (local_consequences S f)" and "f \<in> F"
  shows "c \<in> universe S F"
proof (cases c)
  case (OwlFact s p ob l)
  with assms(1) show ?thesis
    unfolding OwlFact universe_iff local_cases
    using rule_own [OF assms(2)] rule_schema by metis
qed

lemma mem_objects_iff: "(ob, l) \<in> set (mem_objects M p s) \<longleftrightarrow> OwlFact s p ob l \<in> set M"
  by (force simp: mem_objects_def image_iff intro: bexI [of _ "OwlFact s p ob l"])

lemma mem_subjects_iff: "(s, l) \<in> set (mem_subjects M p ob) \<longleftrightarrow> OwlFact s p ob l \<in> set M"
  by (force simp: mem_subjects_def image_iff intro: bexI [of _ "OwlFact s p ob l"])

text \<open>In memory the rules do not fail.\<close>

definition transitive_consequences :: "owl_fact list \<Rightarrow> owl_fact \<Rightarrow> owl_fact list" where
  "transitive_consequences M f =
    map (\<lambda>(o2, l2). OwlFact (of_s f) (of_p f) o2 (combine (of_label f) l2)) (mem_objects M (of_p f) (of_o f))
    @ map (\<lambda>(s0, l0). OwlFact s0 (of_p f) (of_o f) (combine l0 (of_label f))) (mem_subjects M (of_p f) (of_s f))"

definition mem_consequences :: "'m ext_scheme \<Rightarrow> owl_schema \<Rightarrow> owl_fact list \<Rightarrow> owl_fact \<Rightarrow> owl_fact list" where
  "mem_consequences X S M f =
    (if is_schema X f then []
     else local_consequences S f @
       (if of_p f \<in> os_transitive S \<or> of_p f = OWL_SAME_AS then transitive_consequences M f else []))"

lemma consequences_mem: "consequences X S (mem_source M) f = Inr (mem_consequences X S M f)"
  by (simp add: consequences_def mem_consequences_def transitive_consequences_def mem_source_def)

lemma combine_cases: "combine a b \<in> {a, Cross}" "combine a b \<in> {b, Cross}"
  by (auto simp: combine_def)

lemma transitive_iff:
  "c \<in> set (transitive_consequences M f) \<longleftrightarrow>
    (\<exists>o2 l2. OwlFact (of_o f) (of_p f) o2 l2 \<in> set M \<and> c = OwlFact (of_s f) (of_p f) o2 (combine (of_label f) l2)) \<or>
    (\<exists>s0 l0. OwlFact s0 (of_p f) (of_s f) l0 \<in> set M \<and> c = OwlFact s0 (of_p f) (of_o f) (combine l0 (of_label f)))"
  unfolding transitive_consequences_def set_append Un_iff
  by (auto simp: image_iff mem_objects_iff mem_subjects_iff Bex_def)

lemma mem_consequences_universe:
  assumes "c \<in> set (mem_consequences X S M f)" and "insert f (set M) \<subseteq> F"
  shows "c \<in> universe S F"
proof (cases "c \<in> set (local_consequences S f)")
  case True
  from local_universe [OF this] assms(2) show ?thesis by blast
next
  case False
  have f: "of_s f \<in> rule_nodes S F" "of_o f \<in> rule_nodes S F" "of_p f \<in> rule_preds S F" "of_label f \<in> rule_labels F"
    using assms(2) by (simp_all add: rule_own)
  from False assms(1) have "c \<in> set (transitive_consequences M f)"
    unfolding mem_consequences_def by (cases "is_schema X f"; cases "of_p f \<in> os_transitive S \<or> of_p f = OWL_SAME_AS") simp_all
  then consider o2 l2 where "OwlFact (of_o f) (of_p f) o2 l2 \<in> set M" "c = OwlFact (of_s f) (of_p f) o2 (combine (of_label f) l2)"
    | s0 l0 where "OwlFact s0 (of_p f) (of_s f) l0 \<in> set M" "c = OwlFact s0 (of_p f) (of_o f) (combine l0 (of_label f))"
    unfolding transitive_iff by blast
  then show ?thesis
  proof cases
    case 1
    then have "OwlFact (of_o f) (of_p f) o2 l2 \<in> F" using assms(2) by blast
    from rule_own [OF this] show ?thesis
      using 1(2) combine_cases(1) [of "of_label f" l2] f by (auto simp: universe_iff rule_labels_def)
  next
    case 2
    then have "OwlFact s0 (of_p f) (of_s f) l0 \<in> F" using assms(2) by blast
    from rule_own [OF this] show ?thesis
      using 2(2) combine_cases(2) [of l0 "of_label f"] f by (auto simp: universe_iff rule_labels_def)
  qed
qed

text \<open>The facts of a batch that are not there yet, each inserted before the next is looked up.\<close>

fun add_new :: "owl_fact list \<Rightarrow> owl_fact list \<Rightarrow> owl_fact list" where
  "add_new M [] = []"
| "add_new M (c # cs) = (if mem_present M c then add_new M cs else c # add_new (mem_insert c M) cs)"

lemma add_new_subset: "set (add_new M cs) \<subseteq> set cs"
  by (induction cs arbitrary: M) auto

lemma add_new_fresh: "x \<in> set (add_new M cs) \<Longrightarrow> x \<notin> set M"
proof (induction cs arbitrary: M)
  case (Cons c cs)
  show ?case
  proof (cases "mem_present M c")
    case False
    then have "x = c \<or> x \<in> set (add_new (mem_insert c M) cs)" using Cons.prems by simp
    then show ?thesis
    proof
      assume "x = c"
      with False show ?thesis by (simp add: mem_present_def)
    next
      assume "x \<in> set (add_new (mem_insert c M) cs)"
      then have "x \<notin> set (mem_insert c M)" by (rule Cons.IH)
      then show ?thesis by (simp add: mem_insert_def split: if_splits)
    qed
  qed (use Cons in auto)
qed simp

text \<open>New facts stay in the universe and leave less of it to find.\<close>

definition missing :: "owl_schema \<Rightarrow> owl_fact set \<Rightarrow> owl_fact set \<Rightarrow> nat" where
  "missing S M Q = card (universe S (M \<union> Q) - M)"

lemma missing_step:
  assumes "set cs \<subseteq> set (mem_consequences X S M f)"
  defines "new \<equiv> add_new M cs"
  shows "missing S (set (M @ new)) (set (queue @ new)) \<le> missing S (set M) (set (f # queue))"
    and "new \<noteq> [] \<Longrightarrow> missing S (set (M @ new)) (set (queue @ new)) < missing S (set M) (set (f # queue))"
proof -
  let ?F = "set M \<union> set (f # queue)"
  let ?U = "universe S ?F"
  have fin: "finite ?U" by (rule universe_finite) simp
  have sub: "set new \<subseteq> ?U"
  proof
    fix c assume "c \<in> set new"
    then have "c \<in> set (mem_consequences X S M f)" using assms add_new_subset by blast
    from mem_consequences_universe [OF this, of ?F] show "c \<in> ?U" by auto
  qed
  have "universe S (set (M @ new) \<union> set (queue @ new)) \<subseteq> universe S (?F \<union> set new)"
    by (rule universe_mono) auto
  with universe_absorb [OF sub] have shrink: "universe S (set (M @ new) \<union> set (queue @ new)) \<subseteq> ?U" by blast
  then have le: "universe S (set (M @ new) \<union> set (queue @ new)) - set (M @ new) \<subseteq> ?U - set M" by auto
  then show "missing S (set (M @ new)) (set (queue @ new)) \<le> missing S (set M) (set (f # queue))"
    unfolding missing_def by (rule card_mono [OF finite_Diff [OF fin]])
  assume "new \<noteq> []"
  then obtain c where c: "c \<in> set new" by (cases new) auto
  then have "c \<in> ?U - set M" using sub add_new_fresh [of c M] assms by auto
  moreover have "c \<notin> universe S (set (M @ new) \<union> set (queue @ new)) - set (M @ new)" using c by simp
  ultimately have "universe S (set (M @ new) \<union> set (queue @ new)) - set (M @ new) \<subset> ?U - set M" using le by blast
  then show "missing S (set (M @ new)) (set (queue @ new)) < missing S (set M) (set (f # queue))"
    unfolding missing_def by (rule psubset_card_mono [OF finite_Diff [OF fin]])
qed

function saturate ::
  "'m ext_scheme \<Rightarrow> owl_schema \<Rightarrow> owl_fact list \<Rightarrow> owl_fact list \<Rightarrow> owl_fact list \<Rightarrow>
    owl_fact list \<times> owl_fact list" where
  "saturate X S M [] derived = (M, derived)"
| "saturate X S M (f # queue) derived =
    (let new = add_new M (mem_consequences X S M f)
     in saturate X S (M @ new) (queue @ new) (derived @ new))"
  by pat_completeness auto
termination
proof (relation "measures [\<lambda>(X, S, M, q, _). missing S (set M) (set q), \<lambda>(_, _, _, q, _). length q]", goal_cases)
  case (2 X S M f queue derived new)
  with missing_step [of "mem_consequences X S M f" X S M f queue] show ?case
    by (cases "new = []") (auto simp: le_less)
qed simp


section \<open>Writing\<close>

record materialization_stats =
  ms_asserted :: nat
  ms_closed :: nat
  ms_derived :: nat
  ms_full :: bool

definition relation_of :: "'m ext_scheme \<Rightarrow> timestamp \<Rightarrow> timestamp \<Rightarrow> owl_fact \<Rightarrow> triple" where
  "relation_of X now from f =
    Relation (of_s f) (Predicate (of_p f)) (of_o f)
      (edge_id_for X (uuid_fmt X (node_uuid (of_s f))) (of_p f) (uuid_fmt X (node_uuid (of_o f))))
      (assert_now now from)"

fun assert_ops ::
  "('d, 'm) env_scheme \<Rightarrow> owl_fact list \<Rightarrow> inferred_graphs \<Rightarrow>
    ('d clocked, (graph_id \<times> triple) list \<times> inferred_graphs) op" where
  "assert_ops E [] G = sret ([], G)"
| "assert_ops E (f # fs) G =
    sbind (ensure E (of_label f) G) (\<lambda>(g, G1).
    sbind clock_now (\<lambda>from. sbind clock_now (\<lambda>now.
    sbind (assert_ops E fs G1) (\<lambda>(rest, G2).
    sret ((g, relation_of E now from f) # rest, G2)))))"

fun write_op_chunks ::
  "('d, 'm) env_scheme \<Rightarrow> (graph_id \<times> triple) list list \<Rightarrow> ('d clocked, unit) op" where
  "write_op_chunks E [] = sret ()"
| "write_op_chunks E (c # cs) =
    sbind (in_tx E (\<lambda>tx. sret (fold (\<lambda>(g, t). tx_insert_in t g Add) c (set_author INFERENCE_AUTHOR tx)))) (\<lambda>_.
    write_op_chunks E cs)"

definition write_inferred ::
  "('d, 'm) env_scheme \<Rightarrow> inferred_graphs \<Rightarrow> owl_fact list \<Rightarrow> (graph_id \<times> triple) list \<Rightarrow>
    ('d clocked, inferred_graphs) op" where
  "write_inferred E G asserted closed =
    sbind clock_now (\<lambda>now.
    sbind (assert_ops E asserted G) (\<lambda>(ops, G').
    sbind (write_op_chunks E (chunks CHUNK (ops @ map (\<lambda>(g, t). (g, close_at now t)) closed))) (\<lambda>_.
    sret G')))"

definition live_inferred ::
  "('d, 'm) env_scheme \<Rightarrow> 'd store \<Rightarrow> snapshot \<Rightarrow> inferred_graphs \<Rightarrow>
    (owl_fact \<times> (graph_id \<times> triple)) list res" where
  "live_inferred E st sn G =
    (if ig_label_of G = [] then Inr []
     else rbind (sn_scan_scoped E END_OF_TIME st sn None None None (scope_set (map fst (ig_label_of G)))) (\<lambda>quads.
       Inr (fold (\<lambda>(g, t) out.
         case (t, hm_get (ig_label_of G) g) of
           (Relation s p ob _ _, Some l) \<Rightarrow> hm_insert (OwlFact s (pred_str p) ob l) (g, t) out
         | _ \<Rightarrow> out) quads [])))"

text \<open>\<open>LiveInferred::get\<close>; its memo holds what the same snapshot answered before.\<close>

definition live_get ::
  "('d, 'm) env_scheme \<Rightarrow> 'd store \<Rightarrow> snapshot \<Rightarrow> inferred_graphs \<Rightarrow> owl_fact \<Rightarrow>
    (graph_id \<times> triple) option res" where
  "live_get E st sn G f =
    (case hm_get (ig_graph_of G) (of_label f) of
       None \<Rightarrow> Inr None
     | Some g \<Rightarrow>
         rbind (sn_scan_scoped E END_OF_TIME st sn (Some (of_s f)) (Some (of_p f)) (Some (of_o f)) (One g)) (\<lambda>quads.
         Inr (find (\<lambda>(_, t). case t of Relation _ _ _ _ _ \<Rightarrow> True | _ \<Rightarrow> False) quads)))"

definition live_contains ::
  "('d, 'm) env_scheme \<Rightarrow> 'd store \<Rightarrow> snapshot \<Rightarrow> inferred_graphs \<Rightarrow> owl_fact \<Rightarrow> bool res" where
  "live_contains E st sn G f = rbind (live_get E st sn G f) (\<lambda>r. Inr (r \<noteq> None))"

definition meta_get ::
  "('d, 'm) env_scheme \<Rightarrow> bytes \<Rightarrow> ('d clocked, bytes option) op" where
  "meta_get E k = on_store (slift (\<lambda>st. rbind (cf_handle E cf_META st) (\<lambda>_. db_get E (st_db st) cf_META k)))"

definition meta_put :: "('d, 'm) env_scheme \<Rightarrow> bytes \<Rightarrow> bytes \<Rightarrow> ('d clocked, unit) op" where
  "meta_put E k v = sbind (on_store (slift (cf_handle E cf_META))) (\<lambda>_. on_store (raw_write E [Put cf_META k v]))"

definition put_inferred_count :: "('d, 'm) env_scheme \<Rightarrow> nat \<Rightarrow> ('d clocked, unit) op" where
  "put_inferred_count E n = meta_put E META_INFERRED_COUNT (be_bytes 8 (of_nat n :: u64))"

definition get_inferred_count ::
  "('d, 'm) env_scheme \<Rightarrow> inferred_graphs \<Rightarrow> ('d clocked, nat) op" where
  "get_inferred_count E G =
    sbind (meta_get E META_INFERRED_COUNT) (\<lambda>r.
    case r of
      Some b \<Rightarrow> if length b = 8 then sret (unat (from_be b :: u64))
        else sbind (on_snapshot (\<lambda>st sn. live_inferred E st sn G)) (\<lambda>live.
          sbind (put_inferred_count E (length live)) (\<lambda>_. sret (length live)))
    | None \<Rightarrow> sbind (on_snapshot (\<lambda>st sn. live_inferred E st sn G)) (\<lambda>live.
        sbind (put_inferred_count E (length live)) (\<lambda>_. sret (length live))))"

definition get_applied :: "('d, 'm) env_scheme \<Rightarrow> ('d clocked, timestamp option) op" where
  "get_applied E = sbind (meta_get E META_INFERENCE_APPLIED) (\<lambda>r.
    sret (case r of Some b \<Rightarrow> if length b = 8 then Some (Timestamp (from_be b)) else None | None \<Rightarrow> None))"

definition put_applied :: "('d, 'm) env_scheme \<Rightarrow> timestamp \<Rightarrow> ('d clocked, unit) op" where
  "put_applied E ts = meta_put E META_INFERENCE_APPLIED (be_bytes 8 (ts_us ts))"


section \<open>The full run\<close>

text \<open>The base facts in scan order, and the closure over them; the second list is what was derived.\<close>

definition base_facts :: "inferred_graphs \<Rightarrow> (graph_id \<times> triple) list \<Rightarrow> owl_fact list" where
  "base_facts G quads =
    fold mem_insert (List.map_filter (\<lambda>(g, t). if is_inferred G g then None else quad_fact G (g, t)) quads) []"

definition full_closure ::
  "'m ext_scheme \<Rightarrow> owl_schema \<Rightarrow> owl_fact list \<Rightarrow> owl_fact list \<times> owl_fact list" where
  "full_closure X S base =
    (let new = add_new base (os_closure S) in saturate X S (base @ new) base new)"

definition materialize_at ::
  "('d, 'm) env_scheme \<Rightarrow> strings_codec \<Rightarrow> timestamp \<Rightarrow> ('d clocked, materialization_stats) op" where
  "materialize_at E C at =
    sbind clock_now (\<lambda>now.
    (let sn = snapshot_new now at in
    sbind (read_store (load_inferred E C)) (\<lambda>G.
    sbind (on_store (slift (\<lambda>st. load_schema E st sn G))) (\<lambda>S.
    sbind (on_store (slift (\<lambda>st. sn_scan_scoped E END_OF_TIME st sn None None None Union))) (\<lambda>quads.
    (let derived = snd (full_closure E S (base_facts G quads)) in
    sbind (on_store (slift (\<lambda>st. live_inferred E st sn G))) (\<lambda>live.
    (let asserted = filter (\<lambda>f. hm_get live f = None) derived;
         closed = map snd (filter (\<lambda>(f, _). f \<notin> set derived) live) in
    sbind (write_inferred E G asserted closed) (\<lambda>_.
    sbind (put_inferred_count E (length derived)) (\<lambda>_.
    sret \<lparr>ms_asserted = length asserted, ms_closed = length closed, ms_derived = length derived,
      ms_full = True\<rparr>))))))))))"

definition inference_on_replica :: storage_error where
  "inference_on_replica = ReadOnly ''inference runs on the primary''"

definition materialize ::
  "('d, 'm) env_scheme \<Rightarrow> strings_codec \<Rightarrow> ('d clocked, materialization_stats) op" where
  "materialize E C =
    sbind (read_store is_replica) (\<lambda>replica.
    if replica then (\<lambda>c. (Inl inference_on_replica, c))
    else sbind (read_store read_ts) (\<lambda>at.
      sbind (materialize_at E C at) (\<lambda>stats.
      sbind (put_applied E at) (\<lambda>_. sret stats))))"

definition set_schema_graphs ::
  "('d, 'm) env_scheme \<Rightarrow> strings_codec \<Rightarrow> string list option \<Rightarrow> ('d clocked, materialization_stats) op" where
  "set_schema_graphs E C graphs =
    sbind (read_store is_replica) (\<lambda>replica.
    if replica then (\<lambda>c. (Inl inference_on_replica, c))
    else sbind (on_store (slift (cf_handle E cf_META))) (\<lambda>_.
      sbind (case graphs of
          Some iris \<Rightarrow> sbind (\<lambda>c. (from_serde (strings_to_json C (remdups_adj (sort iris))), c)) (\<lambda>json.
            on_store (raw_write E [Put cf_META META_SCHEMA_GRAPHS json]))
        | None \<Rightarrow> on_store (raw_write E [Delete cf_META META_SCHEMA_GRAPHS])) (\<lambda>_.
      materialize E C)))"


section \<open>The incremental run\<close>

text \<open>1. Over-delete: inferred facts with a derivation through a deleted fact.\<close>

fun add_live :: "(owl_fact \<Rightarrow> bool res) \<Rightarrow> owl_fact list \<Rightarrow> owl_fact list \<Rightarrow> owl_fact list res" where
  "add_live live over [] = Inr []"
| "add_live live over (c # cs) =
    (if c \<in> set over then add_live live over cs
     else rbind (live c) (\<lambda>b.
       if b then rbind (add_live live (over @ [c]) cs) (\<lambda>rest. Inr (c # rest))
       else add_live live over cs))"

partial_function (option) over_delete ::
  "'m ext_scheme \<Rightarrow> owl_schema \<Rightarrow> fact_source \<Rightarrow> (owl_fact \<Rightarrow> bool res) \<Rightarrow> owl_fact list \<Rightarrow> owl_fact list \<Rightarrow>
    owl_fact list res option" where
  "over_delete X S old live queue over =
    (case queue of [] \<Rightarrow> Some (Inr over)
     | f # q \<Rightarrow>
       (case rbind (consequences X S old f) (add_live live over) of
          Inl e \<Rightarrow> Some (Inl e)
        | Inr new \<Rightarrow> over_delete X S old live (q @ new) (over @ new)))"

text \<open>2. Re-derive: over-deleted facts that the rest still supports, round by round.\<close>

fun rfilter :: "('x \<Rightarrow> bool res) \<Rightarrow> 'x list \<Rightarrow> 'x list res" where
  "rfilter P [] = Inr []"
| "rfilter P (x # xs) = rbind (P x) (\<lambda>b. rbind (rfilter P xs) (\<lambda>ys. Inr (if b then x # ys else ys)))"

lemma rfilter_subset: "rfilter P xs = Inr ys \<Longrightarrow> set ys \<subseteq> set xs"
proof (induction xs arbitrary: ys)
  case (Cons x xs)
  then obtain b zs where "P x = Inr b" "rfilter P xs = Inr zs" "ys = (if b then x # zs else zs)"
    by (auto simp: rbind_Inr_iff)
  with Cons.IH [of zs] show ?case by auto
qed simp

function rederive ::
  "owl_schema \<Rightarrow> (owl_fact list \<Rightarrow> fact_source) \<Rightarrow> owl_fact list \<Rightarrow> owl_fact list \<Rightarrow>
    (owl_fact list \<times> owl_fact list) res" where
  "rederive S mk removed acc =
    (case rfilter (supported S (mk removed)) removed of
       Inl e \<Rightarrow> Inl e
     | Inr found \<Rightarrow>
         if found = [] then Inr (removed, acc)
         else rederive S mk (filter (\<lambda>f. f \<notin> set found) removed) (acc @ found))"
  by auto
termination
proof (relation "measure (\<lambda>(_, _, removed, _). length removed)", goal_cases)
  case (2 S mk removed acc found)
  then obtain x where "x \<in> set found" by (cases found) auto
  moreover have "set found \<subseteq> set removed" using 2(1) rfilter_subset by metis
  ultimately have "x \<in> set removed" "x \<in> set found" by auto
  then show ?case by (auto intro: length_filter_less)
qed simp

declare rederive.simps [simp del]

text \<open>3. Insert: forward from the asserted and the re-derived facts.\<close>

type_synonym forward_state = "owl_fact list \<times> owl_fact list \<times> owl_fact list"

fun forward_step ::
  "(owl_fact list \<Rightarrow> owl_fact list \<Rightarrow> fact_source) \<Rightarrow> owl_fact list \<Rightarrow> forward_state \<Rightarrow>
    (owl_fact list \<times> forward_state) res" where
  "forward_step mk [] state = Inr ([], state)"
| "forward_step mk (c # cs) (removed, mem, added) =
    rbind (fs_present (mk removed mem) c) (\<lambda>b.
    if b then forward_step mk cs (removed, mem, added)
    else rbind (forward_step mk cs
        (if c \<in> set removed then (filter (\<lambda>f. f \<noteq> c) removed, mem_insert c mem, added)
         else (removed, mem_insert c mem, added @ [c]))) (\<lambda>(new, state).
      Inr (c # new, state)))"

partial_function (option) forward ::
  "'m ext_scheme \<Rightarrow> owl_schema \<Rightarrow> (owl_fact list \<Rightarrow> owl_fact list \<Rightarrow> fact_source) \<Rightarrow> owl_fact list \<Rightarrow>
    forward_state \<Rightarrow> forward_state res option" where
  "forward X S mk queue state =
    (case queue of [] \<Rightarrow> Some (Inr state)
     | f # q \<Rightarrow>
       (case rbind (consequences X S (mk (fst state) (fst (snd state))) f) (\<lambda>cs. forward_step mk cs state) of
          Inl e \<Rightarrow> Some (Inl e)
        | Inr r \<Rightarrow> forward X S mk (q @ fst r) (snd r)))"

text \<open>The three steps: what is added, and what stays over-deleted.\<close>

definition dred ::
  "'m ext_scheme \<Rightarrow> owl_schema \<Rightarrow> fact_source \<Rightarrow> (owl_fact \<Rightarrow> bool res) \<Rightarrow>
    (owl_fact list \<Rightarrow> owl_fact list \<Rightarrow> fact_source) \<Rightarrow> owl_fact list \<Rightarrow> owl_fact list \<Rightarrow>
    (owl_fact list \<times> owl_fact list) res option" where
  "dred X S old live mk deleted asserted =
    (case over_delete X S old live deleted [] of
       None \<Rightarrow> None
     | Some (Inl e) \<Rightarrow> Some (Inl e)
     | Some (Inr over) \<Rightarrow>
         (case rederive S (\<lambda>removed. mk removed []) over [] of
            Inl e \<Rightarrow> Some (Inl e)
          | Inr (removed, rederived) \<Rightarrow>
              map_option (\<lambda>r. rbind r (\<lambda>(removed', _, added). Inr (added, removed')))
                (forward X S mk (asserted @ rederived) (removed, [], []))))"

partial_function (option) read_changes ::
  "('d, 'm) env_scheme \<Rightarrow> 'd store \<Rightarrow> timestamp \<Rightarrow> change_record list \<Rightarrow>
    (timestamp \<times> change_record list) res option" where
  "read_changes E st cursor acc =
    (case changes_after E st cursor 1000 of
       Inl e \<Rightarrow> Some (Inl e)
     | Inr batch \<Rightarrow>
         if batch = [] then Some (Inr (cursor, acc))
         else if length batch = 1000 then read_changes E st (cr_ts (last batch)) (acc @ batch)
         else Some (Inr (cr_ts (last batch), acc @ batch)))"

text \<open>The base facts a change touched: asserted, deleted, and whether one of them is schema.\<close>

definition changed_facts ::
  "'m ext_scheme \<Rightarrow> inferred_graphs \<Rightarrow> change_record list \<Rightarrow> owl_fact list \<times> owl_fact list \<times> bool" where
  "changed_facts X G records =
    (let touched = List.map_filter (\<lambda>(g, t).
           if is_inferred G g then None
           else map_option (\<lambda>f. (f, vt_end (triple_temporal t) = END_OF_TIME, is_schema X f \<and> is_schema_graph G g))
             (quad_fact G (g, t)))
         (concat (map cr_quads (filter (\<lambda>r. cr_author r \<noteq> INFERENCE_AUTHOR) records)))
     in (map fst (filter (\<lambda>(_, opn, _). opn) touched), map fst (filter (\<lambda>(_, opn, _). \<not> opn) touched),
         list_ex (\<lambda>(_, _, schema). schema) touched))"

definition infer_batch ::
  "('d, 'm) env_scheme \<Rightarrow> timestamp \<Rightarrow> timestamp \<Rightarrow> inferred_graphs \<Rightarrow> owl_fact list \<Rightarrow> owl_fact list \<Rightarrow>
    'd clocked \<Rightarrow> (materialization_stats res \<times> 'd clocked) option" where
  "infer_batch E from to G asserted deleted c =
    (let old_sn = snapshot_new (ck_now c (ck_ticks c)) from;
         live_sn = snapshot_new (ck_now c (Suc (ck_ticks c))) to;
         new_sn = snapshot_new (ck_now c (Suc (Suc (ck_ticks c)))) to;
         c1 = c\<lparr>ck_ticks := Suc (Suc (Suc (ck_ticks c)))\<rparr>;
         st = ck_store c in
     case load_schema E st old_sn G of
       Inl e \<Rightarrow> Some (Inl e, c1)
     | Inr S \<Rightarrow>
         (case dred E S (store_source E st old_sn G [] []) (live_contains E st live_sn G)
             (store_source E st new_sn G) deleted asserted of
            None \<Rightarrow> None
          | Some (Inl e) \<Rightarrow> Some (Inl e, c1)
          | Some (Inr (added, removed)) \<Rightarrow>
              Some ((sbind (on_store (slift (\<lambda>st. rfold (\<lambda>f out. rbind (live_get E st live_sn G f) (\<lambda>r.
                  Inr (case r of None \<Rightarrow> out | Some q \<Rightarrow> out @ [q]))) removed []))) (\<lambda>closed.
                sbind (get_inferred_count E G) (\<lambda>before.
                sbind (write_inferred E G added closed) (\<lambda>_.
                (let derived = before + length added - length closed in
                sbind (put_inferred_count E derived) (\<lambda>_.
                sbind (put_applied E to) (\<lambda>_.
                sret \<lparr>ms_asserted = length added, ms_closed = length closed, ms_derived = derived,
                  ms_full = False\<rparr>))))))) c1)))"

definition infer_changes ::
  "('d, 'm) env_scheme \<Rightarrow> strings_codec \<Rightarrow> 'd clocked \<Rightarrow>
    (materialization_stats option res \<times> 'd clocked) option" where
  "infer_changes E C c =
    (if is_replica (ck_store c) then Some (Inl inference_on_replica, c)
     else case get_applied E c of
       (Inl e, c1) \<Rightarrow> Some (Inl e, c1)
     | (Inr resume, c1) \<Rightarrow>
         (let st = ck_store c1;
              floor = (case changes_floor E st of Inl _ \<Rightarrow> Timestamp 0 | Inr t \<Rightarrow> t);
              some = (\<lambda>(r, d). (rbind r (\<lambda>s. Inr (Some s)), d)) in
          case resume of
            None \<Rightarrow> Some (some (materialize E C c1))
          | Some from \<Rightarrow>
              if from < floor then Some (some (materialize E C c1))
              else (case read_changes E st from [] of
                 None \<Rightarrow> None
               | Some (Inl e) \<Rightarrow> Some (Inl e, c1)
               | Some (Inr (to, records)) \<Rightarrow>
                   if list_all (\<lambda>r. cr_author r = INFERENCE_AUTHOR) records
                   then Some (if records = [] then (Inr None, c1)
                     else sbind (put_applied E to) (\<lambda>_. sret None) c1)
                   else (let G = load_inferred E C st; (asserted, deleted, schema_changed) = changed_facts E G records in
                     if schema_changed
                     then Some (sbind (materialize_at E C to) (\<lambda>stats.
                       sbind (put_applied E to) (\<lambda>_. sret (Some stats))) c1)
                     else map_option some (infer_batch E from to G asserted deleted c1)))))"

end
