(* ===== verification/Owl_Facts.thy ===== *)
theory Owl_Facts
  imports Owl_Run
begin

text \<open>
  What a full run computes. A declarative closure of the rules over unlabelled triples is the
  specification; the saturated facts are that closure of all premises, and the facts with the label
  of a graph are that closure of the graph's own premises.
\<close>


section \<open>The closure of the rules\<close>

type_synonym spo = "node_id \<times> string \<times> node_id"

definition schema_triple_p :: "'m ext_scheme \<Rightarrow> spo \<Rightarrow> bool" where
  "schema_triple_p X = (\<lambda>(s, p, ob). is_schema X (OwlFact s p ob Cross))"

text \<open>One step from one premise, by rule.\<close>

definition one_premise :: "owl_schema \<Rightarrow> spo \<Rightarrow> spo \<Rightarrow> bool" where
  "one_premise S = (\<lambda>(s, p, ob) (s', p', ob').
    (s' = s \<and> p' = RDF_TYPE \<and> (p, ob') \<in> set (os_domain S)) \<or>
    (s' = ob \<and> p' = RDF_TYPE \<and> (p, ob') \<in> set (os_range S)) \<or>
    (s' = s \<and> ob' = ob \<and> (p, p') \<in> set (os_super_props S)) \<or>
    (s' = s \<and> p' = RDF_TYPE \<and> p = RDF_TYPE \<and> (ob, ob') \<in> set (os_super_classes S)) \<or>
    (s' = ob \<and> p' = p \<and> ob' = s \<and> (p \<in> os_symmetric S \<or> p = OWL_SAME_AS)) \<or>
    (s' = ob \<and> ob' = s \<and> (p, p') \<in> set (os_inverse S)))"

inductive_set owl_closure :: "'m ext_scheme \<Rightarrow> owl_schema \<Rightarrow> spo set \<Rightarrow> spo set"
  for X :: "'m ext_scheme" and S :: owl_schema and B :: "spo set" where
  owl_base: "t \<in> B \<Longrightarrow> t \<in> owl_closure X S B"
| owl_one: "t \<in> owl_closure X S B \<Longrightarrow> \<not> schema_triple_p X t \<Longrightarrow> one_premise S t t' \<Longrightarrow> t' \<in> owl_closure X S B"
| owl_trans: "(s, p, m) \<in> owl_closure X S B \<Longrightarrow> (m, p, ob) \<in> owl_closure X S B \<Longrightarrow>
    p \<in> os_transitive S \<or> p = OWL_SAME_AS \<Longrightarrow> p \<notin> set TBOX_PREDICATES \<Longrightarrow> (s, p, ob) \<in> owl_closure X S B"

definition fact_spo :: "owl_fact \<Rightarrow> spo" where
  "fact_spo f = (of_s f, of_p f, of_o f)"

definition labelled_spo :: "label \<Rightarrow> owl_fact set \<Rightarrow> spo set" where
  "labelled_spo l F = fact_spo ` {f \<in> F. of_label f = l}"

lemma labelled_spo_iff: "(s, p, ob) \<in> labelled_spo l F \<longleftrightarrow> OwlFact s p ob l \<in> F"
  by (force simp: labelled_spo_def fact_spo_def)

lemma spo_iff: "(s, p, ob) \<in> fact_spo ` F \<longleftrightarrow> (\<exists>l. OwlFact s p ob l \<in> F)"
proof
  assume "(s, p, ob) \<in> fact_spo ` F"
  then obtain f where "f \<in> F" "fact_spo f = (s, p, ob)" by auto
  then show "\<exists>l. OwlFact s p ob l \<in> F" by (cases f) (auto simp: fact_spo_def)
next
  assume "\<exists>l. OwlFact s p ob l \<in> F"
  then obtain l where "OwlFact s p ob l \<in> F" ..
  then show "(s, p, ob) \<in> fact_spo ` F" by (rule rev_image_eqI) (simp add: fact_spo_def)
qed

lemma is_schema_spo: "is_schema X f \<longleftrightarrow> schema_triple_p X (fact_spo f)"
  by (simp add: is_schema_def schema_triple_p_def fact_spo_def)

lemma local_one: "c \<in> set (local_consequences S f) \<longleftrightarrow> of_label c = of_label f \<and> one_premise S (fact_spo f) (fact_spo c)"
  by (cases c) (auto simp: local_cases one_premise_def fact_spo_def)

lemma combine_graph: "combine a b = LGraph g \<longleftrightarrow> a = LGraph g \<and> b = LGraph g"
  by (auto simp: combine_def)


section \<open>Soundness\<close>

text \<open>What is derived from facts that satisfy \<open>Q\<close>, when one step keeps \<open>Q\<close>.\<close>

lemma saturate_sound:
  assumes "saturate X S M queue derived = (M', derived')"
    and "\<forall>M f c. c \<in> set (mem_consequences X S M f) \<longrightarrow> f \<in> set M \<longrightarrow> (\<forall>x\<in>set M. Q x) \<longrightarrow> Q c"
    and "\<forall>x\<in>set M. Q x" and "set queue \<subseteq> set M"
  shows "(\<forall>x\<in>set M'. Q x) \<and> (\<exists>more. M' = M @ more \<and> derived' = derived @ more \<and> set more \<inter> set M = {})"
  using assms
proof (induction X S M queue derived rule: saturate.induct)
  case (2 X S M f queue derived)
  let ?new = "add_new M (mem_consequences X S M f)"
  have "\<forall>x\<in>set (M @ ?new). Q x"
    using 2(3) add_new_subset [of M "mem_consequences X S M f"] 2(4,5) by auto
  moreover have "set (queue @ ?new) \<subseteq> set (M @ ?new)" using 2(5) by auto
  moreover have "saturate X S (M @ ?new) (queue @ ?new) (derived @ ?new) = (M', derived')"
    using 2(2) by (simp add: Let_def)
  ultimately obtain more where "\<forall>x\<in>set M'. Q x" "M' = (M @ ?new) @ more" "derived' = (derived @ ?new) @ more"
    "set more \<inter> set (M @ ?new) = {}" using 2(1) [OF refl _ 2(3)] by blast
  moreover have "set ?new \<inter> set M = {}" using add_new_fresh by blast
  ultimately show ?case by (intro conjI exI [of _ "?new @ more"]) auto
qed simp

text \<open>A fact present once, in its label or for a cross fact in any, stays present.\<close>

lemma mem_present_mono: "mem_present M c \<Longrightarrow> set M \<subseteq> set M' \<Longrightarrow> mem_present M' c"
  unfolding mem_present_def by blast

lemma add_new_present: "c \<in> set cs \<Longrightarrow> mem_present (M @ add_new M cs) c"
proof (induction cs arbitrary: M)
  case (Cons d cs)
  show ?case
  proof (cases "mem_present M d")
    case True
    with Cons show ?thesis using mem_present_mono [OF True, of "M @ add_new M cs"] by auto
  next
    case False
    then have ins: "mem_insert d M = M @ [d]" by (simp add: mem_insert_def mem_present_def)
    show ?thesis
    proof (cases "c = d")
      case True
      have "d \<in> set (add_new M (d # cs))" using False by simp
      with True show ?thesis unfolding mem_present_def by auto
    next
      case c: False
      with Cons.prems have "c \<in> set cs" by simp
      from Cons.IH [OF this, of "M @ [d]"] False show ?thesis by (simp add: ins)
    qed
  qed
qed simp


section \<open>Completeness\<close>

text \<open>
  Everything one step makes from facts that are in memory and not queued any more is present. For
  the pairs, a fact and its partner must both be instance facts or neither, which holds when
  \<open>rdf:type\<close> is not declared transitive.
\<close>

definition saturated :: "'m ext_scheme \<Rightarrow> owl_schema \<Rightarrow> owl_fact set \<Rightarrow> owl_fact list \<Rightarrow> bool" where
  "saturated X S P M \<longleftrightarrow>
    (\<forall>f\<in>P. \<not> is_schema X f \<longrightarrow> (\<forall>c\<in>set (local_consequences S f). mem_present M c)) \<and>
    (\<forall>f\<in>P. \<forall>g\<in>P. of_o f = of_s g \<longrightarrow> of_p f = of_p g \<longrightarrow> of_p f \<notin> set TBOX_PREDICATES \<longrightarrow>
      of_p f \<in> os_transitive S \<or> of_p f = OWL_SAME_AS \<longrightarrow>
      mem_present M (OwlFact (of_s f) (of_p f) (of_o g) (combine (of_label f) (of_label g))))"

lemma saturated_mono: "saturated X S P M \<Longrightarrow> set M \<subseteq> set M' \<Longrightarrow> saturated X S P M'"
  unfolding saturated_def using mem_present_mono by blast

lemma same_as_not_type: "OWL_SAME_AS \<noteq> RDF_TYPE"
  by (simp add: OWL_SAME_AS_def RDF_TYPE_def)

lemma saturated_step:
  assumes "saturated X S P M" and "f \<in> set M" and "P \<subseteq> set M" and "RDF_TYPE \<notin> os_transitive S"
    and "set (mem_consequences X S M f) \<subseteq> set cs"
  shows "saturated X S (insert f P) (M @ add_new M cs)"
proof -
  let ?M = "M @ add_new M cs"
  have old: "saturated X S P ?M" by (rule saturated_mono [OF assms(1)]) auto
  have new: "mem_present ?M c" if "c \<in> set (mem_consequences X S M f)" for c
    using add_new_present [of c cs M] that assms(5) by blast
  have local: "mem_present ?M c" if "\<not> is_schema X f" "c \<in> set (local_consequences S f)" for c
    by (rule new) (use that in \<open>simp add: mem_consequences_def\<close>)
  have pairs: "mem_present ?M (OwlFact (of_s a) (of_p a) (of_o b) (combine (of_label a) (of_label b)))"
    if ab: "a = f \<or> b = f" "a \<in> set M" "b \<in> set M" "of_o a = of_s b" "of_p a = of_p b" "of_p a \<notin> set TBOX_PREDICATES"
      "of_p a \<in> os_transitive S \<or> of_p a = OWL_SAME_AS" for a b
  proof (rule new)
    have p: "of_p f = of_p a" using ab by auto
    have "of_p a \<noteq> RDF_TYPE" using ab(7) assms(4) same_as_not_type by metis
    then have "\<not> is_schema X f" using p ab(6) by (simp add: is_schema_def)
    moreover have "OwlFact (of_s a) (of_p a) (of_o b) (combine (of_label a) (of_label b)) \<in> set (transitive_consequences M f)"
      using ab(1)
    proof
      assume "a = f"
      moreover have "b = OwlFact (of_o f) (of_p f) (of_o b) (of_label b)" using ab(4,5) \<open>a = f\<close> by (cases b) simp
      then have "OwlFact (of_o f) (of_p f) (of_o b) (of_label b) \<in> set M" using ab(3) by simp
      ultimately show ?thesis unfolding transitive_iff by blast
    next
      assume "b = f"
      moreover have "a = OwlFact (of_s a) (of_p f) (of_s f) (of_label a)" using ab(4) p \<open>b = f\<close> by (cases a) simp
      then have "OwlFact (of_s a) (of_p f) (of_s f) (of_label a) \<in> set M" using ab(2) by simp
      ultimately show ?thesis unfolding transitive_iff using p by metis
    qed
    ultimately show "OwlFact (of_s a) (of_p a) (of_o b) (combine (of_label a) (of_label b))
        \<in> set (mem_consequences X S M f)"
      using ab(7) p by (simp add: mem_consequences_def)
  qed
  show ?thesis
    unfolding saturated_def
  proof (intro conjI ballI impI)
    fix g c assume "g \<in> insert f P" "\<not> is_schema X g" "c \<in> set (local_consequences S g)"
    then show "mem_present ?M c" using old local unfolding saturated_def by blast
  next
    fix a b assume "a \<in> insert f P" "b \<in> insert f P" "of_o a = of_s b" "of_p a = of_p b"
      "of_p a \<notin> set TBOX_PREDICATES" "of_p a \<in> os_transitive S \<or> of_p a = OWL_SAME_AS"
    then show "mem_present ?M (OwlFact (of_s a) (of_p a) (of_o b) (combine (of_label a) (of_label b)))"
      using old pairs [of a b] assms(2,3) unfolding saturated_def by blast
  qed
qed

lemma saturate_complete:
  assumes "saturate X S M queue derived = (M', derived')" and "saturated X S P M"
    and "set M = P \<union> set queue" and "RDF_TYPE \<notin> os_transitive S"
  shows "saturated X S (set M') M'"
  using assms
proof (induction X S M queue derived arbitrary: P rule: saturate.induct)
  case (2 X S M f queue derived)
  let ?new = "add_new M (mem_consequences X S M f)"
  have "f \<in> set M" "P \<subseteq> set M" using 2(4) by auto
  from saturated_step [OF 2(3) this 2(5) subset_refl] have "saturated X S (insert f P) (M @ ?new)" .
  moreover have "set (M @ ?new) = insert f P \<union> set (queue @ ?new)" using 2(4) by auto
  moreover have "saturate X S (M @ ?new) (queue @ ?new) (derived @ ?new) = (M', derived')"
    using 2(2) by (simp add: Let_def)
  ultimately show ?case using 2(1) [OF refl] 2(5) by blast
qed simp

text \<open>A saturated memory holds the closure of what it holds, label by label and over all labels.\<close>

lemma saturated_label:
  assumes "saturated X S (set M) M" and "t \<in> owl_closure X S B" and "B \<subseteq> labelled_spo (LGraph g) (set M)"
  shows "t \<in> labelled_spo (LGraph g) (set M)"
  using assms(2)
proof induction
  case (owl_one t t')
  obtain s p ob s' p' ob' where t: "t = (s, p, ob)" "t' = (s', p', ob')" by (metis prod_cases3)
  let ?f = "OwlFact s p ob (LGraph g)" and ?c = "OwlFact s' p' ob' (LGraph g)"
  have "?f \<in> set M" using owl_one.IH t by (simp add: labelled_spo_iff)
  moreover have "\<not> is_schema X ?f" using owl_one.hyps(2) t by (simp add: is_schema_spo fact_spo_def)
  moreover have "?c \<in> set (local_consequences S ?f)" using owl_one.hyps(3) t by (simp add: local_one fact_spo_def)
  ultimately have "mem_present M ?c" using assms(1) unfolding saturated_def by blast
  then show ?case by (simp add: mem_present_def t labelled_spo_iff)
next
  case (owl_trans s p m ob)
  let ?f = "OwlFact s p m (LGraph g)" and ?h = "OwlFact m p ob (LGraph g)"
  have "?f \<in> set M" "?h \<in> set M" using owl_trans.IH by (simp_all add: labelled_spo_iff)
  then have "mem_present M (OwlFact (of_s ?f) (of_p ?f) (of_o ?h) (combine (of_label ?f) (of_label ?h)))"
    using assms(1) owl_trans.hyps(3,4) unfolding saturated_def by (metis owl_fact.sel)
  then show ?case by (simp add: mem_present_def combine_def labelled_spo_iff)
qed (use assms(3) in blast)

lemma saturated_all:
  assumes "saturated X S (set M) M" and "t \<in> owl_closure X S B" and "B \<subseteq> fact_spo ` set M"
  shows "t \<in> fact_spo ` set M"
proof -
  have present: "\<exists>l'. OwlFact s p ob l' \<in> set M" if "mem_present M (OwlFact s p ob l)" for s p ob l
  proof -
    have "\<exists>x\<in>set M. of_s x = s \<and> of_p x = p \<and> of_o x = ob"
      using that unfolding mem_present_def by (elim disjE) (force, simp)
    then show ?thesis by (metis owl_fact.exhaust_sel)
  qed
  show ?thesis using assms(2)
  proof induction
    case (owl_one t t')
    obtain s p ob s' p' ob' where t: "t = (s, p, ob)" "t' = (s', p', ob')" by (metis prod_cases3)
    obtain l where "OwlFact s p ob l \<in> set M" using owl_one.IH t by (auto simp: spo_iff)
    moreover have "\<not> is_schema X (OwlFact s p ob l)" using owl_one.hyps(2) t by (simp add: is_schema_spo fact_spo_def)
    moreover have "OwlFact s' p' ob' l \<in> set (local_consequences S (OwlFact s p ob l))"
      using owl_one.hyps(3) t by (simp add: local_one fact_spo_def)
    ultimately have "mem_present M (OwlFact s' p' ob' l)" using assms(1) unfolding saturated_def by blast
    then show ?case using present t by (simp add: spo_iff)
  next
    case (owl_trans s p m ob)
    obtain l k where "OwlFact s p m l \<in> set M" "OwlFact m p ob k \<in> set M" using owl_trans.IH by (auto simp: spo_iff)
    then have "mem_present M (OwlFact (of_s (OwlFact s p m l)) (of_p (OwlFact s p m l)) (of_o (OwlFact m p ob k))
        (combine (of_label (OwlFact s p m l)) (of_label (OwlFact m p ob k))))"
      using assms(1) owl_trans.hyps(3,4) unfolding saturated_def by (metis owl_fact.sel)
    then show ?case using present by (simp add: spo_iff)
  qed (use assms(3) in blast)
qed


section \<open>The full run\<close>

lemma mem_consequences_cases:
  assumes "c \<in> set (mem_consequences X S M f)"
  obtains (one) "\<not> schema_triple_p X (fact_spo f)" "one_premise S (fact_spo f) (fact_spo c)" "of_label c = of_label f"
    | (first) ob l where "OwlFact (of_o f) (of_p f) ob l \<in> set M" "c = OwlFact (of_s f) (of_p f) ob (combine (of_label f) l)"
        "of_p f \<in> os_transitive S \<or> of_p f = OWL_SAME_AS" "of_p f \<notin> set TBOX_PREDICATES"
    | (second) s l where "OwlFact s (of_p f) (of_s f) l \<in> set M" "c = OwlFact s (of_p f) (of_o f) (combine l (of_label f))"
        "of_p f \<in> os_transitive S \<or> of_p f = OWL_SAME_AS" "of_p f \<notin> set TBOX_PREDICATES"
proof -
  have f: "\<not> is_schema X f" using assms by (auto simp: mem_consequences_def)
  then have tbox: "of_p f \<notin> set TBOX_PREDICATES" by (simp add: is_schema_def)
  show thesis
  proof (cases "c \<in> set (local_consequences S f)")
    case True
    with f show thesis by (intro one) (simp_all add: local_one is_schema_spo)
  next
    case False
    have trn: "of_p f \<in> os_transitive S \<or> of_p f = OWL_SAME_AS"
      using assms f False by (simp add: mem_consequences_def split: if_splits)
    then have "c \<in> set (transitive_consequences M f)" using assms f False by (simp add: mem_consequences_def)
    then show thesis unfolding transitive_iff using first second trn tbox by blast
  qed
qed

lemma step_all:
  assumes "c \<in> set (mem_consequences X S M f)" and "f \<in> set M" and "\<forall>x\<in>set M. fact_spo x \<in> owl_closure X S B"
  shows "fact_spo c \<in> owl_closure X S B"
  using assms(1)
proof (cases rule: mem_consequences_cases)
  case one
  with assms(2,3) show ?thesis by (blast intro: owl_one)
next
  case (first ob l)
  have "(of_s f, of_p f, of_o f) \<in> owl_closure X S B" "(of_o f, of_p f, ob) \<in> owl_closure X S B"
    using assms(2,3) first(1) by (force simp: fact_spo_def)+
  from owl_trans [OF this first(3,4)] first(2) show ?thesis by (simp add: fact_spo_def)
next
  case (second s l)
  have "(s, of_p f, of_s f) \<in> owl_closure X S B" "(of_s f, of_p f, of_o f) \<in> owl_closure X S B"
    using assms(2,3) second(1) by (force simp: fact_spo_def)+
  from owl_trans [OF this second(3,4)] second(2) show ?thesis by (simp add: fact_spo_def)
qed

lemma step_label:
  assumes "c \<in> set (mem_consequences X S M f)" and "f \<in> set M"
    and "\<forall>x\<in>set M. of_label x = LGraph g \<longrightarrow> fact_spo x \<in> owl_closure X S B" and "of_label c = LGraph g"
  shows "fact_spo c \<in> owl_closure X S B"
  using assms(1)
proof (cases rule: mem_consequences_cases)
  case one
  with assms(2-4) show ?thesis by (metis owl_one)
next
  case (first ob l)
  have l: "of_label f = LGraph g" "l = LGraph g" using first(2) assms(4) by (simp_all add: combine_graph)
  have "(of_s f, of_p f, of_o f) \<in> owl_closure X S B" "(of_o f, of_p f, ob) \<in> owl_closure X S B"
    using assms(2,3) first(1) l by (force simp: fact_spo_def)+
  from owl_trans [OF this first(3,4)] first(2) show ?thesis by (simp add: fact_spo_def)
next
  case (second s l)
  have l: "of_label f = LGraph g" "l = LGraph g" using second(2) assms(4) by (simp_all add: combine_graph)
  have "(s, of_p f, of_s f) \<in> owl_closure X S B" "(of_s f, of_p f, of_o f) \<in> owl_closure X S B"
    using assms(2,3) second(1) l by (force simp: fact_spo_def)+
  from owl_trans [OF this second(3,4)] second(2) show ?thesis by (simp add: fact_spo_def)
qed

lemma add_new_labels:
  "labelled_spo (LGraph g) (set (M @ add_new M cs)) = labelled_spo (LGraph g) (set M \<union> set cs)"
proof -
  have "c \<in> set (M @ add_new M cs)" if "c \<in> set cs" "of_label c = LGraph g" for c
    using add_new_present [OF that(1), of M] that(2) by (simp add: mem_present_def)
  then have "{f \<in> set (M @ add_new M cs). of_label f = LGraph g} = {f \<in> set M \<union> set cs. of_label f = LGraph g}"
    using add_new_subset by fastforce
  then show ?thesis by (simp only: labelled_spo_def)
qed

lemma add_new_all: "fact_spo ` set (M @ add_new M cs) = fact_spo ` (set M \<union> set cs)"
proof -
  have "fact_spo c \<in> fact_spo ` set (M @ add_new M cs)" if "c \<in> set cs" for c
  proof -
    have "c \<in> set (M @ add_new M cs) \<or>
        (\<exists>x\<in>set (M @ add_new M cs). of_s x = of_s c \<and> of_p x = of_p c \<and> of_o x = of_o c)"
      using add_new_present [OF that, of M] unfolding mem_present_def by blast
    then have "\<exists>x\<in>set (M @ add_new M cs). fact_spo x = fact_spo c" by (auto simp: fact_spo_def)
    then show ?thesis by (metis imageI)
  qed
  then show ?thesis using add_new_subset [of M cs] by (auto simp del: set_append) (auto)
qed

lemma full_closure_saturated:
  assumes run: "full_closure X S base = (M, derived)" and type: "RDF_TYPE \<notin> os_transitive S"
    and tbox: "\<forall>f\<in>set (os_closure S). of_p f \<in> set TBOX_PREDICATES"
  shows "saturated X S (set M) M"
proof -
  let ?new = "add_new base (os_closure S)"
  have sat: "saturate X S (base @ ?new) base ?new = (M, derived)" using run by (simp add: full_closure_def Let_def)
  have schema: "of_p f \<in> set TBOX_PREDICATES" if "f \<in> set ?new" for f
    using tbox that add_new_subset by blast
  have "saturated X S (set ?new) (base @ ?new)"
    unfolding saturated_def using schema by (auto simp: is_schema_def)
  from saturate_complete [OF sat this _ type] show ?thesis by auto
qed

lemma full_closure_spec:
  assumes run: "full_closure X S base = (M, derived)" and type: "RDF_TYPE \<notin> os_transitive S"
    and tbox: "\<forall>f\<in>set (os_closure S). of_p f \<in> set TBOX_PREDICATES"
  shows "set M = set base \<union> set derived" and "set base \<inter> set derived = {}"
    and "fact_spo ` set M = owl_closure X S (fact_spo ` (set base \<union> set (os_closure S)))"
    and "labelled_spo (LGraph g) (set M) =
      owl_closure X S (labelled_spo (LGraph g) (set base \<union> set (os_closure S)))"
proof -
  let ?new = "add_new base (os_closure S)"
  have sat: "saturate X S (base @ ?new) base ?new = (M, derived)" using run by (simp add: full_closure_def Let_def)
  have full: "saturated X S (set M) M" by (rule full_closure_saturated [OF assms])
  have grow: "\<exists>more. M = (base @ ?new) @ more \<and> derived = ?new @ more \<and> set more \<inter> set (base @ ?new) = {}"
    using saturate_sound [OF sat, of "\<lambda>_. True"] by auto
  then show "set M = set base \<union> set derived" "set base \<inter> set derived = {}"
    using add_new_fresh by fastforce+
  have sub: "set (base @ ?new) \<subseteq> set M" using grow by auto
  show "fact_spo ` set M = owl_closure X S (fact_spo ` (set base \<union> set (os_closure S)))" (is "_ = owl_closure X S ?B")
  proof (intro subset_antisym subsetI)
    fix t assume "t \<in> fact_spo ` set M"
    moreover have "\<forall>x\<in>set M. fact_spo x \<in> owl_closure X S ?B"
    proof (rule conjunct1 [OF saturate_sound [OF sat]])
      have "fact_spo x \<in> ?B" if "x \<in> set (base @ ?new)" for x
        using that add_new_all [of base "os_closure S"] by (metis imageI)
      then show "\<forall>x\<in>set (base @ ?new). fact_spo x \<in> owl_closure X S ?B" by (blast intro: owl_base)
    qed (intro allI impI, rule step_all, assumption+, simp)
    ultimately show "t \<in> owl_closure X S ?B" by blast
  next
    fix t assume "t \<in> owl_closure X S ?B"
    from saturated_all [OF full this] show "t \<in> fact_spo ` set M"
      using add_new_all [of base "os_closure S"] sub by blast
  qed
  show "labelled_spo (LGraph g) (set M) = owl_closure X S (labelled_spo (LGraph g) (set base \<union> set (os_closure S)))"
    (is "_ = owl_closure X S ?B")
  proof (intro subset_antisym subsetI)
    fix t assume "t \<in> labelled_spo (LGraph g) (set M)"
    moreover have own: "fact_spo x \<in> ?B" if "x \<in> set (base @ ?new)" "of_label x = LGraph g" for x
      unfolding add_new_labels [symmetric] unfolding labelled_spo_def using that by blast
    have "\<forall>x\<in>set M. of_label x = LGraph g \<longrightarrow> fact_spo x \<in> owl_closure X S ?B"
    proof (rule conjunct1 [OF saturate_sound [OF sat]])
      show "\<forall>x\<in>set (base @ ?new). of_label x = LGraph g \<longrightarrow> fact_spo x \<in> owl_closure X S ?B"
        using own by (blast intro: owl_base)
    qed (intro allI impI, rule step_label, assumption+, simp)
    ultimately show "t \<in> owl_closure X S ?B" unfolding labelled_spo_def by blast
  next
    fix t assume "t \<in> owl_closure X S ?B"
    then show "t \<in> labelled_spo (LGraph g) (set M)"
    proof (rule saturated_label [OF full])
      show "?B \<subseteq> labelled_spo (LGraph g) (set M)"
        unfolding add_new_labels [symmetric] unfolding labelled_spo_def using sub by blast
    qed
  qed
qed


section \<open>The closure of labelled edges\<close>

lemma succs_iff: "y \<in> set (succs es x) \<longleftrightarrow> (x, y) \<in> set es"
  by (force simp: succs_def)

text \<open>The search finds what the queue leads to, when whatever a seen node leads to is seen or queued.\<close>

lemma bfs_spec:
  assumes "\<forall>x\<in>set seen. \<forall>y. (x, y) \<in> set es \<longrightarrow> y \<in> set seen \<union> set queue"
  shows "set (bfs es seen queue) = set seen \<union> {z. \<exists>y\<in>set queue. (y, z) \<in> (set es)\<^sup>*}"
  using assms
proof (induction es seen queue rule: bfs.induct)
  case (1 es seen)
  show ?case by simp
next
  case (2 es seen n q)
  show ?case
  proof (cases "n \<in> set seen")
    case True
    have "z \<in> set seen \<union> {z. \<exists>y\<in>set q. (y, z) \<in> (set es)\<^sup>*}" if "(n, z) \<in> (set es)\<^sup>*" for z
      using that
    proof induction
      case (step y z)
      then consider "y \<in> set seen" | x where "x \<in> set q" "(x, y) \<in> (set es)\<^sup>*" by blast
      then show ?case
      proof cases
        case 1
        then have "z \<in> set seen \<union> set (n # q)" using "2.prems" step.hyps(2) by blast
        with True show ?thesis by auto
      next
        case 2
        with step.hyps(2) show ?thesis by (blast intro: rtrancl_into_rtrancl)
      qed
    qed (use True in simp)
    moreover have "set (bfs es seen q) = set seen \<union> {z. \<exists>y\<in>set q. (y, z) \<in> (set es)\<^sup>*}"
      using "2.IH"(1) [OF True] "2.prems" True by auto
    ultimately show ?thesis using True by auto
  next
    case False
    have "(n, z) \<in> (set es)\<^sup>* \<longleftrightarrow> z = n \<or> (\<exists>y. (n, y) \<in> set es \<and> (y, z) \<in> (set es)\<^sup>*)" for z
      by (auto elim: converse_rtranclE intro: converse_rtrancl_into_rtrancl)
    moreover have "set (bfs es (seen @ [n]) (q @ succs es n)) =
        set (seen @ [n]) \<union> {z. \<exists>y\<in>set (q @ succs es n). (y, z) \<in> (set es)\<^sup>*}"
      by (rule "2.IH"(2) [OF False]) (use "2.prems" in \<open>auto simp: succs_iff\<close>)
    ultimately show ?thesis using False by (auto simp: succs_iff)
  qed
qed

lemma closure_spec: "(a, b) \<in> set (closure es) \<longleftrightarrow> (a, b) \<in> (set es)\<^sup>+"
proof -
  have "(a, b) \<in> set (closure es) \<longleftrightarrow> a \<in> fst ` set es \<and> b \<in> set (bfs es [] (succs es a))"
    by (auto simp: closure_def)
  also have "\<dots> \<longleftrightarrow> a \<in> fst ` set es \<and> (\<exists>y. (a, y) \<in> set es \<and> (y, b) \<in> (set es)\<^sup>*)"
    by (auto simp: bfs_spec succs_iff)
  also have "\<dots> \<longleftrightarrow> (a, b) \<in> (set es)\<^sup>+"
    by (force dest: tranclD intro: rtrancl_into_trancl2)
  finally show ?thesis .
qed

end
