(* ===== verification/Owl_Increment.thy ===== *)
theory Owl_Increment
  imports Owl_Facts
begin

text \<open>
  What an incremental run computes when facts were only asserted. The run asks a source for facts;
  the interface \<open>fact_answers\<close> says what the source must answer, up to order and repetition, and the
  run is proved against it. The memory of the full run provides the interface.
\<close>


lemma owl_closure_mono:
  assumes "B \<subseteq> C"
  shows "owl_closure X S B \<subseteq> owl_closure X S C"
proof
  fix t assume "t \<in> owl_closure X S B"
  then show "t \<in> owl_closure X S C"
    by induction (use assms in \<open>blast intro: owl_closure.intros\<close>)+
qed

lemma full_closure_base:
  assumes "full_closure X S base = (M, derived)" and "RDF_TYPE \<notin> os_transitive S"
    and "\<forall>f\<in>set (os_closure S). of_p f \<in> set TBOX_PREDICATES"
  shows "fact_spo ` (set base \<union> set (os_closure S)) \<subseteq> fact_spo ` set M"
    and "labelled_spo (LGraph g) (set base \<union> set (os_closure S)) \<subseteq> labelled_spo (LGraph g) (set M)"
  unfolding full_closure_spec(3,4) [OF assms] by (blast intro: owl_base)+


section \<open>The interface of a fact source\<close>

definition present_in :: "owl_fact set \<Rightarrow> owl_fact \<Rightarrow> bool" where
  "present_in F f \<longleftrightarrow> f \<in> F \<or>
    (of_label f = Cross \<and> (\<exists>x\<in>F. of_s x = of_s f \<and> of_p x = of_p f \<and> of_o x = of_o f))"

definition answers_for :: "string set \<Rightarrow> fact_source \<Rightarrow> owl_fact set \<Rightarrow> bool" where
  "answers_for P src F \<longleftrightarrow>
    (\<forall>p\<in>P. \<forall>s. \<exists>out. fs_objects src p s = Inr out \<and> (\<forall>ob l. (ob, l) \<in> set out \<longleftrightarrow> OwlFact s p ob l \<in> F)) \<and>
    (\<forall>p\<in>P. \<forall>ob. \<exists>out. fs_subjects src p ob = Inr out \<and> (\<forall>s l. (s, l) \<in> set out \<longleftrightarrow> OwlFact s p ob l \<in> F)) \<and>
    (\<forall>f. of_p f \<in> P \<longrightarrow> fs_present src f = Inr (present_in F f))"

lemma present_in_mem: "present_in (set M) f \<longleftrightarrow> mem_present M f"
  by (simp add: present_in_def mem_present_def)

text \<open>The source answers for a set of predicates that the rules do not leave.\<close>

definition closed_preds :: "string set \<Rightarrow> owl_schema \<Rightarrow> bool" where
  "closed_preds P S \<longleftrightarrow> RDF_TYPE \<in> P \<and> snd ` set (os_super_props S) \<subseteq> P \<and> snd ` set (os_inverse S) \<subseteq> P"

lemma mem_consequences_preds:
  assumes "c \<in> set (mem_consequences X S M f)" and "closed_preds P S" and "of_p ` insert f (set M) \<subseteq> P"
  shows "of_p c \<in> P"
proof -
  have "c \<in> universe S (insert f (set M))" by (rule mem_consequences_universe [OF assms(1)]) simp
  then have "of_p c \<in> rule_preds S (insert f (set M))" by (simp add: universe_def)
  moreover have "rule_preds S (insert f (set M)) \<subseteq> P"
    using assms(2,3) unfolding rule_preds_def closed_preds_def by simp
  ultimately show ?thesis by (rule rev_subsetD)
qed

locale fact_answers =
  fixes mk :: "owl_fact list \<Rightarrow> owl_fact list \<Rightarrow> fact_source" and N :: "owl_fact list" and P :: "string set"
  assumes answers: "answers_for P (mk [] added) (set N \<union> set added)"
    and own_preds: "f \<in> set N \<Longrightarrow> of_p f \<in> P"
begin

lemma objects:
  "p \<in> P \<Longrightarrow> \<exists>out. fs_objects (mk [] M) p s = Inr out \<and>
    (\<forall>ob l. (ob, l) \<in> set out \<longleftrightarrow> OwlFact s p ob l \<in> set (N @ M))"
  using answers [of M] unfolding answers_for_def set_append by blast

lemma subjects:
  "p \<in> P \<Longrightarrow> \<exists>out. fs_subjects (mk [] M) p ob = Inr out \<and>
    (\<forall>s l. (s, l) \<in> set out \<longleftrightarrow> OwlFact s p ob l \<in> set (N @ M))"
  using answers [of M] unfolding answers_for_def set_append by blast

lemma present: "of_p f \<in> P \<Longrightarrow> fs_present (mk [] M) f = Inr (mem_present (N @ M) f)"
  using answers [of M] unfolding answers_for_def by (simp add: present_in_mem [symmetric])

text \<open>The rules over the source make what they make in memory.\<close>

lemma consequences_answer:
  assumes "of_p f \<in> P"
  shows "\<exists>cs. consequences X S (mk [] M) f = Inr cs \<and> set cs = set (mem_consequences X S (N @ M) f)"
proof -
  obtain nxt where nxt: "fs_objects (mk [] M) (of_p f) (of_o f) = Inr nxt"
    "\<And>ob l. (ob, l) \<in> set nxt \<longleftrightarrow> OwlFact (of_o f) (of_p f) ob l \<in> set (N @ M)"
    using objects [OF assms] by blast
  obtain prv where prv: "fs_subjects (mk [] M) (of_p f) (of_s f) = Inr prv"
    "\<And>s l. (s, l) \<in> set prv \<longleftrightarrow> OwlFact s (of_p f) (of_s f) l \<in> set (N @ M)"
    using subjects [OF assms] by blast
  have "set nxt = set (mem_objects (N @ M) (of_p f) (of_o f))"
    "set prv = set (mem_subjects (N @ M) (of_p f) (of_s f))"
    using nxt(2) prv(2) by (auto simp: mem_objects_iff mem_subjects_iff)
  then show ?thesis
    by (simp add: consequences_def mem_consequences_def transitive_consequences_def nxt(1) prv(1)) blast
qed

lemma forward_step_answer:
  assumes "\<forall>c\<in>set cs. of_p c \<in> P"
  shows "forward_step mk cs ([], M, added) =
    Inr (add_new (N @ M) cs, [], M @ add_new (N @ M) cs, added @ add_new (N @ M) cs)"
  using assms
proof (induction cs arbitrary: M added)
  case (Cons c cs)
  show ?case
  proof (cases "mem_present (N @ M) c")
    case True
    with Cons show ?thesis by (simp add: present)
  next
    case False
    then have "mem_insert c M = M @ [c]" "mem_insert c (N @ M) = N @ M @ [c]"
      by (simp_all add: mem_insert_def mem_present_def)
    with Cons.IH [of "M @ [c]" "added @ [c]"] Cons.prems False show ?thesis by (simp add: present)
  qed
qed simp

lemma forward_run:
  assumes "saturated X S D (N @ M)" and "set (N @ M) = D \<union> set queue" and "RDF_TYPE \<notin> os_transitive S"
    and "\<forall>M f c. c \<in> set (mem_consequences X S M f) \<longrightarrow> f \<in> set M \<longrightarrow> (\<forall>x\<in>set M. Q x) \<longrightarrow> Q c"
    and "\<forall>x\<in>set (N @ M). Q x" and "closed_preds P S" and "of_p ` set M \<subseteq> P"
  shows "\<exists>more. forward X S mk queue ([], M, added) = Some (Inr ([], M @ more, added @ more)) \<and>
    saturated X S (set (N @ M @ more)) (N @ M @ more) \<and> (\<forall>x\<in>set (N @ M @ more). Q x) \<and>
    set more \<inter> set (N @ M) = {}"
  using assms
proof (induction "(M, queue)" arbitrary: M queue added D
    rule: wf_induct_rule [OF wf_measures [of "[\<lambda>(M, q). missing S (set (N @ M)) (set q), \<lambda>(_, q). length q]"]])
  case (1 M queue added D)
  show ?case
  proof (cases queue)
    case Nil
    with 1 show ?thesis by (intro exI [of _ "[]"]) (simp add: forward.simps)
  next
    case (Cons f q)
    have preds: "of_p f \<in> P" "of_p ` set (N @ M) \<subseteq> P" using 1(3,8) own_preds Cons by auto
    obtain cs where cs: "consequences X S (mk [] M) f = Inr cs" "set cs = set (mem_consequences X S (N @ M) f)"
      using consequences_answer [of f] preds by blast
    have inP: "\<forall>c\<in>set cs. of_p c \<in> P"
      using mem_consequences_preds [of _ X S "N @ M" f P] cs(2) 1(7) preds by auto
    let ?new = "add_new (N @ M) cs"
    have less: "((M @ ?new, q @ ?new), (M, queue)) \<in> measures [\<lambda>(M, q). missing S (set (N @ M)) (set q), \<lambda>(_, q). length q]"
      using missing_step [of cs X S "N @ M" f q] cs(2) unfolding Cons by (cases "?new = []") (auto simp: le_less)
    have run: "forward X S mk queue ([], M, added) = forward X S mk (q @ ?new) ([], M @ ?new, added @ ?new)"
      by (subst forward.simps) (simp add: Cons cs(1) forward_step_answer [OF inP])
    have "saturated X S (insert f D) ((N @ M) @ ?new)"
      by (rule saturated_step) (use 1 cs(2) Cons in auto)
    moreover have "set (N @ M @ ?new) = insert f D \<union> set (q @ ?new)" using 1(3) Cons by auto
    moreover have "\<forall>x\<in>set (N @ M @ ?new). Q x"
    proof
      fix x assume "x \<in> set (N @ M @ ?new)"
      then consider "x \<in> set (N @ M)" | "x \<in> set (mem_consequences X S (N @ M) f)"
        using add_new_subset [of "N @ M" cs] cs(2) by auto
      then show "Q x" using 1(3,5,6) Cons by cases auto
    qed
    moreover have "of_p ` set (M @ ?new) \<subseteq> P" using inP add_new_subset [of "N @ M" cs] 1(8) by auto
    ultimately obtain more where more: "forward X S mk (q @ ?new) ([], M @ ?new, added @ ?new) =
        Some (Inr ([], (M @ ?new) @ more, (added @ ?new) @ more))"
      "saturated X S (set (N @ (M @ ?new) @ more)) (N @ (M @ ?new) @ more)"
      "\<forall>x\<in>set (N @ (M @ ?new) @ more). Q x" "set more \<inter> set (N @ M @ ?new) = {}"
      using 1(1) [OF less, of "insert f D" "added @ ?new"] 1(4,5,7) by auto
    moreover have "set ?new \<inter> set (N @ M) = {}" using add_new_fresh by blast
    ultimately show ?thesis by (intro exI [of _ "?new @ more"]) (auto simp: run)
  qed
qed

text \<open>Asserted facts alone: the run ends, and old and new facts are what a full run finds.\<close>

lemma insert_run:
  assumes "set N = set (fst (full_closure X S base)) \<union> set asserted" and "RDF_TYPE \<notin> os_transitive S"
    and "\<forall>f\<in>set (os_closure S). of_p f \<in> set TBOX_PREDICATES" and "closed_preds P S"
  shows "\<exists>added. dred X S old live mk [] asserted = Some (Inr (added, [])) \<and> set added \<inter> set N = {} \<and>
    fact_spo ` (set N \<union> set added) = fact_spo ` set (fst (full_closure X S (base @ asserted))) \<and>
    (\<forall>g. labelled_spo (LGraph g) (set N \<union> set added) =
      labelled_spo (LGraph g) (set (fst (full_closure X S (base @ asserted)))))"
proof -
  obtain M0 d0 where full: "full_closure X S base = (M0, d0)" by force
  obtain M1 d1 where full1: "full_closure X S (base @ asserted) = (M1, d1)" by force
  let ?B = "set base \<union> set asserted \<union> set (os_closure S)"
  define Q where "Q x \<longleftrightarrow> fact_spo x \<in> owl_closure X S (fact_spo ` ?B) \<and>
    (\<forall>g. of_label x = LGraph g \<longrightarrow> fact_spo x \<in> owl_closure X S (labelled_spo (LGraph g) ?B))" for x
  note old = full_closure_spec [OF full assms(2,3)] and new = full_closure_spec [OF full1 assms(2,3)]
  have N: "set N = set M0 \<union> set asserted" using assms(1) full by simp
  have closed: "saturated X S (set M0) M0" by (rule full_closure_saturated [OF full assms(2,3)])
  have start: "saturated X S (set M0) (N @ [])" by (rule saturated_mono [OF closed]) (simp add: N)
  have step: "\<forall>M f c. c \<in> set (mem_consequences X S M f) \<longrightarrow> f \<in> set M \<longrightarrow> (\<forall>x\<in>set M. Q x) \<longrightarrow> Q c"
    unfolding Q_def by (meson step_all step_label)
  have sub: "fact_spo ` (set base \<union> set (os_closure S)) \<subseteq> fact_spo ` ?B"
    "labelled_spo (LGraph g) (set base \<union> set (os_closure S)) \<subseteq> labelled_spo (LGraph g) ?B" for g
    by (auto simp: labelled_spo_def)
  have own: "Q x" if "x \<in> ?B" for x
    using that unfolding Q_def labelled_spo_def by (blast intro: owl_base)
  have init: "\<forall>x\<in>set (N @ []). Q x"
  proof
    fix x assume "x \<in> set (N @ [])"
    then consider "x \<in> set M0" | "x \<in> set asserted" using N by auto
    then show "Q x"
    proof cases
      case 1
      then have "fact_spo x \<in> fact_spo ` set M0" "of_label x = LGraph g \<Longrightarrow> fact_spo x \<in> labelled_spo (LGraph g) (set M0)" for g
        by (auto simp: labelled_spo_def)
      then show ?thesis unfolding Q_def old(3,4) using owl_closure_mono [OF sub(1)] owl_closure_mono [OF sub(2)] by blast
    qed (use own in blast)
  qed
  obtain more where more: "forward X S mk asserted ([], [], []) = Some (Inr ([], more, more))"
    "saturated X S (set (N @ more)) (N @ more)" "\<forall>x\<in>set (N @ more). Q x" "set more \<inter> set N = {}"
    using forward_run [OF start _ assms(2) step init assms(4), of asserted "[]"] N by auto
  have base: "?B \<subseteq> set M0 \<union> set asserted \<union> set (os_closure S)" using old(1) by auto
  have run: "dred X S old live mk [] asserted = Some (Inr (more, []))"
    by (simp add: dred_def over_delete.simps rederive.simps more(1))
  have all: "fact_spo ` (set N \<union> set more) = owl_closure X S (fact_spo ` ?B)"
  proof (intro subset_antisym subsetI)
    fix t assume "t \<in> owl_closure X S (fact_spo ` ?B)"
    moreover have "fact_spo ` ?B \<subseteq> fact_spo ` set (N @ more)"
      using full_closure_base(1) [OF full assms(2,3)] N by auto
    ultimately show "t \<in> fact_spo ` (set N \<union> set more)" using saturated_all [OF more(2)] by auto
  qed (use more(3) in \<open>auto simp: Q_def\<close>)
  have labels: "labelled_spo (LGraph g) (set N \<union> set more) = owl_closure X S (labelled_spo (LGraph g) ?B)" for g
  proof (intro subset_antisym subsetI)
    fix t assume "t \<in> owl_closure X S (labelled_spo (LGraph g) ?B)"
    moreover have "labelled_spo (LGraph g) ?B \<subseteq> labelled_spo (LGraph g) (set (N @ more))"
      using full_closure_base(2) [OF full assms(2,3), of g] N by (auto simp: labelled_spo_def)
    ultimately show "t \<in> labelled_spo (LGraph g) (set N \<union> set more)" using saturated_label [OF more(2)] by auto
  qed (use more(3) in \<open>auto simp: Q_def labelled_spo_def\<close>)
  have "set (base @ asserted) \<union> set (os_closure S) = ?B" by auto
  then show ?thesis using run more(4) all labels full1 new(3,4) by (intro exI [of _ more]) simp
qed

end

interpretation mem_run: fact_answers "\<lambda>removed added. mem_source (N @ added)" N UNIV
  by unfold_locales
    (simp_all add: answers_for_def mem_source_def mem_objects_iff mem_subjects_iff present_in_mem [symmetric])

end
