(* ===== verification/Owl_Store.thy ===== *)
theory Owl_Store
  imports Owl_Increment
begin

text \<open>
  The incremental run over the store: at a snapshot of a sound store, \<open>StoreFacts\<close> provides the
  interface of a fact source. Its facts are those of the relation quads of a union scan whose
  predicate is looked up under the name it is stored with.
\<close>

definition own_names :: "('d, 's) store_scheme \<Rightarrow> string set" where
  "own_names st = {p. canonical_name st p = p}"

definition snapshot_facts :: "('d, 's) store_scheme \<Rightarrow> inferred_graphs \<Rightarrow> (graph_id \<times> triple) list \<Rightarrow> owl_fact list" where
  "snapshot_facts st G quads = filter (\<lambda>f. of_p f \<in> own_names st) (List.map_filter (quad_fact G) quads)"

lemma map_filter_iff: "y \<in> set (List.map_filter f xs) \<longleftrightarrow> (\<exists>x\<in>set xs. f x = Some y)"
  by (auto simp: map_filter_def) force

lemma reconstruct_name:
  assumes "reconstruct E st s i ob t b = Inr (Relation s' p ob' e r)"
  shows "s' = s \<and> ob' = ob \<and> hm_get (st_rev st) i = Some (pred_str p)"
proof -
  obtain name dv where "predicate_string st i = Some name" and c: "(case dv of
        DecodedRelation e r \<Rightarrow> Inr (Relation s (Predicate name) ob e (r\<lparr>tt := t\<rparr>))
      | DecodedProperty v r \<Rightarrow> Inr (Property s (Predicate name) v (r\<lparr>tt := t\<rparr>))
      | DecodedPropertyRef r \<Rightarrow>
          rbind (load_blob E ob st) (\<lambda>v. Inr (Property s (Predicate name) v (r\<lparr>tt := t\<rparr>))))
      = Inr (Relation s' p ob' e r)"
    using assms unfolding reconstruct_def rbind_Inr_iff by (cases "predicate_string st i") auto
  then show ?thesis by (cases dv) (auto simp: predicate_string_def rbind_Inr_iff)
qed

lemma ex_fact: "(\<exists>x\<in>F. Q (of_s x) (of_p x) (of_o x) (of_label x)) \<longleftrightarrow> (\<exists>a q b l. OwlFact a q b l \<in> F \<and> Q a q b l)"
  by (metis owl_fact.exhaust_sel owl_fact.sel)

lemma image_facts:
  "(b, l) \<in> (\<lambda>f. (of_o f, of_label f)) ` F \<longleftrightarrow> (\<exists>a q. OwlFact a q b l \<in> F)"
  "(a, l) \<in> (\<lambda>f. (of_s f, of_label f)) ` F \<longleftrightarrow> (\<exists>q b. OwlFact a q b l \<in> F)"
  using ex_fact [of F "\<lambda>_ _ b' l'. b = b' \<and> l = l'"] ex_fact [of F "\<lambda>a' _ _ l'. a = a' \<and> l = l'"]
  by (auto simp: image_iff)

lemma slot_is_some: "slot_is (Some x) a \<longleftrightarrow> x = a" and slot_is_none: "slot_is None a"
  by (simp_all add: slot_is_def)

context kv_engine
begin

text \<open>A scan for one predicate is the part of the full scan that carries its name.\<close>

lemma scan_one_predicate:
  assumes ok: "store_ok E st" and all: "sn_scan_scoped E now st sn None None None Union = Inr quads"
    and out: "sn_scan_scoped E now st sn s (Some p) ob Union = Inr out" and name: "p \<in> own_names st"
  shows "(\<exists>pn e r. (g, Relation a pn b e r) \<in> set out) \<longleftrightarrow>
    slot_is s a \<and> slot_is ob b \<and> (\<exists>e r. (g, Relation a (Predicate p) b e r) \<in> set quads)"
proof -
  have ix: "index_ok (view E (st_db st))" using ok by (simp add: store_ok_def)
  have tab: "hm_get (st_fwd st) n = Some i \<longleftrightarrow> hm_get (st_rev st) i = Some n" for n i
    using ok by (auto simp: store_ok_def pred_table_ok_def table_ok_def)
  note full = scan_scoped_set [OF ix all [unfolded sn_scan_scoped_def]]
    and part = scan_scoped_set [OF ix out [unfolded sn_scan_scoped_def]]
  show ?thesis
  proof
    assume "\<exists>pn e r. (g, Relation a pn b e r) \<in> set out"
    then obtain pn e r i qs qo t v where q: "predicate_id st p = Some i" "slots_match s (Some i) ob (qs, i, qo, g)"
      "in_scope (read_at_of sn) Union (qs, i, qo, g)"
      "live_at (view E (st_db st)) (ra_ts (read_at_of sn)) (vt_or_now (read_at_of sn) now) (qs, i, qo, g) t v"
      "reconstruct E st qs i qo t v = Inr (Relation a pn b e r)"
      unfolding part by (auto simp: slots_match_def slot_is_def)
    from reconstruct_name [OF q(5)] have ids: "a = qs" "b = qo" "hm_get (st_rev st) i = Some (pred_str pn)" by auto
    have "hm_get (st_fwd st) p = Some i" using q(1) name by (simp add: predicate_id_eq own_names_def)
    then have "pn = Predicate p" using ids(3) tab by (cases pn) simp
    moreover have "(g, Relation a pn b e r) \<in> set quads"
      unfolding full by (simp add: slots_match_def slot_is_def) (use q(3-5) in blast)
    ultimately show "slot_is s a \<and> slot_is ob b \<and> (\<exists>e r. (g, Relation a (Predicate p) b e r) \<in> set quads)"
      using q(2) ids by (auto simp: slots_match_def)
  next
    assume r: "slot_is s a \<and> slot_is ob b \<and> (\<exists>e r. (g, Relation a (Predicate p) b e r) \<in> set quads)"
    then obtain e r qs i qo t v where q: "in_scope (read_at_of sn) Union (qs, i, qo, g)"
      "live_at (view E (st_db st)) (ra_ts (read_at_of sn)) (vt_or_now (read_at_of sn) now) (qs, i, qo, g) t v"
      "reconstruct E st qs i qo t v = Inr (Relation a (Predicate p) b e r)"
      unfolding full by (auto simp: slots_match_def)
    from reconstruct_name [OF q(3)] have ids: "a = qs" "b = qo" "hm_get (st_rev st) i = Some p" by auto
    then have i: "predicate_id st p = Some i" using name tab by (simp add: predicate_id_eq own_names_def)
    have "slots_match s (Some i) ob (qs, i, qo, g)" using r ids by (simp add: slots_match_def slot_is_def)
    with i q have "(g, Relation a (Predicate p) b e r) \<in> set out" unfolding part by simp blast
    then show "\<exists>pn e r. (g, Relation a pn b e r) \<in> set out" by blast
  qed
qed

lemma snapshot_facts_iff:
  "OwlFact a p b l \<in> set (snapshot_facts st G quads) \<longleftrightarrow> p \<in> own_names st \<and>
    (\<exists>g e r. (g, Relation a (Predicate p) b e r) \<in> set quads \<and> label_in G g = Some l)"
proof -
  have "quad_fact G x = Some (OwlFact a p b l) \<longleftrightarrow>
      (\<exists>g e r. x = (g, Relation a (Predicate p) b e r) \<and> label_in G g = Some l)" for x
    using predicate.collapse by (cases x; cases "snd x") (auto simp: quad_fact_def)
  then show ?thesis by (auto simp: snapshot_facts_def map_filter_iff)
qed

lemma facts_scan:
  assumes "store_ok E st" and "values_ok E st"
    and "sn_scan_scoped E END_OF_TIME st sn None None None Union = Inr quads" and "p \<in> own_names st"
  shows "\<exists>fs. store_facts_scan E st sn G [] s p ob = Inr fs \<and>
    (\<forall>a q b l. OwlFact a q b l \<in> set fs \<longleftrightarrow>
      q = p \<and> slot_is s a \<and> slot_is ob b \<and> OwlFact a p b l \<in> set (snapshot_facts st G quads))"
proof -
  obtain out where out: "sn_scan_scoped E END_OF_TIME st sn s (Some p) ob Union = Inr out"
    using scan_scoped_total [OF assms(1,2)] unfolding sn_scan_scoped_def by blast
  let ?fact = "\<lambda>(g, t). case t of Relation s' _ ob' _ _ \<Rightarrow> map_option (OwlFact s' p ob') (label_in G g) | _ \<Rightarrow> None"
  have "OwlFact a q b l \<in> set (List.map_filter ?fact out) \<longleftrightarrow>
      q = p \<and> (\<exists>g. label_in G g = Some l \<and> (\<exists>pn e r. (g, Relation a pn b e r) \<in> set out))" for a q b l
  proof -
    have "?fact x = Some (OwlFact a q b l) \<longleftrightarrow>
        (\<exists>g pn e r. x = (g, Relation a pn b e r) \<and> q = p \<and> label_in G g = Some l)" for x
      by (cases x; cases "snd x") auto
    then show ?thesis by (simp only: map_filter_iff Bex_def) blast
  qed
  then show ?thesis
    unfolding scan_one_predicate [OF assms(1,3) out assms(4)] snapshot_facts_iff
    by (intro exI [of _ "List.map_filter ?fact out"]) (auto simp: store_facts_scan_def out assms(4))
qed

text \<open>The store at a snapshot provides the interface of an incremental run.\<close>

lemma store_answers:
  assumes "store_ok E st" and "values_ok E st"
    and "sn_scan_scoped E END_OF_TIME st sn None None None Union = Inr quads"
  shows "fact_answers (store_source E st sn G) (snapshot_facts st G quads) (own_names st)"
proof
  show "of_p f \<in> own_names st" if "f \<in> set (snapshot_facts st G quads)" for f
    using that by (simp add: snapshot_facts_def)
  fix added
  let ?F = "set (snapshot_facts st G quads)" and ?src = "store_source E st sn G [] added"
  note scan = facts_scan [OF assms]
  have "\<exists>out. fs_objects ?src p s = Inr out \<and> (\<forall>ob l. (ob, l) \<in> set out \<longleftrightarrow> OwlFact s p ob l \<in> ?F \<union> set added)"
    if p: "p \<in> own_names st" for p s
  proof -
    obtain fs where fs: "store_facts_scan E st sn G [] (Some s) p None = Inr fs"
      "\<And>a q b l. OwlFact a q b l \<in> set fs \<longleftrightarrow> q = p \<and> slot_is (Some s) a \<and> slot_is None b \<and> OwlFact a p b l \<in> ?F"
      using scan [OF p] by blast
    have "(ob, l) \<in> (\<lambda>f. (of_o f, of_label f)) ` set fs \<longleftrightarrow> OwlFact s p ob l \<in> ?F" for ob l
      by (auto simp: image_facts fs(2) slot_is_some slot_is_none)
    then show ?thesis by (simp add: store_source_def fs(1) mem_objects_iff)
  qed
  moreover have "\<exists>out. fs_subjects ?src p ob = Inr out \<and> (\<forall>s l. (s, l) \<in> set out \<longleftrightarrow> OwlFact s p ob l \<in> ?F \<union> set added)"
    if p: "p \<in> own_names st" for p ob
  proof -
    obtain fs where fs: "store_facts_scan E st sn G [] None p (Some ob) = Inr fs"
      "\<And>a q b l. OwlFact a q b l \<in> set fs \<longleftrightarrow> q = p \<and> slot_is None a \<and> slot_is (Some ob) b \<and> OwlFact a p b l \<in> ?F"
      using scan [OF p] by blast
    have "(s, l) \<in> (\<lambda>f. (of_s f, of_label f)) ` set fs \<longleftrightarrow> OwlFact s p ob l \<in> ?F" for s l
      by (auto simp: image_facts fs(2) slot_is_some slot_is_none)
    then show ?thesis by (simp add: store_source_def fs(1) mem_subjects_iff)
  qed
  moreover have "fs_present ?src f = Inr (present_in (?F \<union> set added) f)" if p: "of_p f \<in> own_names st" for f
  proof -
    obtain s q ob l where f: "f = OwlFact s q ob l" by (cases f)
    obtain fs where fs: "store_facts_scan E st sn G [] (Some s) q (Some ob) = Inr fs"
      "\<And>a q' b l. OwlFact a q' b l \<in> set fs \<longleftrightarrow> q' = q \<and> slot_is (Some s) a \<and> slot_is (Some ob) b \<and> OwlFact a q b l \<in> ?F"
      using scan [of q] p f by auto blast
    have "(\<exists>x\<in>set fs. of_label x = l \<or> l = Cross) \<longleftrightarrow> present_in ?F f"
      unfolding present_in_def f owl_fact.sel
      using ex_fact [of "set fs" "\<lambda>_ _ _ k. k = l \<or> l = Cross"] ex_fact [of ?F "\<lambda>a p b _. a = s \<and> p = q \<and> b = ob"]
      by (auto simp: fs(2) slot_is_some)
    moreover have "present_in (?F \<union> set added) f \<longleftrightarrow> mem_present added f \<or> present_in ?F f"
      by (auto simp: present_in_def mem_present_def)
    ultimately show ?thesis by (simp add: store_source_def fs(1) f list_ex_iff)
  qed
  ultimately show "answers_for (own_names st) ?src (?F \<union> set added)"
    unfolding answers_for_def by blast
qed

end

end
