(* ===== verification/Graph_Access.thy ===== *)
theory Graph_Access
  imports Graph_Ops Schema_Types
begin

text \<open>
  \<open>polargraph-storage/src/graph_acl.rs\<close>: grants on named graphs and the index of what each user may
  read and write. A grant is a relation from the principal to the graph's node in the system graph,
  annotated with its level. The roaring bitmaps are sets of 32-bit numbers, the index's maps are
  association lists.
\<close>


section \<open>Grants\<close>

record graph_grant =
  gg_principal :: node_id
  gg_graph :: graph_id
  gg_level :: access_level

definition node_str :: "'m ext_scheme \<Rightarrow> node_id \<Rightarrow> string" where
  "node_str X n = uuid_fmt X (node_uuid n)"

definition grant_edge :: "'m ext_scheme \<Rightarrow> node_id \<Rightarrow> node_id \<Rightarrow> edge_id" where
  "grant_edge X who node =
    edge_id_for X (node_str X who) BUILTIN_HAS_GRAPH_ACCESS_PRED (node_str X node)"

definition grant_graph_access ::
  "('d, 'm) env_scheme \<Rightarrow> node_id \<Rightarrow> graph_id \<Rightarrow> access_level \<Rightarrow> ('d clocked, unit) op" where
  "grant_graph_access E who g level =
    sbind (on_store (slift (\<lambda>st. ok_or (graph_node E st g)
      (not_named g ''(the default graph needs no grant)'')))) (\<lambda>node.
    sbind (system_graph E) (\<lambda>meta.
    sbind clock_now (\<lambda>from. sbind clock_now (\<lambda>now.
    (let e = grant_edge E who node; r = assert_now now from in
     in_tx E (\<lambda>tx. sret
       (tx_insert_in (EdgeProperty e (Predicate BUILTIN_GRAPH_ACCESS_LEVEL_PRED) (VText (level_str level)) r)
          meta Add
       (tx_insert_in (Relation who (Predicate BUILTIN_HAS_GRAPH_ACCESS_PRED) node e r) meta Add tx))))))))"

definition revoke_graph_access ::
  "('d, 'm) env_scheme \<Rightarrow> node_id \<Rightarrow> graph_id \<Rightarrow> ('d clocked, bool) op" where
  "revoke_graph_access E who g =
    sbind (read_store (\<lambda>st. (graph_node E st g, graph_id_of st SYSTEM_GRAPH_IRI))) (\<lambda>x.
    case x of
      (Some node, Some meta) \<Rightarrow>
        sbind (on_snapshot (\<lambda>st sn. sn_scan_scoped E END_OF_TIME st sn (Some who)
          (Some BUILTIN_HAS_GRAPH_ACCESS_PRED) (Some node) (One meta))) (\<lambda>live.
        if live = [] then sret False
        else sbind clock_now (\<lambda>now.
          sbind (in_tx E (\<lambda>tx. sret (fold (\<lambda>(_, t). tx_insert_in (close_at now t) meta Add) live tx))) (\<lambda>_.
          sret True)))
    | _ \<Rightarrow> sret False)"

text \<open>The level of a grant: its annotation, read by name and parsed, or \<open>Read\<close>.\<close>

definition level_of_annotations :: "edge_annotation list \<Rightarrow> access_level" where
  "level_of_annotations anns =
    (case find (\<lambda>a. pred_str (ann_predicate a) = BUILTIN_GRAPH_ACCESS_LEVEL_PRED) anns of
       None \<Rightarrow> LRead
     | Some a \<Rightarrow>
         (case ann_value a of
            Scalar (VText s) \<Rightarrow> (case level_parse s of None \<Rightarrow> LRead | Some l \<Rightarrow> l)
          | _ \<Rightarrow> LRead))"

definition grant_of ::
  "('d, 'm) env_scheme \<Rightarrow> 'd store \<Rightarrow> timestamp \<Rightarrow> graph_id \<times> triple \<Rightarrow> graph_grant list \<Rightarrow>
    graph_grant list res" where
  "grant_of E st ts = (\<lambda>(_, t) grants.
    case t of
      Relation s _ ob e _ \<Rightarrow>
        (case graph_for_node st ob of
           None \<Rightarrow> Inr grants
         | Some g \<Rightarrow> rbind (scan_edge_annotations E st e ts) (\<lambda>anns.
             Inr (grants @ [\<lparr>gg_principal = s, gg_graph = g, gg_level = level_of_annotations anns\<rparr>])))
    | _ \<Rightarrow> Inr grants)"

definition graph_grants ::
  "('d, 'm) env_scheme \<Rightarrow> timestamp \<Rightarrow> 'd store \<Rightarrow> graph_grant list res" where
  "graph_grants E now st =
    (case graph_id_of st SYSTEM_GRAPH_IRI of
       None \<Rightarrow> Inr []
     | Some meta \<Rightarrow>
         (let ts = read_ts st in
          rbind (sn_scan_scoped E now st (snapshot_new now ts) None (Some BUILTIN_HAS_GRAPH_ACCESS_PRED) None
              (One meta)) (\<lambda>quads.
            rfold (grant_of E st ts) quads [])))"


section \<open>One user's access\<close>

record user_access =
  ua_at_least :: "access_level \<Rightarrow> u32 set"
  ua_readable :: "u32 set"

definition from_levels ::
  "(graph_id \<times> access_level) list \<Rightarrow> (graph_id \<times> graph_id) list \<Rightarrow> user_access" where
  "from_levels levels companions =
    (let at_least = (\<lambda>l. {graph_num g |g lv. (g, lv) \<in> set levels \<and> l \<in> set (filter (\<lambda>l. l \<le> lv) level_ALL)});
         readable = insert (graph_num DEFAULT_GRAPH) (at_least LRead)
     in \<lparr>ua_at_least = at_least,
         ua_readable = fold (\<lambda>(inferred, src) r.
           if graph_num src \<in> r then insert (graph_num inferred) r else r) companions readable\<rparr>)"

definition level_on :: "user_access \<Rightarrow> graph_id \<Rightarrow> access_level option" where
  "level_on u g =
    (if g = DEFAULT_GRAPH then Some LWrite
     else find (\<lambda>l. graph_num g \<in> ua_at_least u l) (rev level_ALL))"

definition graphs_at_least :: "user_access \<Rightarrow> access_level \<Rightarrow> u32 set" where
  "graphs_at_least u l =
    (if l \<le> LWrite then insert (graph_num DEFAULT_GRAPH) (ua_at_least u l) else ua_at_least u l)"

definition allows :: "user_access \<Rightarrow> graph_id \<Rightarrow> access_level \<Rightarrow> bool" where
  "allows u g l \<longleftrightarrow> (case level_on u g of None \<Rightarrow> False | Some lv \<Rightarrow> lv \<ge> l)"


section \<open>The index\<close>

record access_index =
  ai_users :: "(node_id \<times> user_access) list"
  ai_no_grants :: user_access

definition access_index_default :: access_index where
  "access_index_default = \<lparr>ai_users = [], ai_no_grants = from_levels [] []\<rparr>"

type_synonym graph_levels = "(graph_id \<times> access_level) list"

text \<open>\<open>let slot = levels.entry(g).or_insert(level); *slot = (*slot).max(level)\<close>.\<close>

definition raise :: "graph_id \<times> access_level \<Rightarrow> graph_levels \<Rightarrow> graph_levels" where
  "raise = (\<lambda>(g, l) levels.
    hm_insert g (max (case hm_get levels g of None \<Rightarrow> l | Some l0 \<Rightarrow> l0) l) levels)"

definition levels_or_default :: "(node_id \<times> graph_levels) list \<Rightarrow> node_id \<Rightarrow> graph_levels" where
  "levels_or_default direct n = (case hm_get direct n of None \<Rightarrow> [] | Some ls \<Rightarrow> ls)"

definition direct_levels :: "graph_grant list \<Rightarrow> (node_id \<times> graph_levels) list" where
  "direct_levels grants = fold (\<lambda>gr direct.
    hm_insert (gg_principal gr) (raise (gg_graph gr, gg_level gr) (levels_or_default direct (gg_principal gr)))
      direct) grants []"

definition groups_or_default :: "(node_id \<times> node_id list) list \<Rightarrow> node_id \<Rightarrow> node_id list" where
  "groups_or_default gs n = (case hm_get gs n of None \<Rightarrow> [] | Some xs \<Rightarrow> xs)"

definition groups_of_members :: "triple list \<Rightarrow> (node_id \<times> node_id list) list" where
  "groups_of_members ts = fold (\<lambda>t gs.
    case t of
      Relation s _ ob _ _ \<Rightarrow> hm_insert s (groups_or_default gs s @ [ob]) gs
    | _ \<Rightarrow> gs) ts []"

definition user_levels ::
  "(node_id \<times> graph_levels) list \<Rightarrow> (node_id \<times> node_id list) list \<Rightarrow> node_id \<Rightarrow> graph_levels" where
  "user_levels direct groups n =
    fold (\<lambda>group levels. fold raise (levels_or_default direct group) levels) (groups_or_default groups n)
      (levels_or_default direct n)"

definition build_index ::
  "graph_grant list \<Rightarrow> triple list \<Rightarrow> (graph_id \<times> graph_id) list \<Rightarrow> access_index" where
  "build_index grants members companions =
    (let direct = direct_levels grants;
         groups = groups_of_members members;
         principals = remdups (map fst direct @ map fst groups)
     in \<lparr>ai_users = map (\<lambda>n. (n, from_levels (user_levels direct groups n) companions)) principals,
         ai_no_grants = from_levels [] companions\<rparr>)"

text \<open>\<open>companions\<close>: the pairs of \<open>InferredGraphs\<close> (\<open>Owl_Rl\<close>).\<close>

definition build ::
  "('d, 'm) env_scheme \<Rightarrow> timestamp \<Rightarrow> (graph_id \<times> graph_id) list \<Rightarrow> 'd store \<Rightarrow> access_index res" where
  "build E now companions st =
    rbind (graph_grants E now st) (\<lambda>grants.
    rbind (scan_by_predicate E now st BUILTIN_MEMBER_OF_PRED) (\<lambda>members.
    Inr (build_index grants members companions)))"

definition for_user :: "access_index \<Rightarrow> node_id \<Rightarrow> user_access" where
  "for_user idx u = (case hm_get (ai_users idx) u of Some a \<Rightarrow> a | None \<Rightarrow> ai_no_grants idx)"


section \<open>What the index says\<close>

text \<open>A principal's own grants and those of the groups it is a member of.\<close>

definition granted :: "graph_grant list \<Rightarrow> triple list \<Rightarrow> node_id \<Rightarrow> graph_id \<Rightarrow> access_level \<Rightarrow> bool" where
  "granted grants members u g l \<longleftrightarrow>
    (\<exists>gr\<in>set grants. gg_graph gr = g \<and> l \<le> gg_level gr \<and>
      (gg_principal gr = u \<or> (\<exists>p e r. Relation u p (gg_principal gr) e r \<in> set members)))"

lemma level_ALL_complete: "l \<in> set level_ALL"
  by (cases l) (simp_all add: level_ALL_def)

text \<open>The levels a map holds, closed downwards.\<close>

definition reaches :: "graph_levels \<Rightarrow> graph_id \<Rightarrow> access_level \<Rightarrow> bool" where
  "reaches levels g l \<longleftrightarrow> (\<exists>lv. hm_get levels g = Some lv \<and> l \<le> lv)"

lemma reaches_raise:
  "reaches (raise (g, l) levels) h k \<longleftrightarrow> reaches levels h k \<or> (h = g \<and> k \<le> l)"
  by (auto simp: reaches_def raise_def hm_get_insert le_max_iff_disj split: option.splits)

lemma raise_distinct: "distinct (map fst levels) \<Longrightarrow> distinct (map fst (raise x levels))"
  by (cases x) (simp add: raise_def hm_distinct_insert)

lemma reaches_fold_raise:
  "reaches (fold raise xs levels) h k \<longleftrightarrow> reaches levels h k \<or> (\<exists>l. (h, l) \<in> set xs \<and> k \<le> l)"
proof (induction xs arbitrary: levels)
  case (Cons x xs)
  obtain g l where "x = (g, l)" by (cases x)
  with Cons show ?case by (auto simp: reaches_raise)
qed simp

lemma fold_raise_distinct: "distinct (map fst levels) \<Longrightarrow> distinct (map fst (fold raise xs levels))"
  by (induction xs arbitrary: levels) (simp_all add: raise_distinct)

lemma reaches_set:
  "distinct (map fst levels) \<Longrightarrow> reaches levels g l \<longleftrightarrow> (\<exists>lv. (g, lv) \<in> set levels \<and> l \<le> lv)"
  by (simp add: reaches_def hm_get_iff_set)

lemma direct_levels_snoc:
  "direct_levels (grants @ [gr]) = hm_insert (gg_principal gr)
    (raise (gg_graph gr, gg_level gr) (levels_or_default (direct_levels grants) (gg_principal gr)))
    (direct_levels grants)"
  by (simp add: direct_levels_def)

lemma direct_levels_spec:
  "distinct (map fst (levels_or_default (direct_levels grants) n)) \<and>
    (reaches (levels_or_default (direct_levels grants) n) g l \<longleftrightarrow>
      (\<exists>gr\<in>set grants. gg_principal gr = n \<and> gg_graph gr = g \<and> l \<le> gg_level gr))"
proof (induction grants rule: rev_induct)
  case Nil
  show ?case by (simp add: direct_levels_def levels_or_default_def reaches_def)
next
  case (snoc gr grants)
  have ins: "levels_or_default (direct_levels (grants @ [gr])) n =
      (if n = gg_principal gr then raise (gg_graph gr, gg_level gr) (levels_or_default (direct_levels grants) n)
       else levels_or_default (direct_levels grants) n)"
    unfolding direct_levels_snoc by (simp add: levels_or_default_def hm_get_insert)
  show ?case unfolding ins using snoc by (auto simp: raise_distinct reaches_raise)
qed

lemma groups_of_spec:
  "x \<in> set (groups_or_default (groups_of_members ts) u) \<longleftrightarrow> (\<exists>p e r. Relation u p x e r \<in> set ts)"
proof (induction ts rule: rev_induct)
  case Nil
  show ?case by (simp add: groups_of_members_def groups_or_default_def)
next
  case (snoc t ts)
  have "groups_of_members (ts @ [t]) = (case t of
      Relation s _ ob _ _ \<Rightarrow> hm_insert s (groups_or_default (groups_of_members ts) s @ [ob]) (groups_of_members ts)
    | _ \<Rightarrow> groups_of_members ts)"
    by (cases t) (simp_all add: groups_of_members_def)
  with snoc show ?case
    by (cases t) (auto simp: groups_or_default_def hm_get_insert split: option.splits)
qed

lemma user_levels_spec:
  "distinct (map fst (user_levels (direct_levels grants) (groups_of_members ts) u)) \<and>
    (reaches (user_levels (direct_levels grants) (groups_of_members ts) u) g l \<longleftrightarrow> granted grants ts u g l)"
proof -
  let ?d = "direct_levels grants"
  have groups: "distinct (map fst (fold (\<lambda>group levels. fold raise (levels_or_default ?d group) levels) gs levels)) \<and>
      (reaches (fold (\<lambda>group levels. fold raise (levels_or_default ?d group) levels) gs levels) g l \<longleftrightarrow>
        reaches levels g l \<or> (\<exists>x\<in>set gs. reaches (levels_or_default ?d x) g l))"
    if "distinct (map fst levels)" for gs levels
    using that
  proof (induction gs arbitrary: levels)
    case (Cons x gs)
    let ?ls = "fold raise (levels_or_default ?d x) levels"
    have "distinct (map fst (levels_or_default ?d x))" using direct_levels_spec by blast
    then have "reaches ?ls g l \<longleftrightarrow> reaches levels g l \<or> reaches (levels_or_default ?d x) g l"
      by (simp add: reaches_fold_raise reaches_set)
    with Cons.IH [OF fold_raise_distinct [OF Cons.prems]] show ?case by auto
  qed simp
  have "distinct (map fst (levels_or_default ?d u))" using direct_levels_spec by blast
  note all = groups [OF this, of "groups_or_default (groups_of_members ts) u"]
  have own: "reaches (levels_or_default ?d x) g l \<longleftrightarrow>
      (\<exists>gr\<in>set grants. gg_principal gr = x \<and> gg_graph gr = g \<and> l \<le> gg_level gr)" for x
    using direct_levels_spec by blast
  have "(\<exists>x\<in>set (groups_or_default (groups_of_members ts) u). reaches (levels_or_default ?d x) g l) \<longleftrightarrow>
      (\<exists>gr\<in>set grants. gg_graph gr = g \<and> l \<le> gg_level gr \<and> (\<exists>p e r. Relation u p (gg_principal gr) e r \<in> set ts))"
    unfolding Bex_def groups_of_spec own by blast
  with all own [of u] show ?thesis
    unfolding user_levels_def granted_def by blast
qed


lemma level_filter: "l \<in> set (filter (\<lambda>l. l \<le> lv) level_ALL) \<longleftrightarrow> l \<le> lv"
  using level_ALL_complete by simp

lemma graph_num_inject: "graph_num g = graph_num h \<longleftrightarrow> g = h"
  by (auto intro: graph_id.expand)

lemma at_least_spec:
  "graph_num g \<in> ua_at_least (from_levels levels companions) l \<longleftrightarrow> (\<exists>lv. (g, lv) \<in> set levels \<and> l \<le> lv)"
  unfolding from_levels_def Let_def level_filter by (auto simp: graph_num_inject)

lemma level_on_spec:
  assumes "g \<noteq> DEFAULT_GRAPH"
  shows "(case level_on (from_levels levels companions) g of None \<Rightarrow> False | Some k \<Rightarrow> k \<ge> l) \<longleftrightarrow>
    (\<exists>lv. (g, lv) \<in> set levels \<and> l \<le> lv)"
proof -
  let ?u = "from_levels levels companions"
  have rank: "a \<le> b \<longleftrightarrow> level_rank a \<le> level_rank b" for a b by (simp add: less_eq_access_level_def)
  have down: "graph_num g \<in> ua_at_least ?u a" if "graph_num g \<in> ua_at_least ?u b" "a \<le> b" for a b
    using that unfolding at_least_spec by (blast intro: order_trans)
  have "(case find (\<lambda>l. graph_num g \<in> ua_at_least ?u l) (rev level_ALL) of None \<Rightarrow> False | Some k \<Rightarrow> k \<ge> l) \<longleftrightarrow>
      graph_num g \<in> ua_at_least ?u l"
    using down [of LAdmin LWrite] down [of LWrite LPropose] down [of LPropose LRead]
    by (cases l) (auto simp: level_ALL_def rank)
  then show ?thesis using assms by (simp add: level_on_def at_least_spec)
qed

text \<open>
  Readable graphs: the default graph, the granted ones, and the inferred graphs whose source is. A
  source that is itself the inferred graph of another would make the result depend on the order of
  the pairs.
\<close>

lemma companions_fold:
  assumes "\<And>a b a' b'. (a, b) \<in> set cs \<Longrightarrow> (a', b') \<in> set cs \<Longrightarrow> b \<noteq> a'"
  shows "x \<in> fold (\<lambda>(inferred, src) r. if graph_num src \<in> r then insert (graph_num inferred) r else r) cs R \<longleftrightarrow>
    x \<in> R \<or> (\<exists>a b. (a, b) \<in> set cs \<and> graph_num b \<in> R \<and> x = graph_num a)"
  using assms
proof (induction cs arbitrary: R)
  case (Cons c cs)
  obtain a b where c: "c = (a, b)" by (cases c)
  let ?R = "if graph_num b \<in> R then insert (graph_num a) R else R"
  have src: "graph_num b' \<in> ?R \<longleftrightarrow> graph_num b' \<in> R" if "(a', b') \<in> set cs" for a' b'
    using Cons.prems [of a' b' a b] that c by (auto simp: graph_num_inject)
  have "x \<in> fold (\<lambda>(inferred, src) r. if graph_num src \<in> r then insert (graph_num inferred) r else r) cs ?R \<longleftrightarrow>
      x \<in> ?R \<or> (\<exists>a b. (a, b) \<in> set cs \<and> graph_num b \<in> ?R \<and> x = graph_num a)"
    by (rule Cons.IH) (use Cons.prems in \<open>metis list.set_intros(2)\<close>)
  also have "\<dots> \<longleftrightarrow> x \<in> ?R \<or> (\<exists>a b. (a, b) \<in> set cs \<and> graph_num b \<in> R \<and> x = graph_num a)"
    using src by blast
  finally show ?case by (auto simp: c)
qed simp

lemma readable_spec:
  assumes "\<And>a b a' b'. (a, b) \<in> set companions \<Longrightarrow> (a', b') \<in> set companions \<Longrightarrow> b \<noteq> a'"
  shows "graph_num g \<in> ua_readable (from_levels levels companions) \<longleftrightarrow>
    g = DEFAULT_GRAPH \<or> (\<exists>lv. (g, lv) \<in> set levels) \<or>
    (\<exists>src. (g, src) \<in> set companions \<and> (src = DEFAULT_GRAPH \<or> (\<exists>lv. (src, lv) \<in> set levels)))"
proof -
  let ?R = "insert (graph_num DEFAULT_GRAPH) (ua_at_least (from_levels levels companions) LRead)"
  have "LRead \<le> lv" for lv by (cases lv) (simp_all add: less_eq_access_level_def)
  then have R: "graph_num h \<in> ?R \<longleftrightarrow> h = DEFAULT_GRAPH \<or> (\<exists>lv. (h, lv) \<in> set levels)" for h
    unfolding insert_iff at_least_spec by (auto simp: graph_num_inject)
  have "graph_num g \<in> ua_readable (from_levels levels companions) \<longleftrightarrow> graph_num g \<in> ?R \<or>
      (\<exists>a b. (a, b) \<in> set companions \<and> graph_num b \<in> ?R \<and> graph_num g = graph_num a)"
    using companions_fold [OF assms, where x = "graph_num g" and R = ?R] by (simp add: from_levels_def Let_def)
  also have "\<dots> \<longleftrightarrow> graph_num g \<in> ?R \<or> (\<exists>b. (g, b) \<in> set companions \<and> graph_num b \<in> ?R)"
    by (auto simp: graph_num_inject)
  finally show ?thesis unfolding R by blast
qed

lemma for_user_levels:
  "\<exists>levels. for_user (build_index grants members companions) u = from_levels levels companions \<and>
    (\<forall>g l. (\<exists>lv. (g, lv) \<in> set levels \<and> l \<le> lv) \<longleftrightarrow> granted grants members u g l)"
proof -
  let ?d = "direct_levels grants" and ?g = "groups_of_members members"
  let ?ls = "user_levels ?d ?g u"
  let ?ps = "remdups (map fst ?d @ map fst ?g)"
  have exact: "(\<exists>lv. (g, lv) \<in> set ?ls \<and> l \<le> lv) \<longleftrightarrow> granted grants members u g l" for g l
    using user_levels_spec [of grants members u g l] reaches_set [of ?ls g l] by blast
  have "hm_get (map (\<lambda>n. (n, f n)) ps) u = (if u \<in> set ps then Some (f u) else None)" for f :: "node_id \<Rightarrow> user_access" and ps
    by (induction ps) (auto simp: hm_get_def)
  then have get: "for_user (build_index grants members companions) u =
      (if u \<in> set ?ps then from_levels ?ls companions else from_levels [] companions)"
    by (simp add: for_user_def build_index_def Let_def)
  have "?ls = []" if "u \<notin> set ?ps"
  proof -
    have "hm_get ?d u = None" "hm_get ?g u = None"
      using that by (auto simp: hm_get_def map_of_eq_None_iff)
    then show ?thesis by (simp add: user_levels_def levels_or_default_def groups_or_default_def)
  qed
  then have "for_user (build_index grants members companions) u = from_levels ?ls companions"
    using get by auto
  with exact show ?thesis by blast
qed

end
