(* ===== verification/Service_Guards.thy ===== *)
theory Service_Guards
  imports Graph_Access Owl_Rl Datalog
begin

text \<open>
  The checks every write of the gRPC service passes (\<open>polargraph-server/src/service.rs\<close>), the access
  filter of query results, and the handler that deletes triples. \<open>caller_access\<close> gives no access
  record to a service call and a user's record otherwise. A status that wraps a storage error keeps
  the error; the decoding of requests into values is left out.
\<close>


section \<open>Status\<close>

datatype status =
    PermissionDenied string
  | InvalidArgument string
  | NotFoundStatus string
  | FailedPrecondition string
  | StorageAborted storage_error
  | StorageInternal storage_error
  | StoragePrecondition storage_error
  | StorageExists storage_error

type_synonym 'a reply = "status + 'a"

fun storage_err_to_status :: "storage_error \<Rightarrow> status" where
  "storage_err_to_status (WriteConflict n p) = StorageAborted (WriteConflict n p)"
| "storage_err_to_status (Rocks m) = StorageInternal (Rocks m)"
| "storage_err_to_status (Serde m) = StorageInternal (Serde m)"
| "storage_err_to_status (MissingCf m) = StorageInternal (MissingCf m)"
| "storage_err_to_status (KeyDecode m) = StorageInternal (KeyDecode m)"
| "storage_err_to_status (IoError m) = StorageInternal (IoError m)"
| "storage_err_to_status (ReadOnly m) = StoragePrecondition (ReadOnly m)"
| "storage_err_to_status (ValidationError m) = StoragePrecondition (ValidationError m)"
| "storage_err_to_status NeedsMigration = StoragePrecondition NeedsMigration"
| "storage_err_to_status (UnsupportedFormat v) = StoragePrecondition (UnsupportedFormat v)"
| "storage_err_to_status (IriCollision n a b) = StorageExists (IriCollision n a b)"

definition replica_not_writable :: status where
  "replica_not_writable = FailedPrecondition ''write operations are not supported on a read replica''"

definition check_not_replica :: "('d, 's) store_scheme \<Rightarrow> unit reply" where
  "check_not_replica st = (if is_replica st then Inl replica_not_writable else Inr ())"


section \<open>Callers\<close>

definition principal_node :: "'m ext_scheme \<Rightarrow> string \<Rightarrow> node_id reply" where
  "principal_node X s =
    (if s = [] then Inl (InvalidArgument ''principal must not be empty'')
     else Inr (case uuid_parse X s of Some u \<Rightarrow> NodeId u | None \<Rightarrow> iri_to_node_id X s))"

definition resolve_user_id :: "string \<Rightarrow> string \<Rightarrow> string" where
  "resolve_user_id field meta = (if field \<noteq> [] then field else meta)"

text \<open>A new index, the old one when the store cannot be read.\<close>

definition rebuild_graph_access ::
  "('d, 'm) env_scheme \<Rightarrow> strings_codec \<Rightarrow> timestamp \<Rightarrow> 'd store \<Rightarrow> access_index \<Rightarrow> access_index" where
  "rebuild_graph_access E C now st idx =
    (case build E now (companions (load_inferred E C st)) st of Inl _ \<Rightarrow> idx | Inr new \<Rightarrow> new)"

text \<open>The index as it stands; on a replica it may be rebuilt before.\<close>

definition caller_access :: "'m ext_scheme \<Rightarrow> access_index \<Rightarrow> string \<Rightarrow> user_access option" where
  "caller_access X idx user_id =
    (if user_id = [] then None
     else case principal_node X user_id of Inl _ \<Rightarrow> None | Inr u \<Rightarrow> Some (for_user idx u))"


section \<open>Guards\<close>

definition BUILTIN_HAS_ACCESS_TYPE_PRED :: string where "BUILTIN_HAS_ACCESS_TYPE_PRED = ''HAS_ACCESS_TYPE''"

definition ACCESS_CONTROL_PREDS :: "string list" where
  "ACCESS_CONTROL_PREDS = [BUILTIN_MEMBER_OF_PRED, BUILTIN_HAS_ACCESS_PRED, BUILTIN_HAS_ACCESS_TYPE_PRED,
    BUILTIN_HAS_GRAPH_ACCESS_PRED, BUILTIN_GRAPH_ACCESS_LEVEL_PRED]"

definition reject_user_acl_writes :: "user_access option \<Rightarrow> string list \<Rightarrow> unit reply" where
  "reject_user_acl_writes access preds =
    (if access = None then Inr ()
     else case find (\<lambda>p. p \<in> set ACCESS_CONTROL_PREDS) preds of
       Some p \<Rightarrow> Inl (PermissionDenied
         (p @ '' triples are access control and can only be written by a service call''))
     | None \<Rightarrow> Inr ())"

definition reject_inferred_graph :: "string \<Rightarrow> unit reply" where
  "reject_inferred_graph iri =
    (if is_inferred_graph_iri iri
     then Inl (PermissionDenied (''<'' @ iri @ ''> is an inferred graph; it is written by OWL RL inference only''))
     else Inr ())"

definition require_service :: "user_access option \<Rightarrow> unit reply" where
  "require_service access =
    (case access of
       Some _ \<Rightarrow> Inl (PermissionDenied ''this RPC is limited to service calls (no user id)'')
     | None \<Rightarrow> Inr ())"

definition require_level :: "user_access option \<Rightarrow> graph_id \<Rightarrow> access_level \<Rightarrow> string \<Rightarrow> unit reply" where
  "require_level access g level name =
    (case access of
       Some a \<Rightarrow> if \<not> allows a g level
         then Inl (PermissionDenied (level_str level @ '' access to graph <'' @ name @ ''> required''))
         else Inr ()
     | None \<Rightarrow> Inr ())"

type_synonym ('s, 'a) rpc = "'s \<Rightarrow> 'a reply \<times> 's"

definition store_reply :: "('s, 'a) op \<Rightarrow> ('s, 'a) rpc" where
  "store_reply m s = (case m s of (Inl e, s') \<Rightarrow> (Inl (storage_err_to_status e), s') | (Inr x, s') \<Rightarrow> (Inr x, s'))"

text \<open>A graph named by a request: the empty name is the default graph.\<close>

definition existing_graph :: "('d, 's) store_scheme \<Rightarrow> string \<Rightarrow> graph_id reply" where
  "existing_graph st iri =
    (if iri = [] then Inr DEFAULT_GRAPH
     else case graph_id_of st iri of
       Some g \<Rightarrow> Inr g
     | None \<Rightarrow> Inl (NotFoundStatus (''unknown graph: '' @ iri)))"


section \<open>Filtering of results\<close>

definition filter_bindings ::
  "(string \<times> node_id) list list \<Rightarrow> node_id set option \<Rightarrow> (string \<times> node_id) list list" where
  "filter_bindings results allowed =
    (case allowed of None \<Rightarrow> results | Some A \<Rightarrow> filter (\<lambda>b. list_all (\<lambda>(_, n). n \<in> A) b) results)"

definition filter_bindings_full :: "solution list \<Rightarrow> node_id set option \<Rightarrow> solution list" where
  "filter_bindings_full results allowed =
    (case allowed of None \<Rightarrow> results | Some A \<Rightarrow> filter (\<lambda>s. ran (sol_nodes s) \<subseteq> A) results)"


section \<open>Write targets\<close>

definition target_graph :: "('d, 'm) env_scheme \<Rightarrow> string \<Rightarrow> ('d clocked, graph_id) rpc" where
  "target_graph E iri c =
    (if iri = [] then (Inr DEFAULT_GRAPH, c)
     else case reject_inferred_graph iri of
       Inl e \<Rightarrow> (Inl e, c)
     | Inr _ \<Rightarrow> store_reply (create_graph E iri []) c)"

definition graph_for ::
  "('d, 'm) env_scheme \<Rightarrow> user_access option \<Rightarrow> string \<Rightarrow> access_level \<Rightarrow> bool \<Rightarrow> ('d clocked, graph_id) rpc" where
  "graph_for E access iri level create c =
    (case if LPropose \<le> level then reject_inferred_graph iri else Inr () of
       Inl e \<Rightarrow> (Inl e, c)
     | Inr _ \<Rightarrow>
         if access = None
         then if create then target_graph E iri c else (existing_graph (ck_store c) iri, c)
         else
          (case existing_graph (ck_store c) iri of
             Inl (NotFoundStatus _) \<Rightarrow> (Inl (PermissionDenied (level_str level @ '' access to graph <'' @ iri @
               ''> required (create it with CreateGraph first)'')), c)
           | Inl e \<Rightarrow> (Inl e, c)
           | Inr g \<Rightarrow> (case require_level access g level iri of Inl e \<Rightarrow> (Inl e, c) | Inr _ \<Rightarrow> (Inr g, c))))"


section \<open>DeleteTriples\<close>

text \<open>The request, its graph term resolved to a scope.\<close>

record delete_request =
  dr_subjects :: "node_id list"
  dr_predicate :: string
  dr_object :: "node_id option"
  dr_value :: "value option"
  dr_vt_end :: timestamp

fun delete_selects :: "node_id option \<Rightarrow> value option \<Rightarrow> triple \<Rightarrow> bool" where
  "delete_selects ob v (Relation _ _ o' _ _) \<longleftrightarrow> v = None \<and> (case ob of None \<Rightarrow> True | Some x \<Rightarrow> x = o')"
| "delete_selects ob v (Property _ _ v' _) \<longleftrightarrow> ob = None \<and> (case v of None \<Rightarrow> True | Some x \<Rightarrow> value_eq x v')"
| "delete_selects ob v _ \<longleftrightarrow> False"

fun deleted_at :: "timestamp \<Rightarrow> timestamp \<Rightarrow> triple \<Rightarrow> triple" where
  "deleted_at until now (Relation s p ob e t) = Relation s p ob e (t\<lparr>vt_end := until, tt := now\<rparr>)"
| "deleted_at until now (Property s p v t) = Property s p v (t\<lparr>vt_end := until, tt := now\<rparr>)"
| "deleted_at until now other = other"

definition delete_quads :: "delete_request \<Rightarrow> (graph_id \<times> triple) list \<Rightarrow> (graph_id \<times> triple) list" where
  "delete_quads req =
    filter (\<lambda>(_, t). delete_selects (dr_object req) (dr_value req) t \<and> vt_end (triple_temporal t) = END_OF_TIME)"

definition buffer_delete :: "timestamp \<Rightarrow> graph_id \<times> triple \<Rightarrow> transaction \<Rightarrow> ('d clocked, transaction) op" where
  "buffer_delete until = (\<lambda>(g, t) tx. sbind clock_now (\<lambda>now. sret (tx_insert_in (deleted_at until now t) g Add tx)))"

definition delete_subject ::
  "('d, 'm) env_scheme \<Rightarrow> string \<Rightarrow> delete_request \<Rightarrow> graph_scope \<Rightarrow> timestamp \<Rightarrow> snapshot \<Rightarrow> node_id \<Rightarrow> nat \<Rightarrow>
    ('d clocked, nat) op" where
  "delete_subject E author req scope until sn subject count =
    sbind (on_store (slift (\<lambda>st. sn_scan_scoped E END_OF_TIME st sn (Some subject)
      (if dr_predicate req = [] then None else Some (dr_predicate req)) None scope))) (\<lambda>quads.
    (let closing = delete_quads req quads in
     sbind (in_tx E (\<lambda>tx. smapM (buffer_delete until) closing (set_author author tx))) (\<lambda>_.
     sret (count + length closing))))"

text \<open>A user only closes triples in graphs it can write.\<close>

definition writable_scope :: "user_access option \<Rightarrow> graph_scope \<Rightarrow> graph_scope reply" where
  "writable_scope access scope =
    (case access of
       None \<Rightarrow> Inr scope
     | Some a \<Rightarrow>
         (case scope of
            One g \<Rightarrow> (case require_level access g LWrite (''g'' @ nat_str (unat (graph_num g))) of
                Inl e \<Rightarrow> Inl e | Inr _ \<Rightarrow> Inr (One g))
          | other \<Rightarrow> Inr (scope_set (filter (admits other) (map GraphId (sorted_list_of_set (graphs_at_least a LWrite)))))))"

definition delete_triples ::
  "('d, 'm) env_scheme \<Rightarrow> user_access option \<Rightarrow> string \<Rightarrow> graph_scope \<Rightarrow> delete_request \<Rightarrow> ('d clocked, nat) rpc" where
  "delete_triples E access author scope req c =
    (case check_not_replica (ck_store c) of Inl e \<Rightarrow> (Inl e, c) | Inr _ \<Rightarrow>
     case reject_user_acl_writes access [dr_predicate req] of Inl e \<Rightarrow> (Inl e, c) | Inr _ \<Rightarrow>
     if dr_object req \<noteq> None \<and> dr_value req \<noteq> None
     then (Inl (InvalidArgument ''object_id and value are mutually exclusive''), c)
     else case writable_scope access scope of Inl e \<Rightarrow> (Inl e, c) | Inr scope' \<Rightarrow>
       store_reply
        (sbind (if dr_vt_end req = Timestamp 0 then clock_now else sret (dr_vt_end req)) (\<lambda>until.
         sbind snapshot_now (\<lambda>sn.
         smapM (delete_subject E author req scope' until sn) (dr_subjects req) 0))) c)"

end
