(* ===== verification/Access_Claims.thy ===== *)
theory Access_Claims
  imports Demo Service_Guards
begin

text \<open>
  What access control guarantees: the index gives a user exactly what was granted, and the guard on
  predicate names is a guard on what is stored.
\<close>


section \<open>Levels\<close>

definition demo_grants :: "graph_grant list" where
  "demo_grants = [\<lparr>gg_principal = NodeId 50, gg_graph = GraphId 3, gg_level = LPropose\<rparr>]"

definition demo_member :: triple where
  "demo_member = Relation (NodeId 9) (Predicate BUILTIN_MEMBER_OF_PRED) (NodeId 50) (EdgeId 1) (open_from (Timestamp 0))"

definition demo_members :: "triple list" where
  "demo_members = [demo_member]"

text \<open>C39. The index gives a user what was granted and nothing else. On a named graph a level is
  allowed exactly when a grant of at least that level was given to the user or to a group the user
  is a member of; on the default graph exactly up to write. Readable are the default graph, the graphs
  with a grant, and the inferred graphs whose source graph is readable.\<close>

theorem access_exact:
  fixes u :: node_id and grants :: "graph_grant list" and members :: "triple list"
  assumes "\<forall>(a, b)\<in>set pairs. \<forall>(a', b')\<in>set pairs. b \<noteq> a'"
  defines "ua \<equiv> for_user (build_index grants members pairs) u"
  shows "(g \<noteq> DEFAULT_GRAPH \<longrightarrow> (allows ua g l \<longleftrightarrow> granted grants members u g l) \<and>
      (graph_num g \<in> graphs_at_least ua l \<longleftrightarrow> granted grants members u g l)) \<and>
    (allows ua DEFAULT_GRAPH l \<longleftrightarrow> l \<le> LWrite) \<and>
    (graph_num g \<in> ua_readable ua \<longleftrightarrow> g = DEFAULT_GRAPH \<or> granted grants members u g LRead \<or>
      (\<exists>src. (g, src) \<in> set pairs \<and> (src = DEFAULT_GRAPH \<or> granted grants members u src LRead)))"
proof -
  obtain levels where ua: "ua = from_levels levels pairs"
    and levels: "\<And>h k. (\<exists>lv. (h, lv) \<in> set levels \<and> k \<le> lv) \<longleftrightarrow> granted grants members u h k"
    unfolding ua_def using for_user_levels by metis
  have "LRead \<le> lv" for lv by (cases lv) (simp_all add: less_eq_access_level_def)
  then have read: "(\<exists>lv. (h, lv) \<in> set levels) \<longleftrightarrow> granted grants members u h LRead" for h
    using levels [of h LRead] by simp
  have "graph_num g \<in> graphs_at_least ua l \<longleftrightarrow> granted grants members u g l" if "g \<noteq> DEFAULT_GRAPH"
    using that unfolding graphs_at_least_def ua levels [symmetric]
    by (simp add: at_least_spec graph_num_inject)
  moreover have "allows ua g l \<longleftrightarrow> granted grants members u g l" if "g \<noteq> DEFAULT_GRAPH"
    unfolding allows_def ua level_on_spec [OF that] levels ..
  moreover have "allows ua DEFAULT_GRAPH l \<longleftrightarrow> l \<le> LWrite"
    by (simp add: allows_def level_on_def)
  moreover have "graph_num g \<in> ua_readable ua \<longleftrightarrow> g = DEFAULT_GRAPH \<or> granted grants members u g LRead \<or>
      (\<exists>src. (g, src) \<in> set pairs \<and> (src = DEFAULT_GRAPH \<or> granted grants members u src LRead))"
    unfolding ua read [symmetric] by (rule readable_spec) (use assms(1) in blast)
  ultimately show ?thesis by blast
qed

theorem access_exact_witness:
  "allows (for_user (build_index demo_grants demo_members [(GraphId 7, GraphId 3)]) (NodeId 9)) (GraphId 3) LPropose \<and>
    \<not> allows (for_user (build_index demo_grants demo_members [(GraphId 7, GraphId 3)]) (NodeId 9)) (GraphId 3) LWrite \<and>
    graph_num (GraphId 7) \<in> ua_readable (for_user (build_index demo_grants demo_members [(GraphId 7, GraphId 3)]) (NodeId 9))"
proof -
  have comp: "\<forall>(a, b)\<in>set [(GraphId 7, GraphId 3)]. \<forall>(a', b')\<in>set [(GraphId 7, GraphId 3)]. b \<noteq> a'" by simp
  have "granted demo_grants demo_members (NodeId 9) (GraphId 3) LPropose"
    "\<not> granted demo_grants demo_members (NodeId 9) (GraphId 3) LWrite"
    "granted demo_grants demo_members (NodeId 9) (GraphId 3) LRead"
    by (simp_all add: granted_def demo_grants_def demo_members_def demo_member_def less_eq_access_level_def)
  then show ?thesis
    using access_exact [OF comp, where g = "GraphId 3" and l = LPropose and grants = demo_grants and members = demo_members and u = "NodeId 9"]
      access_exact [OF comp, where g = "GraphId 3" and l = LWrite and grants = demo_grants and members = demo_members and u = "NodeId 9"]
      access_exact [OF comp, where g = "GraphId 7" and l = LRead and grants = demo_grants and members = demo_members and u = "NodeId 9"]
    by (simp add: DEFAULT_GRAPH_def)
qed


section \<open>The guard on access-control triples\<close>

lemmas acl_defs = ACCESS_CONTROL_PREDS_def BUILTIN_MEMBER_OF_PRED_def BUILTIN_HAS_ACCESS_PRED_def
  BUILTIN_HAS_ACCESS_TYPE_PRED_def BUILTIN_HAS_GRAPH_ACCESS_PRED_def BUILTIN_GRAPH_ACCESS_LEVEL_PRED_def

lemma guarded_builtin: "set ACCESS_CONTROL_PREDS = set BUILTIN_PREDICATES"
  by (simp add: acl_defs BUILTIN_PREDICATES_def)

lemma canonical_acl:
  assumes "vocabulary_ok (st_vocab st)"
  shows "canonical_name st p \<in> set ACCESS_CONTROL_PREDS \<longleftrightarrow> p \<in> set ACCESS_CONTROL_PREDS"
proof -
  have acl: "\<not> is_bare p \<and> CHR '':'' \<notin> set p" if "p \<in> set ACCESS_CONTROL_PREDS" for p
    using that by (auto simp: acl_defs is_bare_def is_internal_def BUILTIN_PREDICATES_def)
  show ?thesis
  proof (cases "st_canonical st \<and> is_bare p")
    case True
    then have "canonical_name st p = voc_base (st_vocab st) @ p"
      by (simp add: canonical_name_def canonical_predicate_def)
    then have "canonical_name st p \<notin> set ACCESS_CONTROL_PREDS"
      using base_has_colon [OF assms] acl by fastforce
    then show ?thesis using acl True by blast
  next
    case False
    then show ?thesis by (auto simp: canonical_name_def canonical_predicate_def)
  qed
qed

text \<open>C40. Guarding names guards what is stored: with a sound vocabulary a user's write passes the
  guard exactly when no predicate it names is stored as one of the built-in predicates of the
  vocabulary, whatever the spelling, and a service call always passes. The delete handler guards the
  name it filters by, so a request that names none passes and selects every open membership it reads.\<close>

theorem acl_guard_sound:
  assumes "vocabulary_ok (st_vocab st)"
  shows "(reject_user_acl_writes (Some a) preds = Inr () \<longleftrightarrow>
      (\<forall>p\<in>set preds. canonical_name st p \<notin> set BUILTIN_PREDICATES)) \<and>
    reject_user_acl_writes None preds = Inr () \<and>
    reject_user_acl_writes (Some a) [[]] = Inr () \<and>
    (vt_end t = END_OF_TIME \<longrightarrow> dr_object req = None \<longrightarrow> dr_value req = None \<longrightarrow>
      (g, Relation s (Predicate BUILTIN_MEMBER_OF_PRED) grp e t) \<in> set quads \<longrightarrow>
      (g, Relation s (Predicate BUILTIN_MEMBER_OF_PRED) grp e t) \<in> set (delete_quads req quads))"
proof -
  note name = canonical_acl [OF assms]
  have "find (\<lambda>p. p \<in> set ACCESS_CONTROL_PREDS) preds = None \<longleftrightarrow> (\<forall>p\<in>set preds. p \<notin> set ACCESS_CONTROL_PREDS)"
    by (auto simp: find_None_iff)
  then have "reject_user_acl_writes (Some a) preds = Inr () \<longleftrightarrow>
      (\<forall>p\<in>set preds. canonical_name st p \<notin> set BUILTIN_PREDICATES)"
    by (auto simp: reject_user_acl_writes_def guarded_builtin name [unfolded guarded_builtin] split: option.splits)
  moreover have "[] \<notin> set ACCESS_CONTROL_PREDS" 
    by (simp add: acl_defs)
  ultimately show ?thesis
    by (simp add: reject_user_acl_writes_def delete_quads_def)
qed

definition delete_all :: delete_request where
  "delete_all = \<lparr>dr_subjects = [NodeId 9], dr_predicate = [], dr_object = None, dr_value = None, dr_vt_end = Timestamp 0\<rparr>"

theorem acl_guard_sound_witness:
  "reject_user_acl_writes (Some (from_levels [] [])) [''knows'', BUILTIN_MEMBER_OF_PRED] \<noteq> Inr () \<and>
    reject_user_acl_writes (Some (from_levels [] [])) [''knows''] = Inr () \<and>
    reject_user_acl_writes (Some (from_levels [] [])) [dr_predicate delete_all] = Inr () \<and>
    (DEFAULT_GRAPH, demo_member) \<in> set (delete_quads delete_all [(DEFAULT_GRAPH, demo_member)])"
proof -
  have ok: "vocabulary_ok (st_vocab demo_store)" by code_simp
  note all = acl_guard_sound [OF ok, of "from_levels [] []"]
  note guard = all [THEN conjunct1]
  note guard = guard [folded guarded_builtin]
  have "canonical_name demo_store BUILTIN_MEMBER_OF_PRED \<in> set ACCESS_CONTROL_PREDS"
    and "canonical_name demo_store ''knows'' \<notin> set ACCESS_CONTROL_PREDS"
    unfolding canonical_acl [OF ok] by (simp_all add: acl_defs)
  moreover have "(DEFAULT_GRAPH, demo_member) \<in> set (delete_quads delete_all [(DEFAULT_GRAPH, demo_member)])"
    using all [where req = delete_all and quads = "[(DEFAULT_GRAPH, demo_member)]"
        and t = "open_from (Timestamp 0)"]
    unfolding demo_member_def by (simp add: delete_all_def open_from_def)
  ultimately show ?thesis
    using guard [of "[''knows'', BUILTIN_MEMBER_OF_PRED]"] guard [of "[''knows'']"] all by (auto simp: delete_all_def)
qed

end
