(* ===== verification/Spec2Isabelle.thy ===== *)
theory Spec2Isabelle
  imports Demo Retention_Facts Store_Queries Query_Claims Schema_Claims Owl_Claims Access_Claims
begin

text \<open>
  Polargraph is a bitemporal quad store on RocksDB. This development models its core, the Rust
  crates polargraph-core, polargraph-storage and the engine of polargraph-query: what is written,
  under which keys, when it becomes visible, what a reader at a snapshot sees, what retention may
  remove, which schemas are accepted, and what a query answers.

  Parts and theories. Source paths are relative to \<open>src/crates/\<close>.
  \<^item> \<open>Prelude\<close>: byte strings, big- and little-endian words, slices, the result monad
    \<open>error + 'a\<close>, traversals, HashMap as an association list, UTF-8 strings as byte strings.
  \<^item> \<open>Core_Types\<close>, \<open>Core_Terms\<close> (polargraph-core: id.rs, temporal.rs, value.rs, triple.rs, quad.rs,
    term.rs, skolem.rs): identifiers, timestamps (a signed 64-bit word), values with their canonical
    bytes and content hash, triples, terms, skolem IRIs.
  \<^item> \<open>Env\<close>: everything that is not under \<open>src/\<close>. RocksDB, the JSON codec, XXH3, UUID v5 are fields
    of a record \<open>env\<close>; the locale \<open>kv_engine\<close> states what the code relies on of RocksDB (a batch is
    applied in order and atomically, an iterator yields the entries with a prefix in key order); it
    is interpreted on a concrete engine, \<open>ref_env\<close>.
  \<^item> \<open>Vocab\<close> (vocab.rs), \<open>Codec\<close> (codec.rs), \<open>Keys\<close> and \<open>Annotation_Keys\<close> (keys.rs, cf.rs).
  \<^item> \<open>Store_Meta\<close>, \<open>Store_Read\<close>, \<open>Store_Write\<close> (store.rs): the store record (engine, predicate and
    graph tables, dictionary, committed time), interning, scans, staging of writes.
  \<^item> \<open>Changes\<close> (changes.rs): the change log. \<open>Mvcc\<close> (mvcc.rs): oracle, transactions, conflict check,
    commit. \<open>Mvcc_Steps\<close>: interleavings of several clients around the commit lock.
  \<^item> \<open>Retention\<close> (compaction.rs, and the sweep of store.rs): the policy, the walk over the eight
    orders, mark and sweep.
  \<^item> \<open>Store_Queries\<close> (store.rs): edge annotations, property history, text search.
  \<^item> \<open>Snapshot_Reads\<close> (mvcc.rs): the readers of a transaction and of a snapshot. \<open>Schema_Types\<close>
    (schema.rs) and \<open>Type_Registry\<close> (registry.rs): node and edge types, inheritance, validation,
    cardinality, and the two halves of a registration as a step relation.
  \<^item> \<open>Query_Plan\<close> (planner.rs, eval.rs): the index a pattern is planned onto and its evaluation.
    \<open>Datalog\<close> (datalog.rs): patterns with variables, graph scopes, joins, bounded paths, recursive
    rules. A query is a function of a counter that numbers its looks at the clock and its fresh edge
    ids (\<open>'a qrun\<close>); the record \<open>world\<close> says what they give.
  \<^item> \<open>Query_Claims\<close> and \<open>Schema_Claims\<close> state the properties of the query engine and of the
    registries; the facts they rest on are in \<open>Query_Facts\<close> (evaluation is a filtered full scan),
    \<open>Datalog_Join\<close> (deadlines, and substitution into patterns as a join), \<open>Datalog_Model\<close> (the least
    model of rules), \<open>Reachability\<close> and \<open>Type_Hierarchy\<close>.
  \<^item> \<open>Graph_Ops\<close> (graphs.rs): named graphs, their metadata, drop, copy and move. These operations
    commit several times and look at the clock in between, so their state is the record \<open>clocked\<close>, a
    store with a clock stream. \<open>Graph_Access\<close> (graph_acl.rs): grants and the access index.
  \<^item> \<open>Owl_Rl\<close> and \<open>Owl_Run\<close> (owl_rl.rs): inferred graphs, the schema and its closure, the rules, the
    full run and the incremental run. \<open>Owl_Facts\<close> relates the full run to a declarative closure,
    \<open>Owl_Increment\<close> states the interface of a fact source (locale \<open>fact_answers\<close>, interpreted on the
    memory of a run) and proves the incremental run against it, \<open>Owl_Store\<close> shows that the store at
    a snapshot provides it.
  \<^item> \<open>Service_Guards\<close> (service.rs): the guards of the gRPC writes, the filter of results, the handler
    of DeleteTriples. \<open>Owl_Claims\<close> and \<open>Access_Claims\<close> state the properties of inference and access.
  \<^item> The other theories hold facts only: \<open>Scan_Spec\<close> (the set a scan must return, and that it does),
    \<open>Stage_Effect\<close>, \<open>Value_Facts\<close>, \<open>Mvcc_Facts\<close>, \<open>Commit_Outcome\<close>, \<open>Snapshots\<close>, \<open>Own_Writes\<close>,
    \<open>Replace_Facts\<close>, \<open>Retention_Facts\<close>; \<open>Demo\<close> is a small concrete store the witnesses run on.

  How state and operations correspond. \<open>TripleStore\<close> is the record \<open>store\<close>; an operation that
  changes it has type \<open>op\<close>, a function from a store to a result and a store. Its RwLocks and Arcs
  are plain fields: one operation runs at a time, except that \<open>Mvcc_Steps\<close> splits a commit at the
  point where the code releases nothing but another client can still begin. Errors are values of
  \<open>error\<close>. Clocks (\<open>now\<close>, \<open>wall\<close>) and Unicode lower-casing are arguments.

  What the lemmas show. The invariant is \<open>store_ok\<close> (the eight orders hold the same quads with the
  same bytes, the interning tables agree with META, the dictionary is consistent, no version is
  newer than the oracle) with \<open>values_ok\<close> (stored values decode). Commits keep it (C1) and fail only
  for the reasons they should (C7); a scan returns the set \<open>Scan_Spec\<close> defines (C3, C13); the rest
  states what a commit, a snapshot, an interleaving, a retention run and a text search guarantee.
  Queries are reduced to full scans (C24), joins to set comprehensions over the stored facts (C25),
  rules to a least fixpoint (C27) and path searches to powers and the closure of the edges (C28,
  C29), each with the proof that the code returns. A full inference run computes the closure of the
  rules (C36) and an incremental run over asserted facts agrees with it (C37); over deleted facts it
  does not always (C38). Access is exactly what was granted (C39), and the guard on access-control
  predicates cannot be passed by another spelling (C40).

  Bounds and fuel. Machine integers are words; the transaction clock may saturate, so the theorems
  about commits assume it is below END_OF_TIME. Predicate and graph identifiers are 32-bit counters
  and interning assumes a free one (\<open>room_left\<close>). The loops of the code are structural in the model,
  but for four: the fixpoint loop of the rules, which ends because each pass adds one of finitely
  many facts over the nodes of the store and the seed (without a deadline, or before it); the walks
  of the type hierarchy that mark what they visit, which end by the finite cache; the saturation of
  an inference run, which ends because every rule stays in a finite universe of facts; and
  \<open>collect_fields\<close>, which marks nothing, is a partial function, and ends when no cycle is met (C33). The loops of an incremental
  inference run and of the reading of its changes ask the store and are partial functions too.

  Not modelled. Vectors and the HNSW index, replication and the WAL stream, backup, migrations and
  the legacy formats, the registry of databases, SST import: they are I/O around the same writes or
  calls of libraries. The surface languages (Cypher, SPARQL) translate to the query engine; their parsers
  and writers, the REST gateway, the gRPC handlers other than the guards and DeleteTriples, the bench, the
  import tool and the process configuration are glue around the store. SHACL validation, counters,
  views, the rate limiter and the cached node-level access filter are not modelled yet. Locks are modelled only
  where two operations interleave; crashes are those of an atomic batch. Display and serde derives,
  metrics and logging are left out.
\<close>


section \<open>Commits and snapshots\<close>

text \<open>C1. A transaction that commits, or fails, leaves a store on which every invariant holds: the
  eight quad orders agree, the predicate and graph tables match META, every dictionary entry is
  filed under the node its IRI names, no version is newer than the oracle, and every stored value
  decodes. The caller owes UTF-8 names, free predicate ids, values the codec carries and a clock
  that is not negative.\<close>

theorem commit_keeps_invariants:
  assumes "kv_engine E" and "store_ok E st" and "values_ok E st" and "tx_ok st tx"
    and "writes_codec_ok E (pending_writes tx)" and "st_committed st < END_OF_TIME"
    and "Timestamp 0 \<le> wall" and "commit E wall tx st = (r, st')"
  shows "store_ok E st' \<and> values_ok E st'"
  using kv_engine.commit_store_ok [OF assms(1,2,4,6-8)]
    kv_engine.commit_values_ok [OF assms(1-5,8)] by blast

theorem commit_keeps_invariants_witness:
  "store_ok demo_env demo_after \<and> values_ok demo_env demo_after"
  by (rule commit_keeps_invariants [OF demo_engine demo_store_ok demo_values_ok demo_tx_ok
        demo_codec_ok _ _ demo_commit]) (simp_all add: demo_tx_fields)

text \<open>C2. A snapshot taken before a commit reads the same after it: a scan at an earlier time gives
  the same triples in the same graphs, whether the commit succeeds or fails. The one exception is
  an out-of-line value whose content hash the commit writes again with other bytes.\<close>

theorem snapshot_stable:
  assumes "kv_engine E" and "store_ok E st" and "values_ok E st" and "tx_ok st tx"
    and "writes_codec_ok E (pending_writes tx)" and "blobs_agree E st (pending_writes tx)"
    and "st_committed st < END_OF_TIME" and "Timestamp 0 \<le> wall"
    and "commit E wall tx st = (r, st')" and "ra_ts at \<le> st_committed st"
    and "scan_scoped_at E now st s pred ob scope at = Inr out"
  shows "\<exists>out'. scan_scoped_at E now st' s pred ob scope at = Inr out' \<and> set out' = set out"
  by (rule kv_engine.commit_snapshot_stable [OF assms])

theorem snapshot_stable_witness:
  "\<exists>out out'. scan_scoped_at demo_env (Timestamp 9) demo_store None None None Union
      (read_at_latest (Timestamp 0)) = Inr out \<and>
    scan_scoped_at demo_env (Timestamp 9) demo_after None None None Union
      (read_at_latest (Timestamp 0)) = Inr out' \<and> set out' = set out"
proof -
  obtain out where "scan_scoped_at demo_env (Timestamp 9) demo_store None None None Union
      (read_at_latest (Timestamp 0)) = Inr out"
    using ref.scan_scoped_total [OF demo_store_ok demo_values_ok] by blast
  with snapshot_stable [OF demo_engine demo_store_ok demo_values_ok demo_tx_ok demo_codec_ok
      demo_blobs_agree _ _ demo_commit _ this]
  show ?thesis by (auto simp: demo_tx_fields read_at_latest_def)
qed

text \<open>C3. A scan of a sound store succeeds and returns exactly the live quads it is asked for: those
  that match the bound slots, lie in the scope and in a readable graph, and whose governing version
  (the latest valid-time start not after the time asked for, then the latest transaction time not
  after the snapshot) is still valid then.\<close>

theorem scan_exact:
  assumes "kv_engine E" and "store_ok E st" and "values_ok E st"
  shows "\<exists>out. scan_scoped_at E now st s pred ob scope at = Inr out \<and>
    (\<forall>g tr. (g, tr) \<in> set out \<longleftrightarrow>
      (\<exists>p qs qp qo t b.
        (case pred of None \<Rightarrow> p = None | Some name \<Rightarrow> p = predicate_id st name \<and> p \<noteq> None) \<and>
        slots_match s p ob (qs, qp, qo, g) \<and> in_scope at scope (qs, qp, qo, g) \<and>
        live_at (view E (st_db st)) (ra_ts at) (vt_or_now at now) (qs, qp, qo, g) t b \<and>
        reconstruct E st qs qp qo t b = Inr tr))"
proof -
  obtain out where out: "scan_scoped_at E now st s pred ob scope at = Inr out"
    using kv_engine.scan_scoped_total [OF assms] by blast
  moreover have "index_ok (view E (st_db st))" using assms(2) by (simp add: store_ok_def)
  ultimately show ?thesis using kv_engine.scan_scoped_set [OF assms(1) _ out] by blast
qed

theorem scan_exact_witness:
  "\<exists>out. scan_scoped_at demo_env (Timestamp 9) demo_after (Some (NodeId 7)) (Some ''x:n'') None Union
      (read_at_latest (Timestamp 100)) = Inr out"
  using scan_exact [OF demo_engine demo_after_ok, of "Timestamp 9" "Some (NodeId 7)" "Some ''x:n''"
      None Union "read_at_latest (Timestamp 100)"] by blast

text \<open>C4. The last property a transaction writes is what its commit time reads: the version of that
  quad decodes to the value, the predicate and the valid time that were written, inline or through
  the blob store.\<close>

theorem commit_reads_back:
  assumes "kv_engine E" and "store_ok E st" and "tx_ok st tx" and "codec_ok E v"
    and "pending_writes tx = ws @ [w]" and "pw_triple w = Property s n v r"
    and "commit E wall tx st = (Inr t, st')"
  shows "\<exists>p b. predicate_id st' (pred_str n) = Some p \<and>
    version_at (view E (st_db st')) (s, p, value_object (xxh3_128 E) v, pw_graph w) t = Some b \<and>
    valid_time b = Some (vt_start r, vt_end r) \<and>
    reconstruct E st' s p (value_object (xxh3_128 E) v) t b
      = Inr (Property s (Predicate (canonical_name st (pred_str n))) v (r\<lparr>tt := t\<rparr>))"
  by (rule kv_engine.commit_last_write [OF assms])

theorem commit_reads_back_witness:
  "\<exists>p b. predicate_id demo_after ''x:n'' = Some p \<and>
    reconstruct demo_env demo_after (NodeId 7) p (value_object (xxh3_128 demo_env) (VText ''ab''))
      (Timestamp 100) b = Inr (Property (NodeId 7) (Predicate (canonical_name demo_store ''x:n''))
        (VText ''ab'') ((open_from (Timestamp 5))\<lparr>tt := Timestamp 100\<rparr>))"
  using commit_reads_back [OF demo_engine demo_store_ok demo_tx_ok demo_faithful _ _ demo_commit,
      of "[]" _ "NodeId 7" "Predicate ''x:n''" "open_from (Timestamp 5)"]
  unfolding demo_tx_pending by (fastforce simp: demo_triple_def)



text \<open>C6. First committer wins: when a version of a quad the transaction claims was committed after the
  time it read, commit reports the conflict and writes nothing; only the oracle has moved.\<close>

theorem stale_write_rejected:
  assumes "kv_engine E" and "store_ok E st" and "w \<in> set (pending_writes tx)" and "\<not> tx_empty tx"
    and "conflicting E st (tx_read_ts tx) (commit_time wall st) w"
  shows "\<exists>s n. commit E wall tx st = (Inl (WriteConflict s n), st\<lparr>st_committed := commit_time wall st\<rparr>)"
  by (rule kv_engine.commit_conflict [OF assms])

theorem stale_write_rejected_witness:
  "\<exists>s n. commit demo_env (Timestamp 200) demo_stale demo_after =
    (Inl (WriteConflict s n), demo_after\<lparr>st_committed := Timestamp 200\<rparr>)"
  using stale_write_rejected [OF demo_engine demo_after_ok(1) _ _ demo_conflict]
  by (simp add: demo_replace_fields demo_time2)

text \<open>C7. Nothing else makes a commit fail: on a sound store a commit that returns an error has met a
  conflicting version, two different IRIs that name one node, or a replica.\<close>

theorem commit_failure_reasons:
  assumes "kv_engine E" and "store_ok E st" and "values_ok E st" and "tx_ok st tx"
    and "writes_codec_ok E (pending_writes tx)" and "commit E wall tx st = (Inl e, st')"
  shows "(\<exists>w\<in>set (pending_writes tx). conflicting E st (tx_read_ts tx) (commit_time wall st) w \<and>
      e = WriteConflict (triple_subject (pw_triple w)) (pred_str (triple_predicate (pw_triple w)))) \<or>
    iri_clash E (tx_iris tx) e \<or> e = read_only_err \<and> is_replica st"
  by (rule kv_engine.commit_error [OF assms])

theorem commit_failure_reasons_witness:
  "\<exists>e st'. commit demo_env (Timestamp 200) demo_stale demo_after = (Inl e, st') \<and>
    e = WriteConflict (NodeId 7) ''x:n''"
proof -
  obtain e st' where c: "commit demo_env (Timestamp 200) demo_stale demo_after = (Inl e, st')"
    using ref.commit_conflict [OF demo_after_ok(1) _ _ demo_conflict]
    by (auto simp: demo_replace_fields)
  from commit_failure_reasons [OF demo_engine demo_after_ok demo_replace_ok(2) _ c] demo_replace_ok(3)
  have "e = WriteConflict (NodeId 7) ''x:n''"
    by (auto simp: demo_replace_fields demo_new_triple_def iri_clash_def demo_after_fields)
  with c show ?thesis by blast
qed

text \<open>C8. What a commit persists: its time is in META, so a restart does not give it out again; every
  IRI it named is in the dictionary, and no earlier entry is lost or changed.\<close>

theorem commit_persists_oracle_and_iris:
  assumes "kv_engine E" and "store_ok E st" and "tx_ok st tx" and "\<not> tx_empty tx"
    and "commit E wall tx st = (Inr t, st')"
  shows "st_committed st' = t \<and> load_oracle_ts E (st_db st') = Inr t \<and>
    (\<forall>iri\<in>set (tx_iris tx). needs_dictionary E iri \<longrightarrow>
      iri_of E (iri_to_node_id E iri) st' = Inr (Some iri)) \<and>
    (\<forall>n iri. iri_of E n st = Inr (Some iri) \<longrightarrow> iri_of E n st' = Inr (Some iri))"
  by (rule kv_engine.commit_persists [OF assms])

theorem commit_persists_oracle_and_iris_witness:
  "load_oracle_ts demo_env (st_db demo_after) = Inr (Timestamp 100)"
  using commit_persists_oracle_and_iris [OF demo_engine demo_store_ok demo_tx_ok _ demo_commit]
  by (simp add: demo_tx_fields)


section \<open>Transactions side by side\<close>

text \<open>C9. Snapshot isolation, when \<open>begin\<close> waits for the commit lock: in every reachable state of any
  interleaving of transactions, the versions an active transaction can read are those that were
  there when it began.\<close>

theorem snapshot_isolation:
  assumes "kv_engine E" and "store_ok E st" and "reach E True (fresh_sys st) S"
    and "sy_clients S i = Active tx seen" and "u \<le> tx_read_ts tx"
  shows "version_at (view E (st_db (sy_store S))) ids u = version_at seen ids u"
proof -
  have "sys_ok E (fresh_sys st)" "isolated E (fresh_sys st)"
    using assms(2) by (simp_all add: sys_ok_def isolated_def fresh_sys_def)
  from kv_engine.reach_isolated [OF assms(1,3) this] assms(4,5)
  show ?thesis unfolding isolated_def undisturbed_def by blast
qed

theorem snapshot_isolation_witness:
  "version_at (view demo_env (st_db demo_after)) (NodeId 7, 1, demo_object, DEFAULT_GRAPH) (Timestamp 0) =
   version_at (view demo_env (st_db demo_store)) (NodeId 7, 1, demo_object, DEFAULT_GRAPH) (Timestamp 0)"
  using snapshot_isolation [OF demo_engine demo_store_ok demo_run [of 5 True] demo_sys_fields(1)]
  by (simp add: demo_sys_fields demo_tx_fields)

text \<open>C10. First committer wins, across every such interleaving: when a transaction lands, each quad it
  claims has no version it could not read, so no update is lost.\<close>

theorem no_lost_update:
  assumes "kv_engine E" and "store_ok E st" and "reach E True (fresh_sys st) S"
    and "sy_clients S i = Active tx seen" and "sy_lock S = Some (i, t)"
    and "commit_body E tx t (sy_store S) = (Inr t', st')" and "w \<in> set (pending_writes tx)"
    and "predicate_id (sy_store S) (pred_str (triple_predicate (pw_triple w))) = Some p"
    and "claims E w p ids" and "version_at (view E (st_db (sy_store S))) ids u = Some b"
  shows "u \<le> tx_read_ts tx \<and> version_at seen ids u = Some b"
proof -
  have "sys_ok E (fresh_sys st)" "isolated E (fresh_sys st)"
    using assms(2) by (simp_all add: sys_ok_def isolated_def fresh_sys_def)
  note run = assms(1,3) this
  from kv_engine.land_claims [OF assms(1) kv_engine.reach_ok [OF run(1-3)] assms(4-10)]
  show ?thesis using kv_engine.reach_isolated [OF run] assms(4,10)
    unfolding isolated_def undisturbed_def by metis
qed

theorem no_lost_update_witness:
  "\<exists>p b. predicate_id demo_after ''x:n'' = Some p \<and> Timestamp 100 \<le> tx_read_ts demo_replace \<and>
    version_at (view demo_env (st_db demo_after)) (NodeId 7, p, demo_object, DEFAULT_GRAPH) (Timestamp 100) = Some b"
proof -
  obtain p b where pb: "predicate_id demo_after ''x:n'' = Some p"
    "version_at (view demo_env (st_db demo_after)) (NodeId 7, p, demo_object, DEFAULT_GRAPH) (Timestamp 100) = Some b"
    using demo_version by blast
  have "predicate_id (demo_after\<lparr>st_committed := Timestamp 200\<rparr>) ''x:n'' = Some p"
    using pb(1) unfolding predicate_id_eq canonical_name_def by (cases "st_canonical demo_after") simp_all
  with pb no_lost_update [OF demo_engine demo_after_ok(1) demo_run2 demo_sys2_fields(1,2,4), of _ p
      "(NodeId 7, p, demo_object, DEFAULT_GRAPH)" "Timestamp 100" b]
  show ?thesis
    by (auto simp: demo_replace_fields demo_sys2_fields(3) demo_new_triple_def claims_def resolve_def)
qed

text \<open>C11. Without the lock the guarantee is gone: \<open>begin_commit\<close> publishes the commit time before the
  writes are in the store, so a transaction can begin in between with a read time that covers a
  version it does not see, write the same quad, and commit. The second write was made in ignorance of
  the first and no conflict is reported.\<close>

theorem begin_race_loses_update:
  assumes "kv_engine E" and "store_ok E st" and "values_ok E st" and "\<not> is_replica st"
    and "is_utf8 (canonical_name st (pred_str n))" and "2 \<le> room_left (st_next_pred st)"
    and "codec_ok E v" and "Timestamp 0 \<le> wall" and "Timestamp 0 \<le> wall'"
    and "st_committed st < END_OF_TIME" and "commit_time wall st < END_OF_TIME"
  shows "\<exists>S S' tx seen t p b. reach E False (fresh_sys st) S \<and> step E False S S' \<and>
    sy_clients S 1 = Active tx seen \<and> sy_clients S' 1 = Finished (Inr t) \<and>
    pending_writes tx = [\<lparr>pw_triple = Property s n v r, pw_graph = g, pw_mode = m\<rparr>] \<and>
    predicate_id (sy_store S) (pred_str n) = Some p \<and>
    version_at (view E (st_db (sy_store S))) (s, p, value_object (xxh3_128 E) v, g) (tx_read_ts tx) = Some b \<and>
    version_at seen (s, p, value_object (xxh3_128 E) v, g) (tx_read_ts tx) = None"
  by (rule kv_engine.lost_update_run [OF assms(1-7) refl assms(8-11)])

theorem begin_race_loses_update_witness:
  "\<exists>S S' tx seen t. reach demo_env False (fresh_sys demo_store) S \<and> step demo_env False S S' \<and>
    sy_clients S 1 = Active tx seen \<and> sy_clients S' 1 = Finished (Inr t) \<and>
    pending_writes tx = [\<lparr>pw_triple = demo_triple, pw_graph = DEFAULT_GRAPH, pw_mode = Add\<rparr>]"
proof -
  have "is_utf8 (canonical_name demo_store ''x:n'')"
    using demo_tx_ok by (simp add: tx_ok_def names_ok_def demo_tx_pending demo_triple_def)
  moreover have "2 \<le> room_left (st_next_pred demo_store)"
    by (simp add: room_left_def demo_store_def fresh_store_def)
  moreover have "Timestamp 100 < END_OF_TIME" by (simp add: less_timestamp_def END_OF_TIME_def)
  ultimately show ?thesis
    using begin_race_loses_update [OF demo_engine demo_store_ok demo_values_ok _ _ _ demo_faithful,
        of "Predicate ''x:n''" "Timestamp 100" "Timestamp 100" "NodeId 7" "open_from (Timestamp 5)" DEFAULT_GRAPH Add]
    unfolding demo_triple_def by (fastforce simp: demo_tx_fields demo_time)
qed


section \<open>What is on disk\<close>

text \<open>C12. Every one of the eight quad orders is a bijection between quads and the 48-byte keys: a key
  decodes exactly to the quad it encodes, any other length is refused, and for one quad the keys
  sort by transaction time.\<close>

theorem quad_keys_bijective:
  "(order_decode ord b = Inr k \<longleftrightarrow> b = order_encode ord k) \<and>
   ((\<exists>k. order_decode ord b = Inr k) \<longleftrightarrow> length b = QUAD_KEY_LEN) \<and>
   graph_of ord (order_encode ord k) = qk_g k \<and> key_tt (order_encode ord k) = qk_tt k"
  using quad_codec.dec_iff [of ord b k] quad_codec.dec_total [of ord b] by (simp add: QUAD_KEY_LEN_def)

text \<open>C13. The prefix of the order a scan chooses selects no quad too few: every quad in the scope
  that matches the bound slots has its key under the prefix, in that order's column family.\<close>

theorem scan_prefix_complete:
  assumes "slots_match s p ob ids" and "in_scope at scope ids"
  shows "prefix (snd (choose_order scope s p ob)) (order_encode (fst (choose_order scope s p ob)) (quad_of_ids ids t))"
proof -
  obtain s1 p1 o1 g1 where c: "choose_order scope s p ob = (fst (choose_order scope s p ob),
      order_prefix (fst (choose_order scope s p ob)) s1 p1 o1 g1)"
    "\<forall>ids at. slots_match s p ob ids \<longrightarrow> in_scope at scope ids \<longrightarrow>
      selects (fst (choose_order scope s p ob)) s1 p1 o1 g1 ids"
    using choose_order_prefix by blast
  have "snd (choose_order scope s p ob) = order_prefix (fst (choose_order scope s p ob)) s1 p1 o1 g1"
    by (subst c(1)) simp
  moreover have "selects (fst (choose_order scope s p ob)) s1 p1 o1 g1 ids" using c(2) assms by blast
  ultimately show ?thesis by (simp only: selects_prefix)
qed

theorem scan_prefix_complete_witness:
  "prefix (snd (choose_order (One (GraphId 3)) None (Some 7) None))
     (order_encode Gpos (quad_of_ids (NodeId 1, 7, NodeId 2, GraphId 3) (Timestamp 9)))"
  using scan_prefix_complete [of None "Some 7" None "(NodeId 1, 7, NodeId 2, GraphId 3)"
      "read_at_latest (Timestamp 9)" "One (GraphId 3)" "Timestamp 9"]
  by (simp add: slots_match_def slot_is_def in_scope_def can_read_def read_at_latest_def readable_admits_def del: order_prefix_iff)

text \<open>C14. What the codec writes it reads: a property survives encoding, inline and out of line, and
  closing it rewrites its valid time and nothing else.\<close>

theorem property_codec_round_trip:
  assumes "codec_ok E v"
  shows "\<exists>bs blob. encode_property E v t = Inr bs \<and> encode_blob E v = Inr blob \<and>
    decode_value E bs = Inr (DecodedProperty v (t\<lparr>tt := Timestamp 0\<rparr>)) \<and> decode_blob E blob = Inr v \<and>
    valid_time bs = Some (vt_start t, vt_end t) \<and>
    with_vt_end bs u = encode_property E v (t\<lparr>vt_end := u\<rparr>)"
proof -
  obtain bs where bs: "encode_property E v t = Inr bs" using encode_property_total [OF assms] by blast
  obtain full where "encode_property E v zero_range = Inr full"
    using encode_property_total [OF assms] by blast
  then obtain blob where "encode_blob E v = Inr blob" by (simp add: encode_blob_def)
  with bs show ?thesis
    using decode_encode_property [OF assms bs] decode_encode_blob [OF assms] valid_time_encode_property [OF bs]
      with_vt_end_encode_property [OF bs, of u] by blast
qed

theorem property_codec_round_trip_witness:
  "\<exists>bs. encode_property demo_env (VText ''ab'') (open_from (Timestamp 5)) = Inr bs \<and>
    decode_value demo_env bs = Inr (DecodedProperty (VText ''ab'') (open_from (Timestamp 5)))"
  using property_codec_round_trip [OF demo_faithful, of "open_from (Timestamp 5)"]
  by (auto simp: open_from_def)

text \<open>C15. A change-log entry reads back as it was logged: the author, the graph operations and every
  quad, with the value its bytes stand for, as long as no length exceeds its field.\<close>

theorem change_log_round_trip:
  assumes "is_utf8 author" and "length author < 2 ^ 16" and "length ops < 2 ^ 16"
    and "length quads < 2 ^ 32" and "\<forall>(q, v)\<in>set quads. length v < 2 ^ 32"
  shows "decode_change E st t (change_bytes author ops quads) =
    rbind (rtraverse (\<lambda>(q, v). rbind (reconstruct E st (qk_s q) (qk_p q) (qk_o q) t v) (\<lambda>tr.
        Inr (qk_g q, tr))) quads)
      (\<lambda>qs. Inr \<lparr>cr_ts = t, cr_author = author, cr_ops = ops, cr_quads = qs\<rparr>)"
  by (rule decode_change_bytes [OF assms])

theorem change_log_round_trip_witness:
  "decode_change demo_env demo_store (Timestamp 9) (change_bytes ''ab'' [Created (GraphId 2)] [])
    = Inr \<lparr>cr_ts = Timestamp 9, cr_author = ''ab'', cr_ops = [Created (GraphId 2)], cr_quads = []\<rparr>"
proof -
  have "is_utf8 ''ab''" by code_simp
  from change_log_round_trip [OF this, of "[Created (GraphId 2)]" "[]" demo_env demo_store "Timestamp 9"]
  show ?thesis by simp
qed

text \<open>C16. Interning a run of predicates gives two names one id exactly when they are stored as one
  name, and reopening the store reads the same ids from META.\<close>

theorem interned_ids_distinct_and_durable:
  assumes "kv_engine E" and "pred_table_ok E st" and "\<forall>n\<in>set ns. is_utf8 (canonical_name st n)"
    and "length ns \<le> room_left (st_next_pred st)"
    and "straverse (intern_predicate E) ns st = (Inr ids, st')" and "j < length ns" and "k < length ns"
  shows "(ids ! j = ids ! k \<longleftrightarrow> canonical_name st (ns ! j) = canonical_name st (ns ! k)) \<and>
    (\<exists>f r c. load_predicates E (st_db st') = Inr (f, r, c) \<and>
      hm_get f (canonical_name st (ns ! j)) = Some (ids ! j))"
  by (rule kv_engine.interned_predicates_ok [OF assms])

theorem interned_ids_distinct_and_durable_witness:
  "\<exists>ids st'. straverse (intern_predicate demo_env) [''x:a'', ''x:b''] demo_store = (Inr ids, st') \<and>
    ids ! 0 \<noteq> ids ! 1"
proof -
  have n: "canonical_name demo_store ''x:a'' = ''x:a''" "canonical_name demo_store ''x:b'' = ''x:b''"
    "is_utf8 ''x:a''" "is_utf8 ''x:b''" by code_simp+
  have t: "pred_table_ok demo_env demo_store" using demo_store_ok by (simp add: store_ok_def)
  have room: "length [''x:a'', ''x:b''] \<le> room_left (st_next_pred demo_store)"
    by (simp add: room_left_def demo_store_def fresh_store_def)
  obtain ids st' where r: "straverse (intern_predicate demo_env) [''x:a'', ''x:b''] demo_store = (Inr ids, st')"
    using ref.intern_predicates_total [OF demo_tx_fields(5)] by blast
  with interned_ids_distinct_and_durable [OF demo_engine t _ room r, of 0 1] n show ?thesis by simp
qed

text \<open>C17. Compacting an IRI to its short form loses nothing: expanding the short form gives the IRI
  back, unless its local name is internal, its scheme is a declared prefix, or two slashes follow
  the namespace.\<close>

theorem vocabulary_round_trip:
  assumes "vocabulary_ok V" and "iri = scheme @ '':'' @ rest" and "CHR '':'' \<notin> set scheme"
    and "map_of (voc_prefixes V) scheme = None"
    and "\<And>p ns. (p, ns) \<in> set (voc_prefixes V) \<Longrightarrow> \<not> prefix (ns @ ''//'') iri"
    and "\<And>local. iri = voc_base V @ local \<Longrightarrow> \<not> is_internal local"
  shows "expand V (compact V iri) = iri"
  by (rule expand_compact [OF assms])

definition demo_vocab :: vocabulary where
  "demo_vocab = \<lparr>voc_base = ''urn:b:'', voc_prefixes = [(''ex'', ''http://e/'')]\<rparr>"

theorem vocabulary_round_trip_witness:
  "compact demo_vocab ''http://e/x'' = ''ex:x'' \<and> expand demo_vocab (compact demo_vocab ''http://e/x'') = ''http://e/x''"
proof -
  have "vocabulary_ok demo_vocab" by code_simp
  moreover have "compact demo_vocab ''http://e/x'' = ''ex:x''" by code_simp
  ultimately show ?thesis
    using vocabulary_round_trip [of demo_vocab "''http://e/x''" "''http''" "''//e/x''"]
    by (auto simp: demo_vocab_def)
qed

text \<open>C18. A blank node's skolem IRI can be read back: the import and the label come out as they went
  in, when the base itself holds no genid path and the import id no slash.\<close>

theorem skolem_round_trip:
  assumes "\<not> sublist ''/.well-known/genid'' (is_base sc)"
    and "is_import_id sc \<noteq> []" and "CHR ''/'' \<notin> set (is_import_id sc)" and "label \<noteq> []"
  shows "parse_skolem_iri (skolem_iri sc label) = Some (is_import_id sc, label)"
  by (rule parse_skolem_iri_round_trip [OF assms])

theorem skolem_round_trip_witness:
  "parse_skolem_iri (skolem_iri (import_scope_new DEFAULT_SKOLEM_BASE ''i1'') ''b0'') = Some (''i1'', ''b0'')"
proof -
  have "\<not> sublist ''/.well-known/genid'' (is_base (import_scope_new DEFAULT_SKOLEM_BASE ''i1''))"
    "is_import_id (import_scope_new DEFAULT_SKOLEM_BASE ''i1'') = ''i1''" by code_simp+
  then show ?thesis
    using skolem_round_trip [of "import_scope_new DEFAULT_SKOLEM_BASE ''i1''" "''b0''"] by simp
qed


section \<open>Retention\<close>

text \<open>C19. Retention changes no answer inside its window: after a run, successful by this theorem on a
  sound primary, the store is still sound, and every scan whose transaction time is at or after the
  transaction cutoff and whose valid time is at or after the lookback gives the triples it gave.\<close>

theorem retention_keeps_window:
  assumes "kv_engine E" and "store_ok E st" and "values_ok E st" and "\<not> is_replica st"
    and "run_retention E now policy st = (r, st')"
    and "cutoff now (tx_age_secs policy) \<le> ra_ts at"
    and "\<And>secs. vt_lookback_secs policy = Some secs \<Longrightarrow> cutoff now secs \<le> vt_or_now at t0"
    and "scan_scoped_at E t0 st s pred ob scope at = Inr out"
  shows "(\<exists>stats. r = Inr stats) \<and> store_ok E st' \<and> values_ok E st' \<and>
    (\<exists>out'. scan_scoped_at E t0 st' s pred ob scope at = Inr out' \<and> set out' = set out)"
  using kv_engine.retention_window [OF assms] kv_engine.run_retention_ok [OF assms(1-5)] by blast

definition demo_policy :: retention_policy where
  "demo_policy = \<lparr>tx_age_secs = 0, vt_lookback_secs = Some 0\<rparr>"

theorem retention_keeps_window_witness:
  "\<exists>stats st' out out'. run_retention demo_env (Timestamp 500) demo_policy demo_after = (Inr stats, st') \<and>
    scan_scoped_at demo_env (Timestamp 900) demo_after None None None Union (read_at_latest (Timestamp 700)) = Inr out \<and>
    scan_scoped_at demo_env (Timestamp 900) st' None None None Union (read_at_latest (Timestamp 700)) = Inr out' \<and>
    set out' = set out"
proof -
  obtain r st' where r: "run_retention demo_env (Timestamp 500) demo_policy demo_after = (r, st')" by fastforce
  obtain out where out: "scan_scoped_at demo_env (Timestamp 900) demo_after None None None Union
      (read_at_latest (Timestamp 700)) = Inr out"
    using ref.scan_scoped_total [OF demo_after_ok] by blast
  have "cutoff (Timestamp 500) 0 = Timestamp 500"
    by (simp add: cutoff_def sat_i64_def ts_of_int_def ts_int_def)
  with retention_keeps_window [OF demo_engine demo_after_ok demo_after_fields(2) r _ _ out]
  have "(\<exists>stats. r = Inr stats) \<and> (\<exists>out'. scan_scoped_at demo_env (Timestamp 900) st' None None None Union
      (read_at_latest (Timestamp 700)) = Inr out' \<and> set out' = set out)"
    by (simp add: demo_policy_def read_at_latest_def vt_or_now_def less_eq_timestamp_def)
  with r out show ?thesis by blast
qed

text \<open>C20. The cutoff lies in the past exactly when the age is below \<open>2 ^ 63\<close> seconds. A larger age, which
  asks to keep everything, wraps to a negative one: the cutoff is in the future and every superseded
  version goes at once.\<close>

theorem retention_cutoff_in_past:
  assumes "now < END_OF_TIME"
  shows "cutoff now secs \<le> now \<longleftrightarrow> unat secs < 2 ^ 63"
  by (rule cutoff_before_now [OF assms])

theorem retention_cutoff_in_past_witness:
  "\<not> cutoff (Timestamp 500) (- 1) \<le> Timestamp 500"
  using retention_cutoff_in_past [of "Timestamp 500" "- 1"]
  by (simp add: less_timestamp_def END_OF_TIME_def unsigned_minus_1_eq_mask mask_eq_exp_minus_1)


section \<open>Annotations and text search\<close>

text \<open>C21. The annotations of an edge are the newest ones: a relation annotation is listed exactly when
  some version of it is visible, and per predicate one scalar is listed, that of a visible version no
  other visible version is newer than. The valid time of the version plays no part.\<close>

theorem edge_annotations_newest:
  assumes "kv_engine E" and "annotations_ok (view E (st_db st))"
    and "scan_edge_annotations_with E st edge ts readable = Inr out"
  shows "(\<lparr>ann_predicate = Predicate name, ann_value = NodeRef ob\<rparr> \<in> set out \<longleftrightarrow>
      (\<exists>p. predicate_string st p = Some name \<and> relation_notes (view E (st_db st)) edge ts readable p ob \<noteq> {})) \<and>
    (\<lparr>ann_predicate = Predicate name, ann_value = Scalar v\<rparr> \<in> set out \<longrightarrow>
      (\<exists>p t b r. predicate_string st p = Some name \<and> decode_value E b = Inr (DecodedProperty v r) \<and>
        newest_of (property_notes (view E (st_db st)) edge ts readable p) (Some (t, b)))) \<and>
    (\<forall>p. property_notes (view E (st_db st)) edge ts readable p \<noteq> {} \<longrightarrow>
      (\<exists>t b name. newest_of (property_notes (view E (st_db st)) edge ts readable p) (Some (t, b)) \<and>
        predicate_string st p = Some name \<and>
        (\<forall>v r. decode_value E b = Inr (DecodedProperty v r) \<longrightarrow>
          \<lparr>ann_predicate = Predicate name, ann_value = Scalar v\<rparr> \<in> set out)))"
  using kv_engine.edge_annotations_set [OF assms] by (intro conjI allI impI) blast+

definition noted_store :: "ref_db store" where
  "noted_store = demo_store\<lparr>st_db := [Put cf_EPO (encode_epo_key (EdgeId 1) 1 (NodeId 2) DEFAULT_GRAPH (Timestamp 5)) []],
    st_rev := [(1, ''x:p'')], st_fwd := [(''x:p'', 1)]\<rparr>"

theorem edge_annotations_newest_witness:
  "\<exists>out. scan_edge_annotations demo_env noted_store (EdgeId 1) (Timestamp 9) = Inr out \<and>
    \<lparr>ann_predicate = Predicate ''x:p'', ann_value = NodeRef (NodeId 2)\<rparr> \<in> set out"
proof -
  let ?key = "encode_epo_key (EdgeId 1) 1 (NodeId 2) DEFAULT_GRAPH (Timestamp 5)"
  have v: "view demo_env (st_db noted_store) cf k = (if cf = cf_EPO \<and> k = ?key then Some [] else None)" for cf k
    by (simp add: noted_store_def log_view_def)
  have dec: "decode_epo_key ?key = Inr \<lparr>epo_edge = EdgeId 1, epo_pred = 1, epo_object = NodeId 2,
      epo_g = DEFAULT_GRAPH, epo_tt = Timestamp 5\<rparr>"
    by (simp add: epo_codec.dec_iff)
  have ok: "annotations_ok (view demo_env (st_db noted_store))"
    unfolding annotations_ok_def v using dec by (auto simp: cf_defs less_eq_timestamp_def split: if_splits)
  have ps: "predicate_string noted_store 1 = Some ''x:p''"
    by (simp add: predicate_string_def noted_store_def hm_get_def)
  have seen: "relation_notes (view demo_env (st_db noted_store)) (EdgeId 1) (Timestamp 9) None 1 (NodeId 2) \<noteq> {}"
    unfolding relation_notes_def v by (auto simp: readable_admits_def less_eq_timestamp_def intro!: exI [of _ DEFAULT_GRAPH])
  have one: "p = 1" if "encode_epo_key e p ob g t = ?key" for e p ob g t
  proof -
    have "decode_epo_key (encode_epo_key e p ob g t)
        = Inr \<lparr>epo_edge = e, epo_pred = p, epo_object = ob, epo_g = g, epo_tt = t\<rparr>"
      by (simp add: epo_codec.dec_iff)
    with dec that show ?thesis by simp
  qed
  have "\<exists>out. scan_edge_annotations_with demo_env noted_store (EdgeId 1) (Timestamp 9) None = Inr out"
    by (rule ref.edge_annotations_total [OF ok])
      (unfold v, auto simp: cf_defs ps dest: one split: if_splits)
  then obtain out where out: "scan_edge_annotations_with demo_env noted_store (EdgeId 1) (Timestamp 9) None = Inr out"
    by blast
  with edge_annotations_newest [OF demo_engine ok out, of "''x:p''" "NodeId 2"] ps seen
  show ?thesis by (auto simp: scan_edge_annotations_def)
qed



text \<open>C23. The trigram index finds parts of three bytes or more only: the trigrams of a query that occurs
  in an indexed text of at least three bytes are trigrams of the text exactly when the query itself
  has at least three bytes.\<close>

theorem trigrams_cover_from_three_bytes:
  assumes "sublist query s" and "query \<noteq> []" and "3 \<le> length s" and "CHR 0x00 \<notin> set s"
  shows "set (extract_trigrams query) \<subseteq> set (extract_trigrams s) \<longleftrightarrow> 3 \<le> length query"
proof (cases "3 \<le> length query")
  case False
  moreover from this assms(2) have "set (extract_trigrams query) \<noteq> {}"
    by (simp add: extract_trigrams_def Let_def as_bytes_def)
  ultimately show ?thesis using short_query_not_found [OF assms(2) _ assms(3,4)]
    by (metis inf.absorb_iff1 not_less)
qed (use trigrams_of_part [OF assms(1)] in simp)

theorem trigrams_cover_from_three_bytes_witness:
  "\<not> set (extract_trigrams ''ab'') \<subseteq> set (extract_trigrams ''xaby'')"
  using trigrams_cover_from_three_bytes [of "''ab''" "''xaby''"] by (simp add: sublist_code)

end
